(* ===== verification/Prelude.thy ===== *)
theory Prelude
  imports Main "HOL-Library.Word" "HOL-Library.Sublist" "HOL-Library.Code_Target_Nat"
begin

text \<open>
  Shared vocabulary of the development: bytes and strings, the searching operations of
  \<^verbatim>\<open>std::string_view\<close> that the signalling code is written with, and the lemmas about
  them that every parser proof needs.

  A \<^verbatim>\<open>std::string\<close> or \<^verbatim>\<open>std::string_view\<close> is a \<^typ>\<open>string\<close>; a position is a
  \<^typ>\<open>nat\<close> and \<^verbatim>\<open>npos\<close> is \<^term>\<open>None\<close>. A \<^verbatim>\<open>std::vector<uint8_t>\<close> or
  \<^verbatim>\<open>std::span<const uint8_t>\<close> is a list of bytes.
\<close>

unbundle bit_operations_syntax

type_synonym byte = "8 word"
type_synonym u16 = "16 word"
type_synonym u32 = "32 word"
type_synonym u64 = "64 word"

text \<open>Rewrite rules of the string searches, and of the frame of a state update.\<close>

named_theorems search_simps
named_theorems frame_simps

abbreviation CR :: char where "CR \<equiv> CHR 0x0D"
abbreviation LF :: char where "LF \<equiv> CHR 0x0A"
abbreviation TAB :: char where "TAB \<equiv> CHR 0x09"
abbreviation QUOTE :: char where "QUOTE \<equiv> CHR 0x22"
abbreviation CRLF :: string where "CRLF \<equiv> [CR, LF]"

section \<open>Searching\<close>

text \<open>The position of the first element with a property.\<close>

fun find_idx :: "('a \<Rightarrow> bool) \<Rightarrow> 'a list \<Rightarrow> nat option" where
  "find_idx P [] = None"
| "find_idx P (x # xs) = (if P x then Some 0 else map_option Suc (find_idx P xs))"

abbreviation find_char :: "char \<Rightarrow> string \<Rightarrow> nat option" where
  "find_char c \<equiv> find_idx (\<lambda>x. x = c)"

abbreviation find_first_of :: "string \<Rightarrow> string \<Rightarrow> nat option" where
  "find_first_of cs \<equiv> find_idx (\<lambda>x. x \<in> set cs)"

abbreviation find_first_not_of :: "string \<Rightarrow> string \<Rightarrow> nat option" where
  "find_first_not_of cs \<equiv> find_idx (\<lambda>x. x \<notin> set cs)"

text \<open>The position of the last occurrence of a character (\<^verbatim>\<open>rfind\<close>).\<close>

definition rfind_char :: "char \<Rightarrow> string \<Rightarrow> nat option" where
  "rfind_char c s = (case find_char c (rev s) of None \<Rightarrow> None | Some i \<Rightarrow> Some (length s - 1 - i))"

definition starts_with :: "string \<Rightarrow> string \<Rightarrow> bool" where
  "starts_with s p \<longleftrightarrow> take (length p) s = p"

text \<open>The position of the first occurrence of a substring.\<close>

fun find_str :: "string \<Rightarrow> string \<Rightarrow> nat option" where
  "find_str p [] = (if p = [] then Some 0 else None)"
| "find_str p (x # xs) =
     (if starts_with (x # xs) p then Some 0 else map_option Suc (find_str p xs))"

text \<open>\<^verbatim>\<open>s.substr(0, s.find(c))\<close>: everything before the character, or all of it.\<close>

definition before :: "nat option \<Rightarrow> 'a list \<Rightarrow> 'a list" where
  "before i s = (case i of None \<Rightarrow> s | Some k \<Rightarrow> take k s)"

text \<open>
  \<^verbatim>\<open>s.remove_prefix(i == npos ? s.size() : i + 1)\<close>: everything after the character, or
  nothing.
\<close>

definition after :: "nat option \<Rightarrow> 'a list \<Rightarrow> 'a list" where
  "after i s = (case i of None \<Rightarrow> [] | Some k \<Rightarrow> drop (Suc k) s)"

subsection \<open>Lemmas\<close>

lemma find_idx_None_iff: "find_idx P xs = None \<longleftrightarrow> (\<forall>x \<in> set xs. \<not> P x)"
  by (induction xs) auto

lemma find_idx_SomeD:
  "find_idx P xs = Some i \<Longrightarrow> i < length xs \<and> P (xs ! i) \<and> (\<forall>j < i. \<not> P (xs ! j))"
proof (induction xs arbitrary: i)
  case Nil
  then show ?case by simp
next
  case (Cons x xs)
  show ?case
  proof (cases "P x")
    case True
    with Cons.prems show ?thesis by simp
  next
    case False
    with Cons.prems obtain k where "find_idx P xs = Some k" and "i = Suc k" by auto
    with Cons.IH False show ?thesis by (auto simp: less_Suc_eq_0_disj)
  qed
qed

lemma find_idx_less: "find_idx P xs = Some i \<Longrightarrow> i < length xs"
  by (simp add: find_idx_SomeD)

lemma find_idx_append [search_simps]:
  "find_idx P (xs @ ys) =
     (case find_idx P xs of
        Some i \<Rightarrow> Some i
      | None \<Rightarrow> map_option (\<lambda>i. length xs + i) (find_idx P ys))"
  by (induction xs; cases "find_idx P ys") (auto split: option.splits)

lemma find_idx_split:
  assumes "\<forall>x \<in> set xs. \<not> P x" and "P y"
  shows "find_idx P (xs @ y # ys) = Some (length xs)"
  using assms by (induction xs) auto

lemma find_idx_take:
  "find_idx P xs = Some i \<Longrightarrow> \<forall>x \<in> set (take i xs). \<not> P x"
  by (auto dest!: find_idx_SomeD simp: in_set_conv_nth)

lemma find_idx_decompose:
  "find_idx P xs = Some i \<Longrightarrow> xs = take i xs @ xs ! i # drop (Suc i) xs"
  by (simp add: find_idx_less id_take_nth_drop)

lemma rfind_char_split:
  assumes "c \<notin> set ys"
  shows "rfind_char c (xs @ c # ys) = Some (length xs)"
proof -
  have "find_char c (rev ys @ c # rev xs) = Some (length (rev ys))"
    by (rule find_idx_split) (use assms in auto)
  then show ?thesis by (simp add: rfind_char_def)
qed

lemma starts_with_append [simp]: "starts_with (p @ s) p"
  by (simp add: starts_with_def)

lemma starts_with_Nil [simp]: "starts_with s []"
  by (simp add: starts_with_def)

lemma starts_with_Nil_left [simp]: "starts_with [] p \<longleftrightarrow> p = []"
  by (auto simp: starts_with_def)

lemma starts_with_Cons [simp]:
  "starts_with (x # s) (y # p) \<longleftrightarrow> x = y \<and> starts_with s p"
  by (auto simp: starts_with_def)

lemma starts_with_iff_prefix: "starts_with s p \<longleftrightarrow> prefix p s"
  by (metis append_take_drop_id prefixI starts_with_append prefixE starts_with_def)

lemma find_str_Nil [simp]: "find_str [] s = Some 0"
  by (cases s) simp_all

lemma find_str_SomeD: "find_str p s = Some i \<Longrightarrow> i + length p \<le> length s \<and> starts_with (drop i s) p"
proof (induction s arbitrary: i)
  case Nil
  then show ?case by (simp split: if_splits)
next
  case (Cons x s)
  show ?case
  proof (cases "starts_with (x # s) p")
    case True
    with Cons.prems have "i = 0" by simp
    moreover from True have "length p \<le> length (x # s)"
      by (metis starts_with_iff_prefix prefix_length_le)
    ultimately show ?thesis using True by simp
  next
    case False
    with Cons.prems obtain k where k: "find_str p s = Some k" "i = Suc k" by auto
    from Cons.IH [OF k(1)] k(2) show ?thesis by simp
  qed
qed

lemma find_str_first: "find_str p s = Some i \<Longrightarrow> j < i \<Longrightarrow> \<not> starts_with (drop j s) p"
proof (induction s arbitrary: i j)
  case Nil
  then show ?case by (simp split: if_splits)
next
  case (Cons x s)
  show ?case
  proof (cases "starts_with (x # s) p")
    case True
    with Cons.prems show ?thesis by simp
  next
    case False
    with Cons.prems obtain k where k: "find_str p s = Some k" "i = Suc k" by auto
    show ?thesis
    proof (cases j)
      case 0
      with False show ?thesis by simp
    next
      case (Suc j')
      with Cons.IH [OF k(1)] Cons.prems(2) k(2) show ?thesis by simp
    qed
  qed
qed

lemma find_str_None: "find_str p s = None \<Longrightarrow> j \<le> length s \<Longrightarrow> \<not> starts_with (drop j s) p"
proof (induction s arbitrary: j)
  case Nil
  then show ?case by (simp split: if_splits)
next
  case (Cons x s)
  then show ?case by (cases j) (auto split: if_splits)
qed

text \<open>Skipping text that cannot start the substring.\<close>

lemma find_str_skip:
  assumes "\<forall>x \<in> set l. x \<noteq> c"
  shows "find_str (c # p) (l @ rest) = map_option (\<lambda>i. length l + i) (find_str (c # p) rest)"
  using assms by (induction l; cases "find_str (c # p) rest") auto

lemma find_str_eqI:
  assumes "starts_with (drop i s) p" and "i \<le> length s"
    and "\<And>j. j < i \<Longrightarrow> \<not> starts_with (drop j s) p"
  shows "find_str p s = Some i"
proof (cases "find_str p s")
  case None
  from find_str_None [OF this assms(2)] assms(1) show ?thesis by simp
next
  case (Some k)
  have "\<not> k < i" using assms(3) find_str_SomeD [OF Some] by blast
  moreover have "\<not> i < k" using assms(1) find_str_first [OF Some] by blast
  ultimately show ?thesis using Some by simp
qed

text \<open>A found substring stays found, at the same place, when more text follows.\<close>

lemma starts_with_append_iff:
  "length p \<le> length s \<Longrightarrow> starts_with (s @ t) p \<longleftrightarrow> starts_with s p"
  by (simp add: starts_with_def)

lemma find_str_append:
  assumes "find_str p s = Some i"
  shows "find_str p (s @ t) = Some i"
proof (rule find_str_eqI)
  from find_str_SomeD [OF assms] have len: "i + length p \<le> length s"
    and sw: "starts_with (drop i s) p" by auto
  from len sw show "starts_with (drop i (s @ t)) p"
    by (simp add: starts_with_append_iff)
  from len show "i \<le> length (s @ t)" by simp
  fix j assume "j < i"
  with len have "starts_with (drop j (s @ t)) p \<longleftrightarrow> starts_with (drop j s) p"
    by (simp add: starts_with_append_iff)
  with find_str_first [OF assms \<open>j < i\<close>] show "\<not> starts_with (drop j (s @ t)) p" by simp
qed

text \<open>A substring that was not there can only appear across or after the old end.\<close>

lemma find_str_late:
  assumes "find_str p s = None" and "find_str p (s @ t) = Some i"
  shows "length s < i + length p"
proof (rule ccontr)
  assume "\<not> length s < i + length p"
  then have len: "i + length p \<le> length s" by simp
  from find_str_SomeD [OF assms(2)] have "starts_with (drop i (s @ t)) p" by blast
  with len have "starts_with (drop i s) p" by (simp add: starts_with_append_iff)
  with find_str_None [OF assms(1), of i] len show False by simp
qed

lemma before_None [simp]: "before None s = s"
  and before_Some [simp]: "before (Some k) s = take k s"
  by (simp_all add: before_def)

lemma after_None [simp]: "after None s = []"
  and after_Some [simp]: "after (Some k) s = drop (Suc k) s"
  by (simp_all add: after_def)

lemma length_after_less: "s \<noteq> [] \<Longrightarrow> length (after i s) < length s"
  by (cases i) auto

lemma length_after_le: "length (after i s) \<le> length s"
  by (cases i) auto

section \<open>Printers and parsers\<close>

text \<open>
  The contract of a printer and the parser that reads it back: on every valid value the
  parser returns the value that was printed. It makes the printer injective, and gives the
  parser's result on a list of printed values. Decimal numbers, base64 and the RTP header
  are instances.
\<close>

locale round_trip =
  fixes print :: "'a \<Rightarrow> 't" and parse :: "'t \<Rightarrow> 'a option" and valid :: "'a \<Rightarrow> bool"
  assumes parse_print: "valid x \<Longrightarrow> parse (print x) = Some x"
begin

lemma print_inject: "valid x \<Longrightarrow> valid y \<Longrightarrow> print x = print y \<longleftrightarrow> x = y"
  by (metis parse_print option.inject)

lemma inj_on_print: "inj_on print (Collect valid)"
  by (rule inj_onI) (simp add: print_inject)

lemma map_parse_print: "list_all valid xs \<Longrightarrow> map parse (map print xs) = map Some xs"
  by (induction xs) (auto simp: parse_print)

end

section \<open>Words\<close>

lemma unat_less: "unat (w :: 'a :: len word) < 2 ^ LENGTH('a)"
  by (rule unsigned_less)

section \<open>Options\<close>

lemma bind_Some_conv: "Option.bind x f = Some y \<longleftrightarrow> (\<exists>z. x = Some z \<and> f z = Some y)"
  by (cases x) auto

end
