(* ===== verification/Sip_Text.thy ===== *)
theory Sip_Text
  imports Prelude
begin

text \<open>
  \<^verbatim>\<open>src/sip/text.hpp\<close>: trimming, case folding, line splitting and integer parsing, with
  the standard library's decimal printing (\<^verbatim>\<open>std::to_string\<close>) and reading
  (\<^verbatim>\<open>std::from_chars\<close>) as the code uses them. Character classes are those of the C
  locale, which the program never changes.

  The lemmas show that trimming removes exactly the white space at the ends, that splitting a
  text built from lines gives those lines back, and that every number printed is read back.
\<close>

section \<open>Characters\<close>

abbreviation code :: "char \<Rightarrow> nat" where "code \<equiv> of_char"

definition is_upper :: "char \<Rightarrow> bool" where
  "is_upper c \<longleftrightarrow> 65 \<le> code c \<and> code c \<le> 90"

definition is_digit :: "char \<Rightarrow> bool" where
  "is_digit c \<longleftrightarrow> 48 \<le> code c \<and> code c \<le> 57"

definition is_alnum :: "char \<Rightarrow> bool" where
  "is_alnum c \<longleftrightarrow> is_digit c \<or> is_upper c \<or> (97 \<le> code c \<and> code c \<le> 122)"

definition tolower :: "char \<Rightarrow> char" where
  "tolower c = (if is_upper c then char_of (code c + 32) else c)"

section \<open>Operations\<close>

definition is_lead :: "char \<Rightarrow> bool" where
  "is_lead c \<longleftrightarrow> c = CHR '' '' \<or> c = TAB"

definition is_trail :: "char \<Rightarrow> bool" where
  "is_trail c \<longleftrightarrow> c = CHR '' '' \<or> c = TAB \<or> c = CR"

definition trim :: "string \<Rightarrow> string" where
  "trim value = rev (dropWhile is_trail (rev (dropWhile is_lead value)))"

definition lowercase :: "string \<Rightarrow> string" where
  "lowercase value = map tolower value"

definition iequals :: "string \<Rightarrow> string \<Rightarrow> bool" where
  "iequals a b \<longleftrightarrow> length a = length b \<and> list_all (\<lambda>(x, y). tolower x = tolower y) (zip a b)"

definition strip_cr :: "string \<Rightarrow> string" where
  "strip_cr line = (if line \<noteq> [] \<and> last line = CR then butlast line else line)"

function split_lines :: "string \<Rightarrow> string list" where
  "split_lines text =
     (if text = [] then []
      else let end = find_char LF text
           in strip_cr (before end text) #
              (case end of None \<Rightarrow> [] | Some k \<Rightarrow> split_lines (drop (k + 1) text)))"
  by pat_completeness auto
termination
  by (relation "measure length") auto

declare split_lines.simps [simp del]

section \<open>Decimal numbers\<close>

definition digit_char :: "nat \<Rightarrow> char" where
  "digit_char n = char_of (48 + n)"

fun to_string :: "nat \<Rightarrow> string" where
  "to_string n =
     (if n < 10 then [digit_char n] else to_string (n div 10) @ [digit_char (n mod 10)])"

declare to_string.simps [simp del]

definition digits_value :: "string \<Rightarrow> nat" where
  "digits_value s = foldl (\<lambda>n c. 10 * n + (code c - 48)) 0 s"

text \<open>
  \<^verbatim>\<open>std::from_chars\<close> into an unsigned integer of \<^term>\<open>w\<close> bits, when all the text must be
  used up: at least one digit and nothing but digits (no sign, no white space), and a value
  that fits.
\<close>

definition from_chars :: "nat \<Rightarrow> string \<Rightarrow> nat option" where
  "from_chars w s =
     (if s \<noteq> [] \<and> list_all is_digit s \<and> digits_value s < 2 ^ w then Some (digits_value s) else None)"

text \<open>Into a signed \<^verbatim>\<open>int\<close> of 32 bits a leading minus is accepted.\<close>

definition from_chars_int :: "string \<Rightarrow> int option" where
  "from_chars_int s =
     (case s of
        [] \<Rightarrow> None
      | c # ds \<Rightarrow>
          if c = CHR ''-'' then
            (if ds \<noteq> [] \<and> list_all is_digit ds \<and> digits_value ds \<le> 2 ^ 31
             then Some (- int (digits_value ds)) else None)
          else map_option int (from_chars 31 s))"

definition parse_integer :: "nat \<Rightarrow> string \<Rightarrow> nat option" where
  "parse_integer w text = from_chars w (trim text)"

definition parse_integer_int :: "string \<Rightarrow> int option" where
  "parse_integer_int text = from_chars_int (trim text)"

section \<open>Trimming\<close>

text \<open>A trimmed text neither starts with a blank nor ends with a blank or a carriage return.\<close>

definition trimmed :: "string \<Rightarrow> bool" where
  "trimmed s \<longleftrightarrow> s = [] \<or> \<not> is_lead (hd s) \<and> \<not> is_trail (last s)"

lemma is_lead_trail: "is_lead c \<Longrightarrow> is_trail c"
  by (auto simp: is_lead_def is_trail_def)

lemma trim_Nil [simp]: "trim [] = []"
  by (simp add: trim_def)

lemma trim_id: "trimmed s \<Longrightarrow> trim s = s"
  by (cases s rule: rev_cases) (auto simp: trimmed_def trim_def dropWhile_append neq_Nil_conv
      Cons_eq_append_conv hd_append split: if_splits)

lemma trimmed_trim [simp]: "trimmed (trim s)"
proof -
  let ?t = "dropWhile is_lead s"
  have "?t = [] \<or> \<not> is_lead (hd ?t)"
    by (metis hd_dropWhile)
  moreover have "prefix (trim s) ?t"
    by (simp add: trim_def prefix_def) (metis rev_append rev_rev_ident takeWhile_dropWhile_id)
  ultimately have "trim s = [] \<or> \<not> is_lead (hd (trim s))"
    by (metis hd_append2 prefixE prefix_Nil)
  moreover have "trim s = [] \<or> \<not> is_trail (last (trim s))"
    by (metis hd_dropWhile hd_rev last_rev rev.simps(1) rev_rev_ident trim_def)
  ultimately show ?thesis unfolding trimmed_def by blast
qed

lemma trim_trim [simp]: "trim (trim s) = trim s"
  by (simp add: trim_id)

lemma trim_eq_iff: "trim s = s \<longleftrightarrow> trimmed s"
  by (metis trim_id trimmed_trim)

lemma trim_lead [simp]: "is_lead c \<Longrightarrow> trim (c # s) = trim s"
  by (simp add: trim_def)

lemma is_lead_space [simp]: "is_lead (CHR '' '')"
  by (simp add: is_lead_def)

lemma set_trim: "set (trim s) \<subseteq> set s"
  by (auto simp: trim_def dest!: set_dropWhileD)

lemma in_set_trimD: "x \<in> set (trim s) \<Longrightarrow> x \<in> set s"
  using set_trim by blast

lemma length_trim: "length (trim s) \<le> length s"
  by (simp add: trim_def) (metis length_dropWhile_le length_rev order_trans)

lemma trimmedI_no_blank: "\<forall>c \<in> set s. \<not> is_trail c \<Longrightarrow> trimmed s"
  by (auto simp: trimmed_def dest: is_lead_trail)

section \<open>Lines\<close>

definition join_lines :: "string list \<Rightarrow> string" where
  "join_lines ls = concat (map (\<lambda>l. l @ CRLF) ls)"

definition plain_line :: "string \<Rightarrow> bool" where
  "plain_line l \<longleftrightarrow> CR \<notin> set l \<and> LF \<notin> set l"

lemma join_lines_simps [simp]:
  "join_lines [] = []"
  "join_lines (l # ls) = l @ CRLF @ join_lines ls"
  "join_lines (ls @ ms) = join_lines ls @ join_lines ms"
  by (simp_all add: join_lines_def)

lemma split_lines_Nil [simp]: "split_lines [] = []"
  by (simp add: split_lines.simps)

lemma split_lines_CRLF:
  assumes "LF \<notin> set l"
  shows "split_lines (l @ CRLF @ rest) = l # split_lines rest"
proof -
  have "find_char LF ((l @ [CR]) @ LF # rest) = Some (length (l @ [CR]))"
    by (rule find_idx_split) (use assms in auto)
  then show ?thesis
    by (subst split_lines.simps) (simp add: strip_cr_def)
qed

lemma split_lines_single:
  assumes "plain_line l" and "l \<noteq> []"
  shows "split_lines l = [l]"
proof -
  from assms have "find_char LF l = None"
    by (auto simp: find_idx_None_iff plain_line_def)
  moreover from assms have "last l \<noteq> CR"
    by (auto simp: plain_line_def dest: last_in_set)
  ultimately show ?thesis using assms(2)
    by (subst split_lines.simps) (simp add: strip_cr_def)
qed

lemma split_lines_join_append:
  "list_all plain_line ls \<Longrightarrow> split_lines (join_lines ls @ rest) = ls @ split_lines rest"
proof (induction ls)
  case Nil
  then show ?case by simp
next
  case (Cons l ls)
  then have "split_lines (l @ CRLF @ (join_lines ls @ rest)) = l # split_lines (join_lines ls @ rest)"
    by (intro split_lines_CRLF) (simp add: plain_line_def)
  with Cons show ?case by simp
qed

lemma split_lines_join: "list_all plain_line ls \<Longrightarrow> split_lines (join_lines ls) = ls"
  using split_lines_join_append [of ls "[]"] by simp

section \<open>Decimal numbers: printing and reading\<close>

lemma is_digit_digit_char: "n < 10 \<Longrightarrow> is_digit (digit_char n)"
  by (simp add: is_digit_def digit_char_def of_char_of)

lemma code_digit_char: "n < 10 \<Longrightarrow> code (digit_char n) - 48 = n"
  by (simp add: digit_char_def of_char_of)

lemma to_string_nonempty [simp]: "to_string n \<noteq> []"
  by (subst to_string.simps) simp

lemma to_string_digits: "list_all is_digit (to_string n)"
proof (induction n rule: to_string.induct)
  case (1 n)
  then show ?case
    by (subst to_string.simps) (auto simp: is_digit_digit_char)
qed

lemma digits_value_snoc: "digits_value (s @ [c]) = 10 * digits_value s + (code c - 48)"
  by (simp add: digits_value_def)

lemma digits_value_to_string [simp]: "digits_value (to_string n) = n"
proof (induction n rule: to_string.induct)
  case (1 n)
  show ?case
  proof (cases "n < 10")
    case True
    then show ?thesis by (subst to_string.simps) (simp add: digits_value_def code_digit_char)
  next
    case False
    with 1 show ?thesis
      by (subst to_string.simps) (simp add: digits_value_snoc code_digit_char)
  qed
qed

lemma is_digit_not_trail: "is_digit c \<Longrightarrow> \<not> is_trail c"
  by (auto simp: is_digit_def is_trail_def)

lemma trimmed_to_string [simp]: "trimmed (to_string n)"
  using to_string_digits [of n]
  by (intro trimmedI_no_blank) (auto simp: list_all_iff is_digit_not_trail)

lemma from_chars_to_string: "n < 2 ^ w \<Longrightarrow> from_chars w (to_string n) = Some n"
  by (simp add: from_chars_def to_string_digits)

lemma parse_integer_to_string: "n < 2 ^ w \<Longrightarrow> parse_integer w (to_string n) = Some n"
  by (simp add: parse_integer_def trim_id from_chars_to_string)

lemma parse_integer_bound: "parse_integer w s = Some n \<Longrightarrow> n < 2 ^ w"
  by (auto simp: parse_integer_def from_chars_def split: if_splits)

lemma parse_integer_trim [simp]: "parse_integer w (trim s) = parse_integer w s"
  by (simp add: parse_integer_def)

lemma to_string_not_in: "\<not> is_digit c \<Longrightarrow> c \<notin> set (to_string n)"
  using to_string_digits [of n] by (auto simp: list_all_iff)

interpretation decimal: round_trip to_string "parse_integer w" "\<lambda>n. n < 2 ^ w" for w
  by unfold_locales (rule parse_integer_to_string)

section \<open>Case folding\<close>

lemma iequals_iff: "iequals a b \<longleftrightarrow> lowercase a = lowercase b"
  by (auto simp: iequals_def lowercase_def list_all_length list_eq_iff_nth_eq)

lemma iequals_refl [simp]: "iequals a a"
  by (simp add: iequals_iff)

lemma length_lowercase [simp]: "length (lowercase s) = length s"
  by (simp add: lowercase_def)

lemma tolower_tolower [simp]: "tolower (tolower c) = tolower c"
  by (auto simp: tolower_def is_upper_def of_char_of)

lemma lowercase_lowercase [simp]: "lowercase (lowercase s) = lowercase s"
  by (simp add: lowercase_def)

end
