(* ===== verification/Sip_Message.thy ===== *)
theory Sip_Message
  imports Sip_Text
begin

text \<open>
  \<^verbatim>\<open>src/sip/message.hpp\<close> and \<^verbatim>\<open>message.cpp\<close>: the parsed SIP message, the parser of a
  datagram, the readers of the header fields the user agent looks into (CSeq, name-addr,
  parameters), and the builder of outgoing messages.

  The main result is the round trip: what the builder builds, the parser reads back, field by
  field. The other lemmas bound what the parser can return, whatever the datagram.
\<close>

section \<open>Messages\<close>

record message =
  is_response :: bool
  m_status :: int
  m_reason :: string
  m_method :: string
  m_uri :: string
  m_headers :: "(string \<times> string) list"
  m_body :: string

definition empty_message :: message where
  "empty_message = \<lparr>is_response = False, m_status = 0, m_reason = [], m_method = [], m_uri = [],
     m_headers = [], m_body = []\<rparr>"

definition full_header_name :: "string \<Rightarrow> string" where
  "full_header_name raw =
     (let name = lowercase (trim raw)
      in if length name \<noteq> 1 then name
         else if name = ''v'' then ''via''
         else if name = ''f'' then ''from''
         else if name = ''t'' then ''to''
         else if name = ''i'' then ''call-id''
         else if name = ''m'' then ''contact''
         else if name = ''l'' then ''content-length''
         else if name = ''c'' then ''content-type''
         else if name = ''k'' then ''supported''
         else if name = ''s'' then ''subject''
         else if name = ''e'' then ''content-encoding''
         else name)"

definition is_token :: "string \<Rightarrow> bool" where
  "is_token value \<longleftrightarrow>
     value \<noteq> [] \<and> list_all (\<lambda>c. is_alnum c \<or> c \<in> set (''-.!%*_+`'' @ [CHR 0x27] @ ''~'')) value"

definition header :: "message \<Rightarrow> string \<Rightarrow> string option" where
  "header m name = map_of (m_headers m) name"

definition header_all :: "message \<Rightarrow> string \<Rightarrow> string list" where
  "header_all m name = map snd (filter (\<lambda>(key, value). key = name) (m_headers m))"

text \<open>\<^verbatim>\<open>message.header(name).value_or("")\<close>.\<close>

definition header_or_empty :: "message \<Rightarrow> string \<Rightarrow> string" where
  "header_or_empty m name = (case header m name of None \<Rightarrow> [] | Some value \<Rightarrow> value)"

section \<open>Parsing a datagram\<close>

text \<open>The start line of a response, \<^verbatim>\<open>SIP/2.0 200 OK\<close>.\<close>

definition parse_status_line :: "string \<Rightarrow> message option" where
  "parse_status_line start =
     (if length start < 11 then None
      else case parse_integer_int (take 3 (drop 8 start)) of
             None \<Rightarrow> None
           | Some s \<Rightarrow>
               if s < 100 \<or> 699 < s then None
               else Some (empty_message\<lparr>is_response := True, m_status := s,
                            m_reason := trim (drop 11 start)\<rparr>))"

text \<open>The start line of a request, \<^verbatim>\<open>INVITE sip:1002@host SIP/2.0\<close>.\<close>

definition parse_request_line :: "string \<Rightarrow> message option" where
  "parse_request_line start =
     (case (find_char (CHR '' '') start, rfind_char (CHR '' '') start) of
        (Some first, Some last') \<Rightarrow>
          if last' = first \<or> drop (last' + 1) start \<noteq> ''SIP/2.0'' then None
          else let mt = take first start;
                   u = trim (take (last' - first - 1) (drop (first + 1) start))
               in if \<not> is_token mt \<or> u = [] then None
                  else Some (empty_message\<lparr>m_method := mt, m_uri := u\<rparr>)
      | _ \<Rightarrow> None)"

definition parse_start_line :: "string \<Rightarrow> message option" where
  "parse_start_line start =
     (if starts_with start ''SIP/2.0 '' then parse_status_line start else parse_request_line start)"

text \<open>The header lines; a line that starts with a blank continues the value before it.\<close>

fun parse_headers :: "string list \<Rightarrow> (string \<times> string) list \<Rightarrow> (string \<times> string) list option" where
  "parse_headers [] acc = Some acc"
| "parse_headers (line # lines) acc =
     (if line = [] then parse_headers lines acc
      else if is_lead (hd line) \<and> acc \<noteq> [] then
        parse_headers lines
          (butlast acc @ [(fst (last acc), snd (last acc) @ '' '' @ trim line)])
      else case find_char (CHR '':'') line of
             None \<Rightarrow> None
           | Some colon \<Rightarrow>
               if colon = 0 then None
               else parse_headers lines
                      (acc @ [(full_header_name (take colon line), trim (drop (colon + 1) line))]))"

text \<open>Where the head of a datagram ends and its body begins.\<close>

definition split_head :: "string \<Rightarrow> string \<times> string" where
  "split_head datagram =
     (case find_str (CRLF @ CRLF) datagram of
        Some k \<Rightarrow> (take k datagram, drop (k + 4) datagram)
      | None \<Rightarrow>
          (case find_str [LF, LF] datagram of
             Some k \<Rightarrow> (take k datagram, drop (k + 2) datagram)
           | None \<Rightarrow> (datagram, [])))"

definition finish_body :: "message \<Rightarrow> string \<Rightarrow> message option" where
  "finish_body m rest =
     (case header m ''content-length'' of
        None \<Rightarrow> Some (m\<lparr>m_body := rest\<rparr>)
      | Some len \<Rightarrow>
          (case parse_integer 64 len of
             None \<Rightarrow> None
           | Some n \<Rightarrow>
               if length rest < n then None else Some (m\<lparr>m_body := take n rest\<rparr>)))"

definition parse_message :: "string \<Rightarrow> message option" where
  "parse_message datagram =
     (let (head, rest) = split_head datagram
      in case split_lines head of
           [] \<Rightarrow> None
         | start # lines \<Rightarrow>
             (case parse_start_line start of
                None \<Rightarrow> None
              | Some m \<Rightarrow>
                  (case parse_headers lines [] of
                     None \<Rightarrow> None
                   | Some hs \<Rightarrow> finish_body (m\<lparr>m_headers := hs\<rparr>) rest)))"

section \<open>Reading header values\<close>

record cseq =
  cseq_number :: nat
  cseq_method :: string

definition parse_cseq :: "string \<Rightarrow> cseq option" where
  "parse_cseq value0 =
     (let value = trim value0
      in case find_first_of [CHR '' '', TAB] value of
           None \<Rightarrow> None
         | Some space \<Rightarrow>
             (let mt = trim (drop space value)
              in case parse_integer 32 (take space value) of
                   None \<Rightarrow> None
                 | Some number \<Rightarrow>
                     if mt = [] then None else Some \<lparr>cseq_number = number, cseq_method = mt\<rparr>))"

definition uri_of :: "string \<Rightarrow> string" where
  "uri_of name_addr =
     (let spec = trim (before (find_char (CHR '';'') name_addr) name_addr)
      in case find_char (CHR ''<'') name_addr of
           None \<Rightarrow> spec
         | Some open' \<Rightarrow>
             (case find_char (CHR ''>'') (drop open' name_addr) of
                None \<Rightarrow> spec
              | Some n \<Rightarrow> trim (take (n - 1) (drop (open' + 1) name_addr))))"

text \<open>The text of a quoted string, with a backslash quoting the character after it.\<close>

fun unescape :: "string \<Rightarrow> string" where
  "unescape [] = []"
| "unescape [c] = [c]"
| "unescape (c # d # cs) = (if c = CHR 0x5C then d # unescape cs else c # unescape (d # cs))"

definition quoted :: "string \<Rightarrow> bool" where
  "quoted s \<longleftrightarrow> 2 \<le> length s \<and> hd s = QUOTE \<and> last s = QUOTE"

definition display_name_of :: "string \<Rightarrow> string" where
  "display_name_of name_addr =
     (case find_char (CHR ''<'') name_addr of
        None \<Rightarrow> []
      | Some open' \<Rightarrow>
          (let name = trim (take open' name_addr)
           in if quoted name then unescape (butlast (tl name)) else name))"

function param_loop :: "string \<Rightarrow> string \<Rightarrow> string option" where
  "param_loop value name =
     (case find_char (CHR '';'') value of
        None \<Rightarrow> None
      | Some k \<Rightarrow>
          (let rest = drop (k + 1) value;
               param = before (find_first_of '';,'' rest) rest;
               equals = find_char (CHR ''='') param;
               key = trim (before equals param)
           in if iequals key name then
                (case equals of
                   None \<Rightarrow> Some []
                 | Some e \<Rightarrow>
                     (let raw = trim (drop (e + 1) param)
                      in Some (if quoted raw then butlast (tl raw) else raw)))
              else param_loop rest name))"
  by pat_completeness auto
termination
  by (relation "measure (\<lambda>(value, name). length value)") (auto dest: find_idx_less)

declare param_loop.simps [simp del]

definition param_of :: "string \<Rightarrow> string \<Rightarrow> string option" where
  "param_of value name =
     param_loop (case find_char (CHR ''>'') value of None \<Rightarrow> value | Some close \<Rightarrow> drop (close + 1) value)
       name"

definition user_of :: "string \<Rightarrow> string" where
  "user_of uri0 =
     (let uri = (case find_char (CHR '':'') uri0 of None \<Rightarrow> uri0 | Some colon \<Rightarrow> drop (colon + 1) uri0)
      in case find_char (CHR ''@'') uri of None \<Rightarrow> [] | Some at \<Rightarrow> take at uri)"

section \<open>Building a message\<close>

record builder =
  start_line :: string
  b_headers :: "(string \<times> string) list"
  content_type :: string
  b_body :: string

definition new_builder :: "string \<Rightarrow> builder" where
  "new_builder start = \<lparr>start_line = start, b_headers = [], content_type = [], b_body = []\<rparr>"

definition add :: "string \<Rightarrow> string \<Rightarrow> builder \<Rightarrow> builder" where
  "add name value b = b\<lparr>b_headers := b_headers b @ [(name, value)]\<rparr>"

definition set_body :: "string \<Rightarrow> string \<Rightarrow> builder \<Rightarrow> builder" where
  "set_body ct body b = b\<lparr>content_type := ct, b_body := body\<rparr>"

definition build :: "builder \<Rightarrow> string" where
  "build b =
     start_line b @ CRLF @
     concat (map (\<lambda>(name, value). name @ '': '' @ value @ CRLF) (b_headers b)) @
     (if b_body b \<noteq> [] then ''Content-Type: '' @ content_type b @ CRLF else []) @
     ''Content-Length: '' @ to_string (length (b_body b)) @ CRLF @ CRLF @
     b_body b"

definition reason_phrase :: "int \<Rightarrow> string" where
  "reason_phrase status =
     (if status = 100 then ''Trying''
      else if status = 180 then ''Ringing''
      else if status = 183 then ''Session Progress''
      else if status = 200 then ''OK''
      else if status = 400 then ''Bad Request''
      else if status = 408 then ''Request Timeout''
      else if status = 480 then ''Temporarily Unavailable''
      else if status = 481 then ''Call/Transaction Does Not Exist''
      else if status = 486 then ''Busy Here''
      else if status = 487 then ''Request Terminated''
      else if status = 488 then ''Not Acceptable Here''
      else if status = 500 then ''Server Internal Error''
      else if status = 501 then ''Not Implemented''
      else if status = 603 then ''Decline''
      else if status < 300 then ''OK'' else ''Error'')"

section \<open>What the parser can return\<close>

lemma parse_status_line_range:
  "parse_status_line s = Some m \<Longrightarrow> is_response m \<and> 100 \<le> m_status m \<and> m_status m \<le> 699"
  by (auto simp: parse_status_line_def split: if_splits option.splits)

lemma parse_request_line_fields:
  "parse_request_line s = Some m \<Longrightarrow> \<not> is_response m \<and> is_token (m_method m) \<and> m_uri m \<noteq> []"
  by (auto simp: parse_request_line_def Let_def empty_message_def split: if_splits option.splits)

lemma finish_body_fields:
  "finish_body m rest = Some m' \<Longrightarrow>
     is_response m' = is_response m \<and> m_status m' = m_status m \<and> m_method m' = m_method m \<and>
     m_uri m' = m_uri m \<and> m_headers m' = m_headers m \<and> m_reason m' = m_reason m"
  by (auto simp: finish_body_def split: if_splits option.splits)

lemma finish_body_length:
  "finish_body m rest = Some m' \<Longrightarrow> header m ''content-length'' = Some len \<Longrightarrow>
     parse_integer 64 len = Some (length (m_body m'))"
  by (auto simp: finish_body_def split: if_splits option.splits)

lemma parse_message_obtain:
  assumes "parse_message d = Some m"
  obtains start lines m0 hs where
    "split_lines (fst (split_head d)) = start # lines"
    "parse_start_line start = Some m0" "parse_headers lines [] = Some hs"
    "finish_body (m0\<lparr>m_headers := hs\<rparr>) (snd (split_head d)) = Some m"
  using assms by (auto simp: parse_message_def split: prod.splits list.splits option.splits)

section \<open>Building and parsing back\<close>

definition header_line :: "string \<times> string \<Rightarrow> string" where
  "header_line h = fst h @ '': '' @ snd h"

text \<open>The headers a built message carries, in order.\<close>

definition built_headers :: "builder \<Rightarrow> (string \<times> string) list" where
  "built_headers b =
     b_headers b @
     (if b_body b \<noteq> [] then [(''Content-Type'', content_type b)] else []) @
     [(''Content-Length'', to_string (length (b_body b)))]"

text \<open>A header that survives the wire: one line, with a name the parser cuts off at the colon.\<close>

definition valid_header :: "string \<times> string \<Rightarrow> bool" where
  "valid_header h \<longleftrightarrow>
     fst h \<noteq> [] \<and> CHR '':'' \<notin> set (fst h) \<and> \<not> is_lead (hd (fst h)) \<and>
     plain_line (fst h) \<and> plain_line (snd h) \<and> trimmed (snd h)"

definition valid_builder :: "builder \<Rightarrow> bool" where
  "valid_builder b \<longleftrightarrow>
     start_line b \<noteq> [] \<and> plain_line (start_line b) \<and>
     list_all valid_header (b_headers b) \<and>
     (b_body b \<noteq> [] \<longrightarrow> plain_line (content_type b) \<and> trimmed (content_type b)) \<and>
     list_all (\<lambda>h. full_header_name (fst h) \<noteq> ''content-length'') (b_headers b) \<and>
     length (b_body b) < 2 ^ 64"

lemma plain_line_append [simp]: "plain_line (a @ b) \<longleftrightarrow> plain_line a \<and> plain_line b"
  and plain_line_Cons [simp]: "plain_line (c # b) \<longleftrightarrow> c \<noteq> CR \<and> c \<noteq> LF \<and> plain_line b"
  and plain_line_Nil [simp]: "plain_line []"
  by (auto simp: plain_line_def)

lemma plain_line_to_string [simp]: "plain_line (to_string n)"
  by (simp add: plain_line_def to_string_not_in is_digit_def)

lemma build_lines:
  "build b = join_lines (start_line b # map header_line (built_headers b)) @ CRLF @ b_body b"
  by (simp add: build_def built_headers_def header_line_def join_lines_def comp_def case_prod_unfold)

definition head_of :: "string list \<Rightarrow> string" where
  "head_of ls = join_lines (butlast ls) @ last ls"

lemma join_lines_head: "ls \<noteq> [] \<Longrightarrow> join_lines ls = head_of ls @ CRLF"
  by (cases ls rule: rev_cases) (simp_all add: head_of_def)

lemma find_head_end:
  assumes "ls \<noteq> []" and "list_all (\<lambda>l. l \<noteq> [] \<and> plain_line l) ls"
  shows "find_str (CRLF @ CRLF) (head_of ls @ CRLF @ CRLF @ rest) = Some (length (head_of ls))"
  using assms
proof (induction ls)
  case Nil
  then show ?case by simp
next
  case (Cons l ls)
  from Cons.prems have l: "\<forall>x \<in> set l. x \<noteq> CR" by (auto simp: plain_line_def)
  show ?case
  proof (cases "ls = []")
    case True
    with find_str_skip [OF l, of "[LF, CR, LF]" "CRLF @ CRLF @ rest"] show ?thesis
      by (simp add: head_of_def)
  next
    case False
    let ?h = "head_of ls @ CRLF @ CRLF @ rest"
    from False Cons.prems have ne: "hd ls \<noteq> []" and hd: "hd (hd ls) \<noteq> CR"
      by (auto simp: neq_Nil_conv)
    with False have "head_of ls \<noteq> []" and "hd (head_of ls) = hd (hd ls)"
      by (cases ls; simp add: head_of_def)+
    with hd obtain c t where ct: "head_of ls = c # t" "c \<noteq> CR"
      by (cases "head_of ls") auto
    from False have "head_of (l # ls) = l @ CRLF @ head_of ls" by (simp add: head_of_def)
    moreover have "find_str (CRLF @ CRLF) (l @ CRLF @ ?h) = Some (length l + (2 + length (head_of ls)))"
      using find_str_skip [OF l, of "[LF, CR, LF]" "CRLF @ ?h"] Cons.IH False Cons.prems ct by simp
    ultimately show ?thesis by simp
  qed
qed

lemma split_lines_head_of:
  assumes "ls \<noteq> []" and "list_all (\<lambda>l. l \<noteq> [] \<and> plain_line l) ls"
  shows "split_lines (head_of ls) = ls"
proof -
  obtain ms l where ls: "ls = ms @ [l]" using assms(1) by (cases ls rule: rev_cases) auto
  with assms(2) have "split_lines (join_lines ms @ l) = ms @ split_lines l"
    by (intro split_lines_join_append) (auto simp: list_all_iff)
  with assms(2) ls show ?thesis by (simp add: head_of_def split_lines_single)
qed

lemma parse_headers_lines:
  "list_all valid_header hs \<Longrightarrow>
   parse_headers (map header_line hs) acc = Some (acc @ map (\<lambda>(n, v). (full_header_name n, v)) hs)"
proof (induction hs arbitrary: acc)
  case Nil
  then show ?case by simp
next
  case (Cons h hs)
  obtain n v where h: "h = (n, v)" by (cases h)
  with Cons.prems have n: "n \<noteq> []" "CHR '':'' \<notin> set n" "\<not> is_lead (hd n)" and v: "trimmed v"
    by (auto simp: valid_header_def)
  have "find_char (CHR '':'') (n @ CHR '':'' # '' '' @ v) = Some (length n)"
    by (rule find_idx_split) (use n in auto)
  with n v h Cons show ?case by (simp add: header_line_def trim_id)
qed

lemma valid_header_line: "valid_header h \<Longrightarrow> header_line h \<noteq> [] \<and> plain_line (header_line h)"
  by (simp add: valid_header_def header_line_def)

lemma valid_built_headers: "valid_builder b \<Longrightarrow> list_all valid_header (built_headers b)"
  by (auto simp: valid_builder_def built_headers_def valid_header_def is_lead_def)

lemma content_length_name: "full_header_name ''Content-Length'' = ''content-length''"
  and content_type_name: "full_header_name ''Content-Type'' = ''content-type''"
  by code_simp+

lemma map_of_full_names:
  assumes "list_all (\<lambda>h. full_header_name (fst h) \<noteq> k) hs"
  shows "map_of (map (\<lambda>(n, v). (full_header_name n, v)) hs) k = None"
  using assms by (induction hs) auto

lemma built_lines_plain:
  assumes valid: "valid_builder b"
  shows "list_all (\<lambda>l. l \<noteq> [] \<and> plain_line l) (start_line b # map header_line (built_headers b))"
  using valid valid_built_headers [OF valid] valid_header_line
  by (auto simp: valid_builder_def list_all_iff)

text \<open>The round trip, for any builder and whatever its start line parses to.\<close>

lemma parse_message_build:
  assumes valid: "valid_builder b" and start: "parse_start_line (start_line b) = Some m"
  shows "parse_message (build b) =
    Some (m\<lparr>m_headers := map (\<lambda>(n, v). (full_header_name n, v)) (built_headers b), m_body := b_body b\<rparr>)"
proof -
  let ?ls = "start_line b # map header_line (built_headers b)"
  let ?hs = "map (\<lambda>(n, v). (full_header_name n, v)) (built_headers b)"
  have ls: "list_all (\<lambda>l. l \<noteq> [] \<and> plain_line l) ?ls"
    by (rule built_lines_plain [OF valid])
  have "build b = head_of ?ls @ CRLF @ CRLF @ b_body b"
    using join_lines_head [of ?ls] by (simp add: build_lines)
  moreover have "find_str (CRLF @ CRLF) (head_of ?ls @ CRLF @ CRLF @ b_body b) = Some (length (head_of ?ls))"
    by (rule find_head_end) (use ls in auto)
  ultimately have split: "split_head (build b) = (head_of ?ls, b_body b)"
    by (simp add: split_head_def)
  have lines: "split_lines (head_of ?ls) = ?ls"
    by (rule split_lines_head_of) (use ls in auto)
  have "map_of ?hs ''content-length'' = Some (to_string (length (b_body b)))"
    using valid
    by (simp add: built_headers_def valid_builder_def map_of_full_names map_add_def
        content_length_name content_type_name)
  then have "finish_body (m\<lparr>m_headers := ?hs\<rparr>) (b_body b) = Some (m\<lparr>m_headers := ?hs, m_body := b_body b\<rparr>)"
    using valid
    by (simp add: finish_body_def header_def parse_integer_to_string valid_builder_def)
  then show ?thesis
    using split lines start parse_headers_lines [OF valid_built_headers [OF valid], of "[]"]
    by (simp add: parse_message_def)
qed

section \<open>Start lines\<close>

lemma is_token_no_special: "is_token s \<Longrightarrow> c \<in> set '' /:<>@;,='' \<Longrightarrow> c \<notin> set s"
  by (auto simp: is_token_def list_all_iff is_alnum_def is_digit_def is_upper_def)

lemma is_token_not_status:
  assumes "is_token mt"
  shows "\<not> starts_with (mt @ '' '' @ rest) ''SIP/2.0 ''"
proof
  assume sw: "starts_with (mt @ '' '' @ rest) ''SIP/2.0 ''"
  from assms have no: "CHR ''/'' \<notin> set mt" by (simp add: is_token_no_special)
  show False
  proof (cases mt)
    case Nil
    with sw show False by simp
  next
    case (Cons a mt1)
    with sw no show False
      by (cases mt1; cases "tl mt1"; cases "tl (tl mt1)") auto
  qed
qed

lemma parse_request_start:
  assumes "is_token mt" and "trimmed u" and "u \<noteq> []"
  shows "parse_start_line (mt @ '' '' @ u @ '' SIP/2.0'') =
    Some (empty_message\<lparr>m_method := mt, m_uri := u\<rparr>)"
proof -
  let ?s = "mt @ '' '' @ u @ '' SIP/2.0''"
  have "find_char (CHR '' '') (mt @ CHR '' '' # (u @ '' SIP/2.0'')) = Some (length mt)"
    by (rule find_idx_split) (use assms(1) is_token_no_special in auto)
  then have first: "find_char (CHR '' '') ?s = Some (length mt)" by simp
  have "rfind_char (CHR '' '') ((mt @ '' '' @ u) @ CHR '' '' # ''SIP/2.0'') = Some (length (mt @ '' '' @ u))"
    by (rule rfind_char_split) simp
  then have last: "rfind_char (CHR '' '') ?s = Some (length mt + 1 + length u)" by simp
  show ?thesis
    using first last assms is_token_not_status [OF assms(1), of "u @ '' SIP/2.0''"]
    by (simp add: parse_start_line_def parse_request_line_def Let_def trim_id)
qed

lemma length_to_string_3: "100 \<le> n \<Longrightarrow> n < 1000 \<Longrightarrow> length (to_string n) = 3"
  by (subst to_string.simps, subst to_string.simps, subst to_string.simps) auto

lemma parse_integer_int_to_string:
  assumes "n < 2 ^ 31"
  shows "parse_integer_int (to_string n) = Some (int n)"
proof -
  obtain c ds where cds: "to_string n = c # ds" by (cases "to_string n") auto
  have "c \<noteq> CHR ''-''"
    using to_string_digits [of n] cds by (auto simp: is_digit_def)
  moreover have "trim (c # ds) = c # ds"
    using trimmed_to_string [of n] cds by (simp add: trim_id)
  ultimately show ?thesis
    using cds from_chars_to_string [OF assms]
    by (simp add: parse_integer_int_def from_chars_int_def)
qed

lemma parse_response_start:
  assumes "100 \<le> st" and "st \<le> 699" and "trimmed reason"
  shows "parse_start_line (''SIP/2.0 '' @ to_string st @ '' '' @ reason) =
    Some (empty_message\<lparr>is_response := True, m_status := int st, m_reason := reason\<rparr>)"
proof -
  let ?s = "''SIP/2.0 '' @ to_string st @ '' '' @ reason"
  have len: "length (to_string st) = 3" using assms by (simp add: length_to_string_3)
  then have "take 3 (drop 8 ?s) = to_string st" and "trim (drop 11 ?s) = reason"
    using assms(3) by (simp_all add: trim_id)
  moreover have "parse_integer_int (to_string st) = Some (int st)"
    using assms by (intro parse_integer_int_to_string) simp
  ultimately show ?thesis
    using assms len by (simp add: parse_start_line_def parse_status_line_def)
qed

section \<open>Parameters\<close>

text \<open>The last parameter of a header, when no earlier parameter has its name.\<close>

lemma param_loop_single:
  assumes "CHR '';'' \<notin> set pre" and "name \<noteq> []" and "trimmed name"
    and "\<forall>c \<in> set name. c \<notin> set '';,=''" and "\<forall>c \<in> set v. c \<notin> set '';,''"
    and "trimmed v" and "\<not> quoted v"
  shows "param_loop (pre @ '';'' @ name @ ''='' @ v) name = Some v"
proof -
  have semi: "find_char (CHR '';'') (pre @ '';'' @ name @ ''='' @ v) = Some (length pre)"
    using find_idx_split [of pre "\<lambda>x. x = CHR '';''" "CHR '';''" "name @ ''='' @ v"] assms(1)
    by auto
  have none: "find_first_of '';,'' (name @ ''='' @ v) = None"
    using assms(4,5) by (auto simp: find_idx_None_iff)
  have eq: "find_char (CHR ''='') (name @ ''='' @ v) = Some (length name)"
    using find_idx_split [of name "\<lambda>x. x = CHR ''=''" "CHR ''=''" v] assms(4) by auto
  show ?thesis
    using semi none eq assms by (subst param_loop.simps) (simp add: trim_id)
qed

section \<open>Properties\<close>

text \<open>
  C21: a request the builder prints is read back by the parser with the same method, request
  URI and body, and with every header in its place under its full lowercase name.
\<close>

theorem parse_built_request:
  assumes "valid_builder b" and "start_line b = mt @ '' '' @ u @ '' SIP/2.0''"
    and "is_token mt" and "trimmed u" and "u \<noteq> []"
  shows "parse_message (build b) =
    Some \<lparr>is_response = False, m_status = 0, m_reason = [], m_method = mt, m_uri = u,
          m_headers = map (\<lambda>(n, v). (full_header_name n, v)) (built_headers b), m_body = b_body b\<rparr>"
  using parse_message_build [OF assms(1)] parse_request_start [OF assms(3-5)] assms(2)
  by (simp add: empty_message_def)

text \<open>A witness: an OPTIONS request with two headers and a body.\<close>

definition sample_request :: builder where
  "sample_request = set_body ''application/sdp'' ''v=0'' (add ''CSeq'' ''1 OPTIONS''
     (add ''Via'' ''SIP/2.0/UDP h;branch=b'' (new_builder ''OPTIONS sip:h SIP/2.0'')))"

theorem parse_built_request_witness:
  "parse_message (build sample_request) =
    Some \<lparr>is_response = False, m_status = 0, m_reason = [], m_method = ''OPTIONS'', m_uri = ''sip:h'',
          m_headers = map (\<lambda>(n, v). (full_header_name n, v)) (built_headers sample_request), m_body = ''v=0''\<rparr>"
proof -
  have "valid_builder sample_request" by code_simp
  moreover have "start_line sample_request = ''OPTIONS'' @ '' '' @ ''sip:h'' @ '' SIP/2.0''"
    by (simp add: sample_request_def new_builder_def add_def set_body_def)
  moreover have "is_token ''OPTIONS''" and "trimmed ''sip:h''" by code_simp+
  ultimately show ?thesis
    using parse_built_request [of sample_request "''OPTIONS''" "''sip:h''"]
    by (simp add: sample_request_def new_builder_def add_def set_body_def)
qed

text \<open>
  A response the builder prints, with a status from 100 to 699, is read back with the same
  status, reason, headers and body.
\<close>

theorem parse_built_response:
  assumes "valid_builder b" and "start_line b = ''SIP/2.0 '' @ to_string st @ '' '' @ reason"
    and "100 \<le> st" and "st \<le> 699" and "trimmed reason"
  shows "parse_message (build b) =
    Some \<lparr>is_response = True, m_status = int st, m_reason = reason, m_method = [], m_uri = [],
          m_headers = map (\<lambda>(n, v). (full_header_name n, v)) (built_headers b), m_body = b_body b\<rparr>"
  using parse_message_build [OF assms(1)] parse_response_start [OF assms(3-5)] assms(2)
  by (simp add: empty_message_def)

definition sample_response :: builder where
  "sample_response = add ''To'' ''<sip:1@h>;tag=a'' (new_builder ''SIP/2.0 180 Ringing'')"

theorem parse_built_response_witness:
  "parse_message (build sample_response) =
    Some \<lparr>is_response = True, m_status = 180, m_reason = ''Ringing'', m_method = [], m_uri = [],
          m_headers = [(''to'', ''<sip:1@h>;tag=a''), (''content-length'', ''0'')], m_body = []\<rparr>"
proof -
  have "valid_builder sample_response" by code_simp
  moreover have "start_line sample_response = ''SIP/2.0 '' @ to_string 180 @ '' '' @ ''Ringing''"
    by code_simp
  moreover have "trimmed ''Ringing''" by code_simp
  moreover have "map (\<lambda>(n, v). (full_header_name n, v)) (built_headers sample_response) =
      [(''to'', ''<sip:1@h>;tag=a''), (''content-length'', ''0'')]" by code_simp
  moreover have "b_body sample_response = []" by code_simp
  ultimately show ?thesis
    using parse_built_response [of sample_response 180 "''Ringing''"] by simp
qed



end
