(* ===== verification/Stream_Framer.thy ===== *)
theory Stream_Framer
  imports Sip_Message
begin

text \<open>
  \<^verbatim>\<open>src/sip/stream_framer.cpp\<close>: cutting SIP messages out of a byte stream, and the loop of
  \<^verbatim>\<open>Engine::drain_link\<close> that pushes what the connection delivered and takes messages until
  there is none.

  The lemmas show that where the stream is cut into pieces does not matter, that the messages a
  peer built come out whole and in order, and that the framer never keeps or hands out more than
  \<^verbatim>\<open>kMaxMessage\<close> bytes.
\<close>

abbreviation (input) kMaxMessage :: nat where "kMaxMessage \<equiv> 65536"

record framer =
  buffer :: string
  failed :: bool

text \<open>The lines after the start line, up to the first Content-Length.\<close>

fun content_length_lines :: "string list \<Rightarrow> nat option" where
  "content_length_lines [] = None"
| "content_length_lines (line # lines) =
     (case find_char (CHR '':'') line of
        None \<Rightarrow> content_length_lines lines
      | Some colon \<Rightarrow>
          (let name = lowercase (trim (take colon line))
           in if name = ''content-length'' \<or> name = ''l''
              then parse_integer 64 (drop (colon + 1) line)
              else content_length_lines lines))"

definition content_length :: "string \<Rightarrow> nat option" where
  "content_length head = content_length_lines (drop 1 (split_lines head))"

definition push :: "framer \<Rightarrow> string \<Rightarrow> framer" where
  "push f bytes = (if failed f then f else f\<lparr>buffer := buffer f @ bytes\<rparr>)"

text \<open>
  The sum \<^verbatim>\<open>head_end + 4 + *length\<close> is a natural number here: the check of the length that
  comes first keeps it from wrapping around.
\<close>

definition next_message :: "framer \<Rightarrow> string option \<times> framer" where
  "next_message f =
     (if failed f then (None, f)
      else case find_first_not_of CRLF (buffer f) of
        None \<Rightarrow> (None, f\<lparr>buffer := []\<rparr>)
      | Some start \<Rightarrow>
          (let b = drop start (buffer f)
           in case find_str (CRLF @ CRLF) b of
                None \<Rightarrow> (None, f\<lparr>buffer := b, failed := kMaxMessage < length b\<rparr>)
              | Some head_end \<Rightarrow>
                  (case content_length (take head_end b) of
                     None \<Rightarrow> (None, f\<lparr>buffer := b, failed := True\<rparr>)
                   | Some len \<Rightarrow>
                       if kMaxMessage < len \<or> kMaxMessage < head_end + 4 + len
                       then (None, f\<lparr>buffer := b, failed := True\<rparr>)
                       else (let total = head_end + 4 + len
                             in if length b < total then (None, f\<lparr>buffer := b\<rparr>)
                                else (Some (take total b), f\<lparr>buffer := drop total b\<rparr>)))))"

definition reset_framer :: framer where
  "reset_framer = \<lparr>buffer = [], failed = False\<rparr>"

section \<open>Taking messages until there is none\<close>

text \<open>What the framer looks at: the buffer without the line ends in front of it.\<close>

definition skip_eol :: "string \<Rightarrow> string" where
  "skip_eol s = dropWhile (\<lambda>c. c \<in> set CRLF) s"

definition cut :: "string \<Rightarrow> string option \<times> framer" where
  "cut b =
     (case find_str (CRLF @ CRLF) b of
        None \<Rightarrow> (None, \<lparr>buffer = b, failed = kMaxMessage < length b\<rparr>)
      | Some head_end \<Rightarrow>
          (case content_length (take head_end b) of
             None \<Rightarrow> (None, \<lparr>buffer = b, failed = True\<rparr>)
           | Some len \<Rightarrow>
               if kMaxMessage < head_end + 4 + len then (None, \<lparr>buffer = b, failed = True\<rparr>)
               else if length b < head_end + 4 + len then (None, \<lparr>buffer = b, failed = False\<rparr>)
               else (Some (take (head_end + 4 + len) b),
                     \<lparr>buffer = drop (head_end + 4 + len) b, failed = False\<rparr>)))"

lemma find_idx_dropWhile:
  "(case find_idx P xs of None \<Rightarrow> [] | Some i \<Rightarrow> drop i xs) = dropWhile (\<lambda>x. \<not> P x) xs"
  by (induction xs) (auto split: option.splits)

lemma next_message_eq:
  assumes "\<not> failed f"
  shows "next_message f =
    (if skip_eol (buffer f) = [] then (None, reset_framer) else cut (skip_eol (buffer f)))"
proof (cases "find_first_not_of CRLF (buffer f)")
  case None
  with find_idx_dropWhile [of "buffer f" "\<lambda>x. x \<notin> set CRLF"] have "skip_eol (buffer f) = []"
    by (simp add: skip_eol_def)
  with None assms show ?thesis by (simp add: next_message_def reset_framer_def)
next
  case (Some i)
  with find_idx_dropWhile [of "buffer f" "\<lambda>x. x \<notin> set CRLF"]
  have s: "skip_eol (buffer f) = drop i (buffer f)" by (simp add: skip_eol_def)
  from Some have "drop i (buffer f) \<noteq> []" by (auto dest: find_idx_less)
  with Some s assms show ?thesis
    by (auto simp: next_message_def cut_def Let_def split: option.splits)
qed

lemma cut_SomeD:
  assumes "cut b = (Some m, f)"
  shows "b = m @ buffer f" and "\<not> failed f" and "4 \<le> length m" and "length m \<le> kMaxMessage"
  using assms by (auto simp: cut_def split: option.splits if_splits)

lemma next_message_decreases:
  assumes "next_message f = (Some m, f')"
  shows "length (buffer f') < length (buffer f)"
proof -
  from assms have "\<not> failed f" by (auto simp: next_message_def)
  with assms have c: "cut (skip_eol (buffer f)) = (Some m, f')"
    by (auto simp: next_message_eq split: if_splits)
  from cut_SomeD [OF c] have "length (buffer f') < length (skip_eol (buffer f))"
    by (metis add.commute length_append less_add_same_cancel1 less_le_trans zero_less_numeral)
  also have "\<dots> \<le> length (buffer f)" by (simp add: skip_eol_def length_dropWhile_le)
  finally show ?thesis .
qed

text \<open>\<^verbatim>\<open>while (auto message = framer_.next())\<close>: the loop ends because every message is non-empty.\<close>

function drain :: "framer \<Rightarrow> string list \<times> framer" where
  "drain f =
     (case next_message f of
        (None, f') \<Rightarrow> ([], f')
      | (Some m, f') \<Rightarrow> (let (ms, f'') = drain f' in (m # ms, f'')))"
  by pat_completeness auto

termination drain
  by (relation "measure (\<lambda>f. length (buffer f))") (auto intro: next_message_decreases [OF sym])

declare drain.simps [simp del]

definition feed :: "framer \<Rightarrow> string \<Rightarrow> string list \<times> framer" where
  "feed f bytes = drain (push f bytes)"

fun feed_all :: "framer \<Rightarrow> string list \<Rightarrow> string list \<times> framer" where
  "feed_all f [] = ([], f)"
| "feed_all f (chunk # chunks) =
     (let (ms, g) = feed f chunk; (ns, h) = feed_all g chunks in (ms @ ns, h))"

section \<open>Where the stream is cut does not matter\<close>

lemma skip_eol_append:
  "skip_eol (a @ b) = (if skip_eol a = [] then skip_eol b else skip_eol a @ b)"
  by (auto simp: skip_eol_def dropWhile_append dropWhile_eq_Nil_conv)

lemma skip_eol_skip_eol [simp]: "skip_eol (skip_eol s) = skip_eol s"
  by (simp add: skip_eol_def)

lemma cut_append_Some:
  assumes "cut b = (Some m, f)"
  shows "cut (b @ t) = (Some m, f\<lparr>buffer := buffer f @ t\<rparr>)"
  using assms find_str_append [of "CRLF @ CRLF" b _ t] find_str_SomeD [of "CRLF @ CRLF" b]
  by (auto simp: cut_def split: option.splits if_splits)

lemma cut_append_failed:
  assumes "cut b = (None, f)" and "failed f"
  shows "fst (cut (b @ t)) = None \<and> failed (snd (cut (b @ t)))"
proof (cases "find_str (CRLF @ CRLF) b")
  case None
  with assms have "kMaxMessage < length b" by (auto simp: cut_def)
  with find_str_late [OF None, of t] show ?thesis
    by (auto simp: cut_def split: option.splits)
next
  case (Some head_end)
  with assms find_str_append [OF Some, of t] find_str_SomeD [OF Some] show ?thesis
    by (auto simp: cut_def split: option.splits if_splits)
qed

lemma cut_NoneD: "cut b = (None, f) \<Longrightarrow> buffer f = b"
  by (auto simp: cut_def split: option.splits if_splits)

lemma drain_cong:
  "\<not> failed f \<Longrightarrow> \<not> failed g \<Longrightarrow> skip_eol (buffer f) = skip_eol (buffer g) \<Longrightarrow> drain f = drain g"
  by (subst (1 2) drain.simps) (simp add: next_message_eq)

lemma drain_failed: "failed f \<Longrightarrow> drain f = ([], f)"
  by (subst drain.simps) (simp add: next_message_def)

lemma drain_None: "next_message f = (None, g) \<Longrightarrow> drain f = ([], g)"
  by (subst drain.simps) simp

lemma drain_Some: "next_message f = (Some m, g) \<Longrightarrow> drain f = (m # fst (drain g), snd (drain g))"
  by (subst drain.simps) (simp add: case_prod_unfold Let_def)

text \<open>What a client sees: the messages, whether framing failed, and the bytes kept if it did not.\<close>

definition observe :: "string list \<times> framer \<Rightarrow> string list \<times> bool \<times> string" where
  "observe r = (fst r, failed (snd r), if failed (snd r) then [] else buffer (snd r))"

lemma observe_prepend: "observe (ms @ fst r, snd r) = (ms @ fst (observe r), snd (observe r))"
  by (simp add: observe_def)

lemma drain_push:
  "observe (drain (push f t)) =
   observe (fst (drain f) @ fst (drain (push (snd (drain f)) t)), snd (drain (push (snd (drain f)) t)))"
proof (induction f rule: drain.induct)
  case (1 f)
  let ?s = "skip_eol (buffer f)"
  show ?case
  proof (cases "failed f")
    case True
    then show ?thesis by (simp add: drain_failed push_def)
  next
    case nf: False
    have nfp: "\<not> failed (push f t)" and bp: "buffer (push f t) = buffer f @ t"
      using nf by (simp_all add: push_def)
    show ?thesis
    proof (cases "?s = []")
      case True
      have "drain (push f t) = drain (push reset_framer t)"
        using nf True by (intro drain_cong) (auto simp: push_def reset_framer_def skip_eol_append)
      moreover have "drain f = ([], reset_framer)" using nf True by (simp add: drain_None next_message_eq)
      ultimately show ?thesis by simp
    next
      case ne: False
      obtain r g where c: "cut ?s = (r, g)" by (cases "cut ?s")
      with nf ne have nm: "next_message f = (r, g)" by (simp add: next_message_eq)
      have np: "next_message (push f t) = cut (?s @ t)"
        using nfp bp ne by (simp add: next_message_eq skip_eol_append)
      show ?thesis
      proof (cases r)
        case (Some m)
        with c have ng: "\<not> failed g" using cut_SomeD(2) by blast
        with c Some np have "next_message (push f t) = (Some m, push g t)"
          by (simp add: cut_append_Some push_def)
        then have "observe (drain (push f t)) = ([m] @ fst (observe (drain (push g t))), snd (observe (drain (push g t))))"
          by (simp add: drain_Some observe_def)
        also have "\<dots> = observe (m # fst (drain g) @ fst (drain (push (snd (drain g)) t)),
            snd (drain (push (snd (drain g)) t)))"
          unfolding 1 [OF nm [symmetric] Some] by (simp add: observe_def)
        finally show ?thesis using nm Some by (simp add: drain_Some)
      next
        case None
        with nm have df: "drain f = ([], g)" by (simp add: drain_None)
        show ?thesis
        proof (cases "failed g")
          case True
          with c None cut_append_failed [of ?s g t] np
          obtain h where "next_message (push f t) = (None, h)" "failed h"
            by (cases "cut (?s @ t)") auto
          with df True show ?thesis by (simp add: drain_None drain_failed push_def observe_def)
        next
          case False
          have "drain (push f t) = drain (push g t)"
            using nf False cut_NoneD c None ne
            by (intro drain_cong) (auto simp: push_def skip_eol_append)
          with df show ?thesis by simp
        qed
      qed
    qed
  qed
qed

lemma push_append: "push (push f a) b = push f (a @ b)"
  by (simp add: push_def)

lemma feed_append:
  "observe (feed f (a @ b)) =
   observe (fst (feed f a) @ fst (feed (snd (feed f a)) b), snd (feed (snd (feed f a)) b))"
  using drain_push [of "push f a" b] by (simp add: feed_def push_append)

lemma observe_eqD: "observe r = observe s \<Longrightarrow> fst r = fst s \<and> failed (snd r) = failed (snd s)"
  by (simp add: observe_def)

lemma observe_feed_cong:
  assumes "observe ([], f) = observe ([], g)"
  shows "observe (feed_all f cs) = observe (feed_all g cs)"
proof (cases "failed f")
  case False
  with assms have "f = g" by (simp add: observe_def)
  then show ?thesis by simp
next
  case True
  have dead: "feed_all h cs = ([], h)" if "failed h" for h
    using that by (induction cs) (simp_all add: feed_def push_def drain_failed)
  from True assms have "failed g" by (simp add: observe_def)
  with True dead show ?thesis by (simp add: observe_def)
qed

lemma feed_all_eq_feed:
  "observe (feed_all f (c # cs)) = observe (feed f (concat (c # cs)))"
proof (induction cs arbitrary: f c)
  case Nil
  then show ?case by (simp add: case_prod_unfold)
next
  case (Cons d cs)
  let ?g = "snd (feed f c)"
  have "observe (feed f (concat (c # d # cs))) =
      observe (fst (feed f c) @ fst (feed ?g (concat (d # cs))), snd (feed ?g (concat (d # cs))))"
    using feed_append [of f c "concat (d # cs)"] by simp
  also have "\<dots> = observe (fst (feed f c) @ fst (feed_all ?g (d # cs)), snd (feed_all ?g (d # cs)))"
    unfolding observe_prepend Cons.IH [of ?g d] ..
  also have "\<dots> = observe (feed_all f (c # d # cs))"
    by (simp add: case_prod_unfold Let_def)
  finally show ?case by simp
qed

lemma drain_reset [simp]: "drain reset_framer = ([], reset_framer)"
  by (subst drain.simps) (simp add: next_message_def reset_framer_def)

lemma feed_all_reset:
  "observe (feed_all reset_framer chunks) = observe (feed reset_framer (concat chunks))"
proof (cases chunks)
  case Nil
  have "push reset_framer [] = reset_framer" by (simp add: push_def reset_framer_def)
  with Nil show ?thesis by (simp add: feed_def)
next
  case (Cons c cs)
  then show ?thesis using feed_all_eq_feed [of reset_framer c cs] by simp
qed

section \<open>Messages come out as they were built\<close>

text \<open>A message that says its own length and fits.\<close>

definition framed :: "string \<Rightarrow> bool" where
  "framed m \<longleftrightarrow>
     m \<noteq> [] \<and> hd m \<notin> set CRLF \<and> length m \<le> kMaxMessage \<and>
     (case find_str (CRLF @ CRLF) m of None \<Rightarrow> False
      | Some head_end \<Rightarrow>
          (case content_length (take head_end m) of None \<Rightarrow> False
           | Some len \<Rightarrow> length m = head_end + 4 + len))"

lemma cut_framed: "framed m \<Longrightarrow> cut (m @ rest) = (Some m, \<lparr>buffer = rest, failed = False\<rparr>)"
proof -
  assume "framed m"
  then have "cut m = (Some m, \<lparr>buffer = [], failed = False\<rparr>)"
    by (auto simp: framed_def cut_def split: option.splits)
  from cut_append_Some [OF this] show ?thesis by simp
qed

lemma drain_framed:
  assumes "set e \<subseteq> set CRLF" and "framed m"
  shows "drain \<lparr>buffer = e @ m @ rest, failed = False\<rparr> =
    (m # fst (drain \<lparr>buffer = rest, failed = False\<rparr>), snd (drain \<lparr>buffer = rest, failed = False\<rparr>))"
proof (rule drain_Some)
  have "skip_eol e = []" using assms(1) by (auto simp: skip_eol_def)
  moreover have "skip_eol (m @ rest) = m @ rest"
    using assms(2) by (cases m) (auto simp: framed_def skip_eol_def)
  moreover have "m \<noteq> []" using assms(2) by (simp add: framed_def)
  ultimately show "next_message \<lparr>buffer = e @ m @ rest, failed = False\<rparr> =
      (Some m, \<lparr>buffer = rest, failed = False\<rparr>)"
    by (simp add: next_message_eq skip_eol_append cut_framed assms(2))
qed

lemma drain_stream:
  assumes "list_all (\<lambda>(e, m). set e \<subseteq> set CRLF \<and> framed m) ems"
  shows "drain \<lparr>buffer = concat (map (\<lambda>(e, m). e @ m) ems), failed = False\<rparr> =
    (map snd ems, reset_framer)"
  using assms
proof (induction ems)
  case Nil
  then show ?case using drain_reset by (simp add: reset_framer_def)
next
  case (Cons em ems)
  then show ?case by (cases em) (simp add: drain_framed)
qed

lemma full_name_content_length:
  assumes "lowercase (trim n) = ''content-length'' \<or> lowercase (trim n) = ''l''"
  shows "full_header_name n = ''content-length''"
  using assms length_lowercase [of "trim n"]
  by (auto simp del: length_lowercase simp: full_header_name_def Let_def)

lemma content_length_lines_skip:
  assumes "list_all valid_header hs" and "list_all (\<lambda>h. full_header_name (fst h) \<noteq> ''content-length'') hs"
  shows "content_length_lines (map header_line hs @ ls) = content_length_lines ls"
  using assms
proof (induction hs)
  case Nil
  then show ?case by simp
next
  case (Cons h hs)
  obtain n v where h: "h = (n, v)" by (cases h)
  with Cons.prems have "find_char (CHR '':'') (n @ CHR '':'' # '' '' @ v) = Some (length n)"
    by (intro find_idx_split) (auto simp: valid_header_def)
  moreover have "lowercase (trim n) \<noteq> ''content-length''" and "lowercase (trim n) \<noteq> ''l''"
    using Cons.prems h full_name_content_length by fastforce+
  ultimately show ?case using Cons h by (simp add: header_line_def)
qed

lemma content_length_header:
  assumes "n < 2 ^ 64"
  shows "content_length_lines (header_line (''Content-Length'', to_string n) # ls) = Some n"
proof -
  have "lowercase (trim ''Content-Length'') = ''content-length''" by code_simp
  moreover have "parse_integer 64 (CHR '' '' # to_string n) = Some n"
    using parse_integer_trim [of 64 "CHR '' '' # to_string n"] parse_integer_to_string [OF assms]
    by (simp add: trim_id)
  ultimately show ?thesis by (simp add: header_line_def)
qed

lemma framed_build:
  assumes valid: "valid_builder b" and len: "length (build b) \<le> kMaxMessage"
  shows "framed (build b)"
proof -
  let ?hs = "b_headers b @ (if b_body b \<noteq> [] then [(''Content-Type'', content_type b)] else [])"
  let ?ls = "start_line b # map header_line (built_headers b)"
  have ls: "list_all (\<lambda>l. l \<noteq> [] \<and> plain_line l) ?ls"
    by (rule built_lines_plain [OF valid])
  have b: "build b = head_of ?ls @ CRLF @ CRLF @ b_body b"
    using join_lines_head [of ?ls] by (simp add: build_lines)
  have f: "find_str (CRLF @ CRLF) (build b) = Some (length (head_of ?ls))"
    unfolding b by (rule find_head_end) (use ls in auto)
  have "list_all valid_header ?hs" and "list_all (\<lambda>h. full_header_name (fst h) \<noteq> ''content-length'') ?hs"
    using valid valid_built_headers [OF valid] content_type_name
    by (auto simp: valid_builder_def built_headers_def)
  then have "content_length (head_of ?ls) = Some (length (b_body b))"
    using content_length_lines_skip [of ?hs "[header_line (''Content-Length'', to_string (length (b_body b)))]"]
      split_lines_head_of [OF _ ls] content_length_header [of "length (b_body b)" "[]"] valid
    by (simp add: content_length_def built_headers_def valid_builder_def)
  moreover have "build b \<noteq> [] \<and> hd (build b) \<notin> set CRLF"
    using valid by (cases "start_line b") (auto simp: valid_builder_def build_def plain_line_def)
  ultimately show ?thesis
    using f len by (simp add: framed_def) (simp add: b)
qed

section \<open>Properties\<close>


text \<open>
  C25: the messages a peer built come out whole, in order and with nothing else, with any line ends
  (keep-alive pings) between them and however the stream is cut.
\<close>

theorem built_messages_come_out:
  assumes "list_all (\<lambda>(e, b). set e \<subseteq> set CRLF \<and> valid_builder b \<and> length (build b) \<le> kMaxMessage) ebs"
    and "concat chunks = concat (map (\<lambda>(e, b). e @ build b) ebs)"
  shows "fst (feed_all reset_framer chunks) = map (build \<circ> snd) ebs \<and>
    \<not> failed (snd (feed_all reset_framer chunks))"
proof -
  let ?ems = "map (\<lambda>(e, b). (e, build b)) ebs"
  have "list_all (\<lambda>(e, m). set e \<subseteq> set CRLF \<and> framed m) ?ems"
    using assms(1) by (auto simp: list_all_iff framed_build)
  from drain_stream [OF this] have "feed reset_framer (concat chunks) = (map snd ?ems, reset_framer)"
    by (simp add: feed_def push_def reset_framer_def assms(2) comp_def case_prod_unfold)
  with observe_eqD [OF feed_all_reset [of chunks]] show ?thesis
    by (simp add: reset_framer_def comp_def case_prod_unfold)
qed

theorem built_messages_come_out_witness:
  "fst (feed_all reset_framer [CRLF, take 100 (build sample_request @ CRLF @ build sample_response),
     drop 100 (build sample_request @ CRLF @ build sample_response)]) = [build sample_request, build sample_response]"
proof -
  have "list_all (\<lambda>(e, b). set e \<subseteq> set CRLF \<and> valid_builder b \<and> length (build b) \<le> kMaxMessage)
      [(CRLF, sample_request), (CRLF, sample_response)]"
    by code_simp
  from built_messages_come_out [OF this, of "[CRLF, take 100 (build sample_request @ CRLF @ build sample_response),
     drop 100 (build sample_request @ CRLF @ build sample_response)]"] show ?thesis
    by (simp del: take_append drop_append)
qed

lemma drain_bounds:
  "(\<forall>m \<in> set (fst (drain f)). length m \<le> kMaxMessage) \<and>
   (failed (snd (drain f)) \<or> length (buffer (snd (drain f))) \<le> kMaxMessage)"
proof (induction f rule: drain.induct)
  case (1 f)
  show ?case
  proof (cases "failed f \<or> skip_eol (buffer f) = []")
    case True
    then show ?thesis
      by (cases "failed f") (auto simp: drain_failed drain_None next_message_eq reset_framer_def)
  next
    case False
    obtain r g where c: "cut (skip_eol (buffer f)) = (r, g)" by fastforce
    with False have nm: "next_message f = (r, g)" by (simp add: next_message_eq)
    show ?thesis
    proof (cases r)
      case None
      with c have "failed g \<or> length (buffer g) \<le> kMaxMessage"
        by (auto simp: cut_def split: option.splits if_splits)
      with None nm show ?thesis by (simp add: drain_None)
    next
      case (Some m)
      with 1 [OF nm [symmetric] Some] cut_SomeD(4) c nm show ?thesis by (auto simp: drain_Some)
    qed
  qed
qed


end
