(* ===== verification/Base64.thy ===== *)
theory Base64
  imports Sip_Text
begin

text \<open>
  \<^verbatim>\<open>src/sip/base64.cpp\<close>: encoding in groups of three bytes with padding, and the decoder with
  its 32-bit accumulator. The lemmas show that decoding undoes encoding for every byte string and
  that the decoder accepts nothing but encodings (with or without the padding).
\<close>

definition kAlphabet :: string where
  "kAlphabet = ''ABCDEFGHIJKLMNOPQRSTUVWXYZabcdefghijklmnopqrstuvwxyz0123456789+/''"

definition value_of :: "char \<Rightarrow> int" where
  "value_of c =
     (let n = of_char c
      in if 65 \<le> n \<and> n \<le> 90 then n - 65
         else if 97 \<le> n \<and> n \<le> 122 then n - 97 + 26
         else if 48 \<le> n \<and> n \<le> 57 then n - 48 + 52
         else if c = CHR ''+'' then 62
         else if c = CHR ''/'' then 63
         else - 1)"

text \<open>The letter of the six bits of a triple that start at bit \<^term>\<open>k\<close>.\<close>

definition sextet :: "u32 \<Rightarrow> nat \<Rightarrow> char" where
  "sextet triple k = kAlphabet ! unat (drop_bit k triple AND 63)"

fun base64_encode :: "byte list \<Rightarrow> string" where
  "base64_encode (a # b # c # data) =
     (let triple = push_bit 16 (ucast a) OR push_bit 8 (ucast b) OR ucast c
      in sextet triple 18 # sextet triple 12 # sextet triple 6 # sextet triple 0 # base64_encode data)"
| "base64_encode [a, b] =
     (let triple = push_bit 16 (ucast a) OR push_bit 8 (ucast b)
      in [sextet triple 18, sextet triple 12, sextet triple 6, CHR ''=''])"
| "base64_encode [a] =
     (let triple = push_bit 16 (ucast a)
      in [sextet triple 18, sextet triple 12, CHR ''='', CHR ''=''])"
| "base64_encode [] = []"

text \<open>\<^verbatim>\<open>(accumulator << 6) | value\<close>, and the eight bits of it above the lowest \<^term>\<open>bits\<close>.\<close>

definition shift_in :: "u32 \<Rightarrow> int \<Rightarrow> u32" where
  "shift_in accumulator value = push_bit 6 accumulator OR word_of_int value"

definition byte_above :: "nat \<Rightarrow> u32 \<Rightarrow> byte" where
  "byte_above bits accumulator = ucast (drop_bit bits accumulator AND 0xff)"

text \<open>The loop over the letters: the accumulator, the number of bits waiting in it, the output.\<close>

fun decode_loop :: "string \<Rightarrow> u32 \<Rightarrow> nat \<Rightarrow> byte list \<Rightarrow> (u32 \<times> nat \<times> byte list) option" where
  "decode_loop [] accumulator bits out = Some (accumulator, bits, out)"
| "decode_loop (c # text) accumulator bits out =
     (let value = value_of c
      in if value < 0 then None
         else let accumulator' = shift_in accumulator value;
                  bits' = bits + 6
              in if 8 \<le> bits'
                 then decode_loop text accumulator' (bits' - 8)
                        (out @ [byte_above (bits' - 8) accumulator'])
                 else decode_loop text accumulator' bits' out)"

definition strip_padding :: "string \<Rightarrow> string" where
  "strip_padding text = rev (dropWhile (\<lambda>c. c = CHR ''='') (rev text))"

definition base64_decode :: "string \<Rightarrow> byte list option" where
  "base64_decode text0 =
     (let text = strip_padding text0;
          padding = length text0 - length text
      in if length text mod 4 = 1 \<or> 2 < padding \<or> (0 < padding \<and> (length text + padding) mod 4 \<noteq> 0)
         then None
         else case decode_loop text 0 0 [] of
                None \<Rightarrow> None
              | Some (accumulator, bits, out) \<Rightarrow>
                  if accumulator AND (push_bit bits 1 - 1) \<noteq> 0 then None else Some out)"

section \<open>The alphabet\<close>

lemma map_value_of_alphabet: "map value_of kAlphabet = map int [0..<64]"
  by code_simp

lemma length_alphabet: "length kAlphabet = 64"
  by (simp add: kAlphabet_def)

lemma value_of_alphabet:
  assumes "n < 64"
  shows "value_of (kAlphabet ! n) = int n"
proof -
  from assms have "value_of (kAlphabet ! n) = map value_of kAlphabet ! n"
    by (simp add: length_alphabet)
  with assms show ?thesis by (simp add: map_value_of_alphabet)
qed

lemma alphabet_not_padding: "n < 64 \<Longrightarrow> kAlphabet ! n \<noteq> CHR ''=''"
  using value_of_alphabet [of n] by (auto simp: value_of_def)

lemma unat_and_63: "unat ((w :: u32) AND 63) < 64"
  using word_and_le1 [of w "63 :: u32"] by (simp add: word_le_nat_alt)

lemma value_of_sextet: "value_of (sextet t k) = int (unat (drop_bit k t AND 63))"
  by (simp add: sextet_def value_of_alphabet unat_and_63)

lemma value_of_sextet_nonneg: "\<not> value_of (sextet t k) < 0"
  by (simp add: value_of_sextet)

lemma sextet_not_padding: "sextet t k \<noteq> CHR ''=''"
  by (simp add: sextet_def alphabet_not_padding unat_and_63)

lemma word_of_value_of_sextet: "(word_of_int (value_of (sextet t k)) :: u32) = drop_bit k t AND 63"
  by (simp add: value_of_sextet)

section \<open>Decoding an encoding\<close>

lemma less_8_cases: "n < 8 \<Longrightarrow> n = 0 \<or> n = 1 \<or> n = 2 \<or> n = 3 \<or> n = 4 \<or> n = 5 \<or> n = 6 \<or> n = (7::nat)"
  by auto

lemma byte_high_bits: "8 \<le> n \<Longrightarrow> \<not> bit (w :: byte) n"
  by (auto dest: bit_imp_le_length)

lemma byte_eqI: "(\<And>n. n < 8 \<Longrightarrow> bit v n = bit w n) \<Longrightarrow> v = (w :: byte)"
  by (rule bit_word_eqI) simp

lemmas byte_bits = bit_simps byte_high_bits numeral_2_eq_2 numeral_3_eq_3

definition triple_of :: "byte \<Rightarrow> byte \<Rightarrow> byte \<Rightarrow> u32" where
  "triple_of a b c = push_bit 16 (ucast a) OR push_bit 8 (ucast b) OR ucast c"

text \<open>The three bytes the decoder takes from four letters, whatever was in the accumulator.\<close>

lemma decode_bytes:
  "byte_above 4 (shift_in (shift_in acc (value_of (sextet (triple_of a b c) 18)))
     (value_of (sextet (triple_of a b c) 12))) = a"
  "byte_above 2 (shift_in (shift_in acc (value_of (sextet (triple_of a b c) 12)))
     (value_of (sextet (triple_of a b c) 6))) = b"
  "byte_above 0 (shift_in (shift_in acc (value_of (sextet (triple_of a b c) 6)))
     (value_of (sextet (triple_of a b c) 0))) = c"
  unfolding byte_above_def shift_in_def word_of_value_of_sextet triple_of_def
  by (rule byte_eqI, drule less_8_cases, elim disjE; simp add: byte_bits)+

text \<open>The letters of an encoding, without its padding.\<close>

fun letters :: "byte list \<Rightarrow> string" where
  "letters (a # b # c # data) =
     sextet (triple_of a b c) 18 # sextet (triple_of a b c) 12 # sextet (triple_of a b c) 6 #
     sextet (triple_of a b c) 0 # letters data"
| "letters [a, b] = [sextet (triple_of a b 0) 18, sextet (triple_of a b 0) 12, sextet (triple_of a b 0) 6]"
| "letters [a] = [sextet (triple_of a 0 0) 18, sextet (triple_of a 0 0) 12]"
| "letters [] = []"

definition pad :: "byte list \<Rightarrow> nat" where
  "pad data = (if length data mod 3 = 0 then 0 else 3 - length data mod 3)"

lemma base64_encode_letters: "base64_encode data = letters data @ replicate (pad data) (CHR ''='')"
  by (induction data rule: letters.induct) (simp_all add: triple_of_def pad_def Let_def numeral_2_eq_2)

lemma letters_no_padding: "CHR ''='' \<notin> set (letters data)"
  by (induction data rule: letters.induct) (simp_all add: sextet_not_padding [symmetric])

lemma length_letters: "length (letters data) mod 4 \<noteq> 1 \<and> (length (letters data) + pad data) mod 4 = 0"
proof (induction data rule: letters.induct)
  case (1 a b c data)
  moreover have "pad (a # b # c # data) = pad data" by (simp add: pad_def)
  ultimately show ?case by simp
qed (simp_all add: pad_def)

lemma strip_padding_replicate:
  assumes "CHR ''='' \<notin> set s"
  shows "strip_padding (s @ replicate k (CHR ''='')) = s"
proof -
  have "dropWhile (\<lambda>c. c = CHR ''='') (rev s) = rev s"
    using assms by (cases "rev s") (auto simp: rev_eq_Cons_iff)
  then show ?thesis by (simp add: strip_padding_def dropWhile_append)
qed

lemma decode_loop_group:
  fixes a b c :: byte
  defines "t \<equiv> triple_of a b c"
  shows "\<exists>acc'. \<forall>rest out. decode_loop (sextet t 18 # sextet t 12 # sextet t 6 # sextet t 0 # rest) acc 0 out =
    decode_loop rest acc' 0 (out @ [a, b, c])"
  using decode_bytes [of _ a b c, folded t_def] by (auto simp: Let_def value_of_sextet_nonneg)

lemma leftover_mask: "push_bit bits 1 - 1 = (mask bits :: u32)"
  by (simp add: mask_eq_exp_minus_1)

lemma decode_loop_tail2:
  fixes a b :: byte
  defines "t \<equiv> triple_of a b 0"
  shows "\<exists>acc'. decode_loop [sextet t 18, sextet t 12, sextet t 6] acc 0 out = Some (acc', 2, out @ [a, b]) \<and>
    acc' AND mask 2 = 0"
proof -
  have "shift_in acc (value_of (sextet t 6)) AND mask 2 = 0" for acc
    unfolding shift_in_def word_of_value_of_sextet t_def triple_of_def
    by (rule bit_word_eqI) (auto simp add: bit_simps byte_high_bits)
  then show ?thesis
    using decode_bytes [of _ a b 0, folded t_def] by (auto simp: Let_def value_of_sextet_nonneg)
qed

lemma decode_loop_tail1:
  fixes a :: byte
  defines "t \<equiv> triple_of a 0 0"
  shows "\<exists>acc'. decode_loop [sextet t 18, sextet t 12] acc 0 out = Some (acc', 4, out @ [a]) \<and>
    acc' AND mask 4 = 0"
proof -
  have "shift_in acc (value_of (sextet t 12)) AND mask 4 = 0" for acc
    unfolding shift_in_def word_of_value_of_sextet t_def triple_of_def
    by (rule bit_word_eqI) (auto simp add: bit_simps byte_high_bits)
  then show ?thesis
    using decode_bytes [of _ a 0 0, folded t_def] by (auto simp: Let_def value_of_sextet_nonneg)
qed

lemma decode_loop_letters:
  "\<exists>acc' bits. decode_loop (letters data) acc 0 out = Some (acc', bits, out @ data) \<and> acc' AND mask bits = 0"
proof (induction data arbitrary: acc out rule: letters.induct)
  case (1 a b c data)
  obtain acc1 where "\<forall>rest out. decode_loop (sextet (triple_of a b c) 18 # sextet (triple_of a b c) 12 #
      sextet (triple_of a b c) 6 # sextet (triple_of a b c) 0 # rest) acc 0 out = decode_loop rest acc1 0 (out @ [a, b, c])"
    using decode_loop_group by blast
  with 1 [of acc1 "out @ [a, b, c]"] show ?case
    by (simp only: letters.simps) simp
next
  case (2 a b)
  show ?case using decode_loop_tail2 [of a b acc out] by (simp only: letters.simps) blast
next
  case (3 a)
  show ?case using decode_loop_tail1 [of a acc out] by (simp only: letters.simps) blast
next
  case 4
  then show ?case by simp
qed

lemma base64_decode_encode: "base64_decode (base64_encode data) = Some data"
proof -
  have "strip_padding (base64_encode data) = letters data"
    by (simp add: base64_encode_letters strip_padding_replicate letters_no_padding)
  moreover have "length (base64_encode data) - length (letters data) = pad data"
    by (simp add: base64_encode_letters)
  moreover have "pad data \<le> 2" by (auto simp: pad_def)
  moreover obtain acc' bits where "decode_loop (letters data) 0 0 [] = Some (acc', bits, data)" "acc' AND mask bits = 0"
    using decode_loop_letters [of data 0 "[]"] by auto
  ultimately show ?thesis
    using length_letters [of data] by (simp add: base64_decode_def Let_def mask_eq_exp_minus_1)
qed

interpretation base64: round_trip base64_encode base64_decode "\<lambda>_. True"
  by unfold_locales (rule base64_decode_encode)

lemma base64_letters: "set (base64_encode data) \<subseteq> set kAlphabet \<union> {CHR ''=''}"
proof -
  have "sextet t k \<in> set kAlphabet" for t k
    using unat_and_63 length_alphabet by (simp add: sextet_def)
  then show ?thesis by (induction data rule: base64_encode.induct) (auto simp: Let_def)
qed

lemma value_of_less_64: "value_of c < 64"
  by (simp add: value_of_def Let_def)

lemma value_of_inject:
  assumes "0 \<le> value_of c" and "value_of c = value_of d"
  shows "c = d"
proof -
  have "(of_char c :: int) = of_char d"
    using assms by (auto simp: value_of_def Let_def split: if_splits)
  then show ?thesis by simp
qed

lemma alphabet_value_of:
  assumes "0 \<le> value_of c"
  shows "kAlphabet ! nat (value_of c) = c"
  by (rule value_of_inject)
    (use assms value_of_less_64 [of c] value_of_alphabet [of "nat (value_of c)"] in auto)

lemma mask_6: "(63 :: u32) = mask 6"
  by (simp add: mask_eq_exp_minus_1)

lemma mask_8: "(255 :: u32) = mask 8"
  by (simp add: mask_eq_exp_minus_1)

lemma bit_shift_in_word: "n < 32 \<Longrightarrow>
    bit (push_bit 6 s OR (v AND 63) :: u32) n = (if n < 6 then bit v n else bit s (n - 6))"
  by (auto simp: mask_6 bit_simps)

lemma bit_byte_above: "n < 8 \<Longrightarrow> k < 24 \<Longrightarrow> bit (byte_above k s) n = bit s (k + n)"
  by (auto simp: byte_above_def mask_8 bit_simps)

lemma bit_triple_of: "n < 24 \<Longrightarrow>
    bit (triple_of a b c) n = (if n < 8 then bit c n else if n < 16 then bit b (n - 8) else bit a (n - 16))"
  by (auto simp: triple_of_def bit_simps byte_high_bits)

lemma u32_low6_eqI: "(\<And>n. n < 6 \<Longrightarrow> bit v n = bit w n) \<Longrightarrow> v AND 63 = w AND (63 :: u32)"
  by (rule bit_word_eqI) (auto simp: mask_6 bit_simps)

lemma reencode:
  fixes acc v1 v2 v3 v4 :: u32
  defines "s1 \<equiv> push_bit 6 acc OR (v1 AND 63)"
  defines "s2 \<equiv> push_bit 6 s1 OR (v2 AND 63)"
  defines "s3 \<equiv> push_bit 6 s2 OR (v3 AND 63)"
  defines "s4 \<equiv> push_bit 6 s3 OR (v4 AND 63)"
  defines "t \<equiv> triple_of (byte_above 4 s2) (byte_above 2 s3) (byte_above 0 s4)"
  shows "drop_bit 18 t AND 63 = v1 AND 63" "drop_bit 12 t AND 63 = v2 AND 63"
    "drop_bit 6 t AND 63 = v3 AND 63" "t AND 63 = v4 AND 63"
proof -
  have bits:
    "n < 32 \<Longrightarrow> bit s1 n = (if n < 6 then bit v1 n else bit acc (n - 6))"
    "n < 32 \<Longrightarrow> bit s2 n = (if n < 6 then bit v2 n else bit s1 (n - 6))"
    "n < 32 \<Longrightarrow> bit s3 n = (if n < 6 then bit v3 n else bit s2 (n - 6))"
    "n < 32 \<Longrightarrow> bit s4 n = (if n < 6 then bit v4 n else bit s3 (n - 6))" for n
    unfolding s1_def s2_def s3_def s4_def by (rule bit_shift_in_word, assumption)+
  note bit_t = bit_drop_bit_eq t_def bit_triple_of bit_byte_above
  show "drop_bit 18 t AND 63 = v1 AND 63"
    by (rule u32_low6_eqI) (simp add: bit_t bits)
  show "drop_bit 12 t AND 63 = v2 AND 63"
    by (rule u32_low6_eqI) (auto simp: bit_t bits)
  have "\<not> n < 2 \<Longrightarrow> Suc (Suc (n - 2)) = n" for n :: nat by simp
  then show "drop_bit 6 t AND 63 = v3 AND 63"
    by (intro u32_low6_eqI) (auto simp: bit_t bits)
  show "t AND 63 = v4 AND 63"
    by (rule u32_low6_eqI) (auto simp: bit_t bits)
qed

text \<open>A letter is the sextet of any word whose low six bits are its value.\<close>

lemma value_word: 
  assumes "0 \<le> value_of c"
  shows "(word_of_int (value_of c) :: u32) AND 63 = word_of_int (value_of c)"
    and "unat (word_of_int (value_of c) :: u32) = nat (value_of c)"
proof -
  note lt = value_of_less_64 [of c]
  then show "unat (word_of_int (value_of c) :: u32) = nat (value_of c)"
    using assms by (simp add: unat_eq_nat_uint uint_word_of_int)
  have "value_of c AND 63 = take_bit 6 (value_of c)"
    by (simp add: take_bit_eq_mask mask_eq_exp_minus_1)
  with lt assms have "value_of c AND 63 = value_of c" by (simp add: take_bit_int_eq_self)
  then show "(word_of_int (value_of c) :: u32) AND 63 = word_of_int (value_of c)"
    by (metis of_int_and_eq of_int_numeral)
qed

lemma sextet_eqI:
  assumes "0 \<le> value_of c" and "drop_bit k t AND 63 = word_of_int (value_of c)"
  shows "sextet t k = c"
  using assms by (simp add: sextet_def value_word alphabet_value_of)


text \<open>What the decoder read from four letters encodes to those letters again; the tails likewise.\<close>

lemma reencode_letters:
  fixes acc :: u32
  assumes "0 \<le> value_of c1" "0 \<le> value_of c2" "0 \<le> value_of c3" "0 \<le> value_of c4"
  defines "s2 \<equiv> shift_in (shift_in acc (value_of c1)) (value_of c2)"
  defines "s3 \<equiv> shift_in s2 (value_of c3)"
  defines "s4 \<equiv> shift_in s3 (value_of c4)"
  shows "letters (byte_above 4 s2 # byte_above 2 s3 # byte_above 0 s4 # data) = c1 # c2 # c3 # c4 # letters data"
  using reencode [of acc "word_of_int (value_of c1)" "word_of_int (value_of c2)"
      "word_of_int (value_of c3)" "word_of_int (value_of c4)"] assms(1-4)
  by (simp add: value_word(1) sextet_eqI s2_def s3_def s4_def shift_in_def)

lemma bit_low_zero: "w AND mask k = 0 \<Longrightarrow> n < k \<Longrightarrow> \<not> bit (w :: u32) n"
  by (metis bit_and_iff bit_imp_le_length bit_mask_iff bit_0_eq bot_apply bot_bool_def possible_bit_word)

lemma leftover_bytes:
  "s AND mask 4 = 0 \<Longrightarrow> byte_above 2 (push_bit 6 s) = 0"
  "byte_above 0 (push_bit 12 s) = 0"
  "s AND mask 2 = 0 \<Longrightarrow> byte_above 0 (push_bit 6 s) = 0"
  unfolding byte_above_def
  by (rule byte_eqI, drule less_8_cases, elim disjE; simp add: bit_simps bit_low_zero; simp add: bit_low_zero)+

lemma reencode_tail2:
  fixes acc :: u32
  assumes "0 \<le> value_of c1" "0 \<le> value_of c2" "0 \<le> value_of c3"
  defines "s2 \<equiv> shift_in (shift_in acc (value_of c1)) (value_of c2)"
  defines "s3 \<equiv> shift_in s2 (value_of c3)"
  assumes "s3 AND mask 2 = 0"
  shows "letters [byte_above 4 s2, byte_above 2 s3] = [c1, c2, c3]"
  using reencode [of acc "word_of_int (value_of c1)" "word_of_int (value_of c2)"
      "word_of_int (value_of c3)" 0] assms(1-3) leftover_bytes(3) [OF assms(6)]
  by (simp add: value_word(1) sextet_eqI s2_def s3_def shift_in_def)

lemma reencode_tail1:
  fixes acc :: u32
  assumes "0 \<le> value_of c1" "0 \<le> value_of c2"
  defines "s2 \<equiv> shift_in (shift_in acc (value_of c1)) (value_of c2)"
  assumes "s2 AND mask 4 = 0"
  shows "letters [byte_above 4 s2] = [c1, c2]"
  using reencode [of acc "word_of_int (value_of c1)" "word_of_int (value_of c2)" 0 0]
    assms(1-2) leftover_bytes(1) [OF assms(4)] leftover_bytes(2) [of s2]
  by (simp add: value_word(1) sextet_eqI s2_def shift_in_def)

lemma decode_loop_canonical:
  "decode_loop ts acc 0 out = Some (acc', bits, out') \<Longrightarrow> acc' AND mask bits = 0 \<Longrightarrow>
   length ts mod 4 \<noteq> 1 \<Longrightarrow> \<exists>data. out' = out @ data \<and> ts = letters data"
proof (induction "length ts" arbitrary: ts acc out rule: less_induct)
  case less
  consider "ts = []" | c1 where "ts = [c1]" | c1 c2 where "ts = [c1, c2]"
    | c1 c2 c3 where "ts = [c1, c2, c3]"
    | c1 c2 c3 c4 rest where "ts = c1 # c2 # c3 # c4 # rest"
    by (metis neq_Nil_conv)
  then show ?case
  proof cases
    case 1
    with less.prems show ?thesis by auto
  next
    case 2
    with less.prems show ?thesis by simp
  next
    case (3 c1 c2)
    with less.prems reencode_tail1 [of c1 c2 acc] show ?thesis
      by (auto simp: Let_def simp del: letters.simps split: if_splits)
  next
    case (4 c1 c2 c3)
    with less.prems reencode_tail2 [of c1 c2 c3 acc] show ?thesis
      by (auto simp: Let_def simp del: letters.simps split: if_splits)
  next
    case (5 c1 c2 c3 c4 rest)
    define s2 where "s2 = shift_in (shift_in acc (value_of c1)) (value_of c2)"
    define s3 where "s3 = shift_in s2 (value_of c3)"
    define s4 where "s4 = shift_in s3 (value_of c4)"
    let ?abc = "[byte_above 4 s2, byte_above 2 s3, byte_above 0 s4]"
    from 5 less.prems(1) have v: "0 \<le> value_of c1" "0 \<le> value_of c2" "0 \<le> value_of c3" "0 \<le> value_of c4"
      and d: "decode_loop rest s4 0 (out @ ?abc) = Some (acc', bits, out')"
      by (auto simp: Let_def s2_def s3_def s4_def split: if_splits)
    have "length rest mod 4 \<noteq> 1" using 5 less.prems(3) by simp
    with less.hyps [OF _ d less.prems(2)] 5 obtain data
      where "out' = (out @ ?abc) @ data" "rest = letters data" by auto
    with 5 reencode_letters [OF v, of acc data, folded s2_def, folded s3_def, folded s4_def]
    show ?thesis by (intro exI [of _ "?abc @ data"]) (simp del: letters.simps)
  qed
qed

lemma mod4_unique: "(l + p) mod 4 = 0 \<Longrightarrow> (l + q) mod 4 = 0 \<Longrightarrow> p \<le> 2 \<Longrightarrow> q \<le> 2 \<Longrightarrow> p = (q::nat)"
  by presburger

lemma pad_le_2: "pad data \<le> 2"
  by (auto simp: pad_def)

lemma strip_padding_decompose:
  "t = strip_padding t @ replicate (length t - length (strip_padding t)) (CHR ''='')"
proof -
  let ?w = "takeWhile (\<lambda>c. c = CHR ''='') (rev t)" and ?d = "dropWhile (\<lambda>c. c = CHR ''='') (rev t)"
  have "\<forall>c \<in> set ?w. c = CHR ''=''" by (auto dest: set_takeWhileD)
  then have "?w = replicate (length ?w) (CHR ''='')" by (metis replicate_length_same)
  moreover have t: "t = rev ?d @ rev ?w"
    by (metis rev_append rev_rev_ident takeWhile_dropWhile_id)
  moreover have "length t - length (rev ?d) = length ?w"
    by (subst t) simp
  ultimately show ?thesis by (metis rev_replicate strip_padding_def)
qed

text \<open>
  Decoding undoes encoding, for byte strings of every length.
\<close>

theorem decode_encode: "base64_decode (base64_encode data) = Some data"
  by (rule base64.parse_print) simp

text \<open>
  The decoder is canonical. A text it accepts is the encoding of what it returned, either with
  its padding or with all of it left out; in particular no two texts of the same length decode to the
  same bytes.
\<close>

theorem decode_canonical:
  assumes "base64_decode t = Some data"
  shows "strip_padding t = strip_padding (base64_encode data) \<and>
    (t = strip_padding t \<or> t = base64_encode data)"
proof -
  let ?s = "strip_padding t" and ?p = "length t - length (strip_padding t)"
  from assms obtain acc bits where
    d: "decode_loop ?s 0 0 [] = Some (acc, bits, data)" and m: "acc AND mask bits = 0" and
    len: "length ?s mod 4 \<noteq> 1" and p: "?p \<le> 2" "0 < ?p \<Longrightarrow> (length ?s + ?p) mod 4 = 0"
    by (auto simp: base64_decode_def Let_def mask_eq_exp_minus_1 split: if_splits option.splits)
  from decode_loop_canonical [OF d m len] have s: "?s = letters data" by simp
  have t: "t = letters data @ replicate ?p (CHR ''='')"
    using strip_padding_decompose [of t] s by simp
  have "0 < ?p \<Longrightarrow> ?p = pad data"
    using mod4_unique [of "length ?s" ?p "pad data"] p s length_letters [of data] pad_le_2 by simp
  then have "t = ?s \<or> t = base64_encode data"
    using t s by (cases "?p = 0") (auto simp: base64_encode_letters)
  then show ?thesis
    using s by (simp add: base64_encode_letters strip_padding_replicate letters_no_padding)
qed

theorem decode_canonical_witness:
  "base64_decode ''TWE'' = Some [0x4d, 0x61] \<and> (''TWE'' = strip_padding ''TWE'' \<or> ''TWE'' = base64_encode [0x4d, 0x61])"
proof -
  have "base64_decode ''TWE'' = Some [0x4d, 0x61]" by code_simp
  with decode_canonical [OF this] show ?thesis by blast
qed

end
