(* ===== verification/Sdp.thy ===== *)
theory Sdp
  imports Base64 Sip_Message
begin

text \<open>
  \<^verbatim>\<open>src/sip/sdp.cpp\<close>: the session descriptions of offers and answers, with SDES keys. The lemmas
  show that what this side writes it would read back field by field, and what every description
  the parser accepts has: a port, an address and only keys of the right length.
\<close>

abbreviation (input) kPayloadPcma :: nat where "kPayloadPcma \<equiv> 8"
abbreviation (input) kPayloadTelephoneEvent :: nat where "kPayloadTelephoneEvent \<equiv> 101"
abbreviation (input) kSdesSuite :: string where "kSdesSuite \<equiv> ''AES_CM_128_HMAC_SHA1_80''"
abbreviation (input) kSdesKeyLength :: nat where "kSdesKeyLength \<equiv> 30"

record sdes_crypto =
  tag :: nat
  key :: "byte list"

record audio_description =
  address :: string
  port :: nat
  payload_types :: "nat list"
  remote_sends :: bool
  savp :: bool
  crypto :: "sdes_crypto list"

record local_crypto =
  lc_savp :: bool
  lc_tag :: nat
  lc_key :: "byte list"

definition connection_address :: "string \<Rightarrow> string option" where
  "connection_address value =
     (if \<not> starts_with value ''IN IP4 '' \<and> \<not> starts_with value ''IN IP6 '' then None
      else let address0 = trim (drop 7 value);
               address = before (find_char (CHR ''/'') address0) address0
           in if address = [] \<or> find_first_of ('' '' @ [TAB, CR, LF] @ ''[]'') address \<noteq> None then None
              else Some address)"

text \<open>What follows \<^verbatim>\<open>inline:\<close>: the key, and after a bar at most a lifetime.\<close>

definition parse_inline :: "string \<Rightarrow> byte list option" where
  "parse_inline rest =
     (let key_end = find_char (CHR ''|'') rest
      in if (case key_end of None \<Rightarrow> False
             | Some k \<Rightarrow> (let parameters = drop (k + 1) rest
                         in parameters = [] \<or> find_first_of ''|:'' parameters \<noteq> None))
         then None
         else case base64_decode (before key_end rest) of
           None \<Rightarrow> None
         | Some k \<Rightarrow> if length k \<noteq> kSdesKeyLength then None else Some k)"

definition parse_crypto :: "string \<Rightarrow> sdes_crypto option" where
  "parse_crypto value =
     (case find_char (CHR '' '') value of
        None \<Rightarrow> None
      | Some tag_end \<Rightarrow>
          (case parse_integer 32 (take tag_end value) of
             None \<Rightarrow> None
           | Some t \<Rightarrow>
               if 999999999 < t then None
               else let rest = trim (drop (tag_end + 1) value)
                    in case find_char (CHR '' '') rest of
                         None \<Rightarrow> None
                       | Some suite_end \<Rightarrow>
                           if take suite_end rest \<noteq> kSdesSuite then None
                           else let params = trim (drop (suite_end + 1) rest)
                                in if find_first_of ('' '' @ [TAB] @ '';'') params \<noteq> None then None
                                   else if \<not> starts_with params ''inline:'' then None
                                   else case parse_inline (drop 7 params) of
                                          None \<Rightarrow> None
                                        | Some k \<Rightarrow> Some \<lparr>tag = t, key = k\<rparr>))"

definition offers_pcma :: "audio_description \<Rightarrow> bool" where
  "offers_pcma a \<longleftrightarrow> kPayloadPcma \<in> set (payload_types a)"

text \<open>The payload types at the end of the m= line; words that are not a number under 256 are skipped.\<close>

function parse_payloads :: "string \<Rightarrow> nat list" where
  "parse_payloads rest =
     (if rest = [] then []
      else let space = find_char (CHR '' '') rest;
               more = parse_payloads (after space rest)
           in case parse_integer 8 (before space rest) of None \<Rightarrow> more | Some payload \<Rightarrow> payload # more)"
  by pat_completeness auto

termination parse_payloads
  by (relation "measure length") (auto simp: length_after_less)

declare parse_payloads.simps [simp del]

text \<open>The m= line of the audio stream, from behind \<^verbatim>\<open>audio\<close>.\<close>

definition parse_media :: "string \<Rightarrow> audio_description option" where
  "parse_media rest0 =
     (let port_end = find_char (CHR '' '') rest0
      in case (parse_integer 16 (before port_end rest0), port_end) of
           (Some p, Some e) \<Rightarrow>
             (let rest = drop (e + 1) rest0;
                  proto_end = find_char (CHR '' '') rest;
                  profile = before proto_end rest
              in if profile \<noteq> ''RTP/AVP'' \<and> profile \<noteq> ''RTP/SAVP'' then None
                 else Some \<lparr>address = [], port = p, payload_types = parse_payloads (after proto_end rest),
                            remote_sends = True, savp = (profile = ''RTP/SAVP''), crypto = []\<rparr>)
         | _ \<Rightarrow> None)"

text \<open>The local variables of \<^verbatim>\<open>parse_audio\<close>.\<close>

record sdp_state =
  session_address :: "string option"
  audio :: "audio_description option"
  media_address :: "string option"
  has_media_connection :: bool
  in_audio :: bool
  seen_audio :: bool

definition initial_sdp_state :: sdp_state where
  "initial_sdp_state = \<lparr>session_address = None, audio = None, media_address = None,
     has_media_connection = False, in_audio = False, seen_audio = False\<rparr>"

definition parse_attribute :: "string \<Rightarrow> audio_description \<Rightarrow> audio_description" where
  "parse_attribute value a =
     (let a' = (if value = ''inactive'' \<or> value = ''recvonly'' then a\<lparr>remote_sends := False\<rparr> else a)
      in if starts_with value ''crypto:''
         then case parse_crypto (drop 7 value) of None \<Rightarrow> a' | Some c \<Rightarrow> a'\<lparr>crypto := crypto a' @ [c]\<rparr>
         else a')"

definition parse_connection :: "string \<Rightarrow> sdp_state \<Rightarrow> sdp_state" where
  "parse_connection value s =
     (if in_audio s then s\<lparr>has_media_connection := True, media_address := connection_address value\<rparr>
      else if \<not> seen_audio s then s\<lparr>session_address := connection_address value\<rparr>
      else s)"

text \<open>
  The loop over the lines. \<^term>\<open>None\<close> is the early return of nothing; a second m= line after the
  audio stream breaks out of the loop.
\<close>

fun parse_sdp_lines :: "string list \<Rightarrow> sdp_state \<Rightarrow> sdp_state option" where
  "parse_sdp_lines [] s = Some s"
| "parse_sdp_lines (line # lines) s =
     (if length line < 2 \<or> line ! 1 \<noteq> CHR ''='' then parse_sdp_lines lines s
      else let type = line ! 0; value = drop 2 line
           in if type = CHR ''m'' then
                (if seen_audio s then Some s
                 else if \<not> starts_with value ''audio '' then parse_sdp_lines lines (s\<lparr>in_audio := False\<rparr>)
                 else case parse_media (drop 6 value) of
                        None \<Rightarrow> None
                      | Some a \<Rightarrow> parse_sdp_lines lines (s\<lparr>in_audio := True, seen_audio := True, audio := Some a\<rparr>))
              else if type = CHR ''c'' then parse_sdp_lines lines (parse_connection value s)
              else if type = CHR ''a'' \<and> in_audio s
              then parse_sdp_lines lines (s\<lparr>audio := map_option (parse_attribute value) (audio s)\<rparr>)
              else parse_sdp_lines lines s)"

definition choose_address :: "sdp_state \<Rightarrow> audio_description option" where
  "choose_address s =
     (case audio s of
        None \<Rightarrow> None
      | Some a \<Rightarrow>
          if port a = 0 then None
          else if has_media_connection s \<and> media_address s = None then None
          else case media_address s of
            Some m \<Rightarrow> Some (a\<lparr>address := m\<rparr>)
          | None \<Rightarrow>
              (case session_address s of Some m \<Rightarrow> Some (a\<lparr>address := m\<rparr>) | None \<Rightarrow> None))"

definition parse_audio :: "string \<Rightarrow> audio_description option" where
  "parse_audio sdp =
     (case parse_sdp_lines (split_lines sdp) initial_sdp_state of
        None \<Rightarrow> None
      | Some s \<Rightarrow> choose_address s)"

definition build_audio_sdp :: "string \<Rightarrow> nat \<Rightarrow> nat \<Rightarrow> nat \<Rightarrow> local_crypto option \<Rightarrow> string" where
  "build_audio_sdp ip media_port session_id version keying =
     (let family = (if find_char (CHR '':'') ip = None then ''IP4'' else ''IP6'');
          payloads = to_string kPayloadPcma @ '' '' @ to_string kPayloadTelephoneEvent;
          event = to_string kPayloadTelephoneEvent;
          profile = (case keying of Some c \<Rightarrow> if lc_savp c then ''RTP/SAVP'' else ''RTP/AVP'' | None \<Rightarrow> ''RTP/AVP'');
          keys = (case keying of
                    None \<Rightarrow> []
                  | Some c \<Rightarrow> ''a=crypto:'' @ to_string (lc_tag c) @ '' '' @ kSdesSuite @
                              '' inline:'' @ base64_encode (lc_key c) @ CRLF)
      in ''v=0'' @ CRLF @
         ''o=- '' @ to_string session_id @ '' '' @ to_string version @ '' IN '' @ family @ '' '' @ ip @ CRLF @
         ''s=KetPhone'' @ CRLF @
         ''c=IN '' @ family @ '' '' @ ip @ CRLF @
         ''t=0 0'' @ CRLF @
         ''m=audio '' @ to_string media_port @ '' '' @ profile @ '' '' @ payloads @ CRLF @
         ''a=rtpmap:8 PCMA/8000'' @ CRLF @
         ''a=rtpmap:'' @ event @ '' telephone-event/8000'' @ CRLF @
         ''a=fmtp:'' @ event @ '' 0-16'' @ CRLF @
         ''a=ptime:20'' @ CRLF @
         ''a=sendrecv'' @ CRLF @ keys)"

section \<open>What the parser accepts\<close>

lemma parse_inline_length: "parse_inline rest = Some k \<Longrightarrow> length k = kSdesKeyLength"
  by (auto simp: parse_inline_def Let_def split: if_splits option.splits)

lemma parse_crypto_fields:
  "parse_crypto value = Some c \<Longrightarrow> length (key c) = kSdesKeyLength \<and> tag c \<le> 999999999"
  by (auto simp: parse_crypto_def Let_def parse_inline_length split: if_splits option.splits)

lemma connection_address_fields:
  "connection_address value = Some a \<Longrightarrow> a \<noteq> [] \<and> set a \<inter> set ('' '' @ [TAB, CR, LF] @ ''[]/'') = {}"
proof -
  assume a: "connection_address value = Some a"
  let ?t = "trim (drop 7 value)"
  from a have "a = before (find_char (CHR ''/'') ?t) ?t" and "a \<noteq> []"
    and "find_first_of ('' '' @ [TAB, CR, LF] @ ''[]'') a = None"
    by (auto simp: connection_address_def Let_def split: if_splits)
  moreover from this(1) have "CHR ''/'' \<notin> set a"
    by (cases "find_char (CHR ''/'') ?t") (auto simp: find_idx_None_iff dest: find_idx_take)
  ultimately show ?thesis by (auto simp: find_idx_None_iff)
qed

lemma parse_payloads_bound: "n \<in> set (parse_payloads rest) \<Longrightarrow> n < 256"
proof (induction rest rule: parse_payloads.induct)
  case (1 rest)
  then show ?case
    by (subst (asm) parse_payloads.simps)
      (auto simp: Let_def split: if_splits option.splits dest: parse_integer_bound)
qed

text \<open>What is true of the audio stream while its lines are read.\<close>

definition audio_ok :: "audio_description \<Rightarrow> bool" where
  "audio_ok a \<longleftrightarrow>
     port a < 2 ^ 16 \<and> list_all (\<lambda>n. n < 256) (payload_types a) \<and>
     list_all (\<lambda>c. length (key c) = kSdesKeyLength \<and> tag c \<le> 999999999) (crypto a)"

definition address_ok :: "string \<Rightarrow> bool" where
  "address_ok a \<longleftrightarrow> a \<noteq> [] \<and> set a \<inter> set ('' '' @ [TAB, CR, LF] @ ''[]/'') = {}"

definition sdp_state_ok :: "sdp_state \<Rightarrow> bool" where
  "sdp_state_ok s \<longleftrightarrow>
     pred_option audio_ok (audio s) \<and> pred_option address_ok (session_address s) \<and>
     pred_option address_ok (media_address s)"

lemma parse_media_ok: "parse_media rest = Some a \<Longrightarrow> audio_ok a"
  by (auto simp: parse_media_def audio_ok_def Let_def list_all_iff parse_payloads_bound
      split: if_splits option.splits dest: parse_integer_bound)

lemma parse_attribute_ok: "audio_ok a \<Longrightarrow> audio_ok (parse_attribute value a)"
  by (auto simp: parse_attribute_def audio_ok_def Let_def split: option.splits dest: parse_crypto_fields)

lemma connection_address_ok: "pred_option address_ok (connection_address value)"
  using connection_address_fields by (cases "connection_address value") (auto simp: address_ok_def)

lemma parse_connection_ok: "sdp_state_ok s \<Longrightarrow> sdp_state_ok (parse_connection value s)"
  by (auto simp: parse_connection_def sdp_state_ok_def connection_address_ok)

lemma parse_sdp_lines_ok:
  "sdp_state_ok s \<Longrightarrow> parse_sdp_lines lines s = Some s' \<Longrightarrow> sdp_state_ok s'"
proof (induction lines arbitrary: s)
  case Nil
  then show ?case by simp
next
  case (Cons line lines)
  have "sdp_state_ok (s\<lparr>audio := map_option (parse_attribute (drop 2 line)) (audio s)\<rparr>)"
    using Cons.prems(1) by (cases "audio s") (auto simp: sdp_state_ok_def parse_attribute_ok)
  moreover have "sdp_state_ok (s\<lparr>in_audio := False\<rparr>)"
    using Cons.prems(1) by (simp add: sdp_state_ok_def)
  moreover have "sdp_state_ok (s\<lparr>in_audio := True, seen_audio := True, audio := Some a\<rparr>)"
    if "parse_media v = Some a" for a v
    using Cons.prems(1) parse_media_ok [OF that] by (simp add: sdp_state_ok_def)
  ultimately show ?case
    using Cons.prems parse_connection_ok [OF Cons.prems(1)]
    by (auto simp: Let_def split: if_splits option.splits intro: Cons.IH)
qed

lemma parse_audio_ok:
  assumes "parse_audio sdp = Some a"
  shows "audio_ok a \<and> 0 < port a \<and> address_ok (address a)"
proof -
  from assms obtain s where "parse_sdp_lines (split_lines sdp) initial_sdp_state = Some s"
    and c: "choose_address s = Some a"
    by (auto simp: parse_audio_def split: option.splits)
  moreover have "sdp_state_ok initial_sdp_state"
    by (simp add: sdp_state_ok_def initial_sdp_state_def)
  ultimately have "sdp_state_ok s" using parse_sdp_lines_ok by blast
  with c show ?thesis
    by (auto simp: choose_address_def sdp_state_ok_def audio_ok_def split: option.splits if_splits)
qed

section \<open>What this side writes is read back\<close>

lemma base64_no_special:
  assumes "c \<in> set ('' |:;'' @ [TAB, CR, LF])"
  shows "c \<notin> set (base64_encode data)"
proof -
  have "set ('' |:;'' @ [TAB, CR, LF]) \<inter> (set kAlphabet \<union> {CHR ''=''}) = {}"
    by (simp add: kAlphabet_def)
  with base64_letters [of data] assms show ?thesis by blast
qed

lemma parse_inline_encode:
  assumes "length k = kSdesKeyLength"
  shows "parse_inline (base64_encode k) = Some k"
proof -
  have "find_char (CHR ''|'') (base64_encode k) = None"
    using base64_no_special [of "CHR ''|''" k] by (auto simp: find_idx_None_iff)
  with assms show ?thesis by (simp add: parse_inline_def base64_decode_encode)
qed

lemma parse_crypto_line:
  assumes t: "t \<le> 999999999" and k: "length k = kSdesKeyLength"
  shows "parse_crypto (to_string t @ '' '' @ kSdesSuite @ '' inline:'' @ base64_encode k) =
    Some \<lparr>tag = t, key = k\<rparr>"
proof -
  let ?key = "''inline:'' @ base64_encode k"
  let ?rest = "kSdesSuite @ '' '' @ ?key"
  have blank: "\<forall>c \<in> set ?key. \<not> is_trail c"
    using base64_no_special [of _ k] by (auto simp: is_trail_def)
  have trim_key: "trim ?key = ?key"
    by (rule trim_id [OF trimmedI_no_blank [OF blank]])
  have "last ?rest = last ?key" by simp
  moreover have "\<not> is_trail (last ?key)"
    using blank last_in_set [of ?key] by blast
  ultimately have trim_rest: "trim ?rest = ?rest"
    by (intro trim_id) (simp add: trimmed_def is_lead_def)
  have tag: "find_char (CHR '' '') (to_string t @ CHR '' '' # ?rest) = Some (length (to_string t))"
    by (rule find_idx_split) (use to_string_not_in [of "CHR '' ''" t] in \<open>auto simp: is_digit_def\<close>)
  have suite: "find_char (CHR '' '') (kSdesSuite @ CHR '' '' # ?key) = Some 23"
    by simp
  have none: "find_first_of ('' '' @ [TAB] @ '';'') ?key = None"
    using base64_no_special [of _ k] by (auto simp: find_idx_None_iff)
  have "parse_integer 32 (to_string t) = Some t"
    using t by (intro parse_integer_to_string) simp
  with t tag suite none trim_rest trim_key parse_inline_encode [OF k] show ?thesis
    by (simp add: parse_crypto_def)
qed

definition family_of :: "string \<Rightarrow> string" where
  "family_of ip = (if find_char (CHR '':'') ip = None then ''IP4'' else ''IP6'')"

definition profile_of :: "local_crypto option \<Rightarrow> string" where
  "profile_of keying = (case keying of Some c \<Rightarrow> if lc_savp c then ''RTP/SAVP'' else ''RTP/AVP'' | None \<Rightarrow> ''RTP/AVP'')"

definition key_lines :: "local_crypto option \<Rightarrow> string list" where
  "key_lines keying = (case keying of None \<Rightarrow> []
     | Some c \<Rightarrow> [''a=crypto:'' @ to_string (lc_tag c) @ '' '' @ kSdesSuite @ '' inline:'' @ base64_encode (lc_key c)])"

definition sdp_lines :: "string \<Rightarrow> nat \<Rightarrow> nat \<Rightarrow> nat \<Rightarrow> local_crypto option \<Rightarrow> string list" where
  "sdp_lines ip p sid ver keying =
     [''v=0'', ''o=- '' @ to_string sid @ '' '' @ to_string ver @ '' IN '' @ family_of ip @ '' '' @ ip,
      ''s=KetPhone'', ''c=IN '' @ family_of ip @ '' '' @ ip, ''t=0 0'',
      ''m=audio '' @ to_string p @ '' '' @ profile_of keying @ '' 8 101'',
      ''a=rtpmap:8 PCMA/8000'', ''a=rtpmap:101 telephone-event/8000'', ''a=fmtp:101 0-16'',
      ''a=ptime:20'', ''a=sendrecv''] @ key_lines keying"

definition keying_ok :: "local_crypto option \<Rightarrow> bool" where
  "keying_ok keying = pred_option (\<lambda>c. length (lc_key c) = kSdesKeyLength \<and> lc_tag c \<le> 999999999) keying"

lemma to_string_8: "to_string 8 = ''8''" and to_string_101: "to_string 101 = ''101''"
  by code_simp+

lemma build_audio_sdp_lines: "build_audio_sdp ip p sid ver keying = join_lines (sdp_lines ip p sid ver keying)"
  by (simp add: build_audio_sdp_def sdp_lines_def family_of_def profile_of_def key_lines_def to_string_8
      to_string_101 split: option.splits)

lemma plain_base64 [simp]: "plain_line (base64_encode data)"
  using base64_no_special [of CR data] base64_no_special [of LF data] by (simp add: plain_line_def)

lemma sdp_lines_plain:
  assumes "address_ok ip"
  shows "list_all plain_line (sdp_lines ip p sid ver keying)"
proof -
  have "plain_line ip" using assms by (auto simp: address_ok_def plain_line_def)
  then show ?thesis
    by (simp add: sdp_lines_def family_of_def profile_of_def key_lines_def split: option.splits)
qed

lemma connection_address_family:
  assumes "address_ok ip"
  shows "connection_address (''IN '' @ family_of ip @ '' '' @ ip) = Some ip"
proof -
  have "trim ip = ip"
    using assms by (intro trim_id trimmedI_no_blank) (auto simp: address_ok_def is_trail_def)
  moreover have "find_char (CHR ''/'') ip = None" and "find_first_of ('' '' @ [TAB, CR, LF] @ ''[]'') ip = None"
    using assms by (auto simp: address_ok_def find_idx_None_iff)
  ultimately show ?thesis
    using assms by (simp add: connection_address_def family_of_def address_ok_def)
qed

lemma payloads_8_101: "parse_payloads ''8 101'' = [8, 101]"
  by code_simp

lemma parse_media_line:
  assumes "p < 2 ^ 16"
  shows "parse_media (to_string p @ '' '' @ profile_of keying @ '' 8 101'') =
    Some \<lparr>address = [], port = p, payload_types = [8, 101], remote_sends = True,
          savp = (case keying of None \<Rightarrow> False | Some c \<Rightarrow> lc_savp c), crypto = []\<rparr>"
proof -
  let ?rest = "profile_of keying @ '' 8 101''"
  have "find_char (CHR '' '') (to_string p @ CHR '' '' # ?rest) = Some (length (to_string p))"
    by (rule find_idx_split) (use to_string_not_in [of "CHR '' ''" p] in \<open>auto simp: is_digit_def\<close>)
  moreover have "find_char (CHR '' '') ?rest = Some (length (profile_of keying))"
    by (simp add: profile_of_def split: option.splits)
  moreover have "profile_of keying = ''RTP/AVP'' \<or> profile_of keying = ''RTP/SAVP''"
    by (simp add: profile_of_def split: option.splits)
  moreover have "(profile_of keying = ''RTP/SAVP'') = (case keying of None \<Rightarrow> False | Some c \<Rightarrow> lc_savp c)"
    by (simp add: profile_of_def split: option.splits)
  ultimately show ?thesis
    using parse_integer_to_string [OF assms] by (auto simp: parse_media_def payloads_8_101 Let_def)
qed

lemma parse_sdp_lines_built:
  assumes "address_ok ip" and "p < 2 ^ 16" and "keying_ok keying"
  shows "parse_sdp_lines (sdp_lines ip p sid ver keying) initial_sdp_state =
    Some \<lparr>session_address = Some ip,
          audio = Some \<lparr>address = [], port = p, payload_types = [8, 101], remote_sends = True,
                   savp = (case keying of None \<Rightarrow> False | Some c \<Rightarrow> lc_savp c),
                   crypto = (case keying of None \<Rightarrow> [] | Some c \<Rightarrow> [\<lparr>tag = lc_tag c, key = lc_key c\<rparr>])\<rparr>,
          media_address = None, has_media_connection = False, in_audio = True, seen_audio = True\<rparr>"
proof -
  note parts = connection_address_family [OF assms(1), simplified] parse_media_line [OF assms(2), simplified]
  show ?thesis
  proof (cases keying)
    case None
    then show ?thesis
      using parts
      by (simp add: sdp_lines_def key_lines_def initial_sdp_state_def parse_connection_def parse_attribute_def)
  next
    case (Some c)
    with assms(3) have "parse_crypto (to_string (lc_tag c) @ '' '' @ kSdesSuite @ '' inline:'' @ base64_encode (lc_key c)) =
        Some \<lparr>tag = lc_tag c, key = lc_key c\<rparr>"
      by (intro parse_crypto_line) (auto simp: keying_ok_def)
    with Some show ?thesis
      using parts
      by (simp add: sdp_lines_def key_lines_def initial_sdp_state_def parse_connection_def parse_attribute_def)
  qed
qed

lemma parse_audio_built:
  assumes "address_ok ip" and "0 < p" and "p < 2 ^ 16" and "keying_ok keying"
  shows "parse_audio (build_audio_sdp ip p sid ver keying) =
    Some \<lparr>address = ip, port = p, payload_types = [8, 101], remote_sends = True,
          savp = (case keying of None \<Rightarrow> False | Some c \<Rightarrow> lc_savp c),
          crypto = (case keying of None \<Rightarrow> [] | Some c \<Rightarrow> [\<lparr>tag = lc_tag c, key = lc_key c\<rparr>])\<rparr>"
  using assms split_lines_join [OF sdp_lines_plain [OF assms(1)]] parse_sdp_lines_built [OF assms(1,3,4)]
  by (simp add: parse_audio_def build_audio_sdp_lines choose_address_def)

section \<open>Properties\<close>

text \<open>
  C27: the session description this side writes, as an offer or an answer, with or without SDES, is
  read back by the parser with the same address, port, profile and key.
\<close>

theorem parse_built_sdp:
  assumes "address_ok ip" and "0 < p" and "p < 2 ^ 16" and "keying_ok keying"
  shows "parse_audio (build_audio_sdp ip p sid ver keying) =
    Some \<lparr>address = ip, port = p, payload_types = [8, 101], remote_sends = True,
          savp = (case keying of None \<Rightarrow> False | Some c \<Rightarrow> lc_savp c),
          crypto = (case keying of None \<Rightarrow> [] | Some c \<Rightarrow> [\<lparr>tag = lc_tag c, key = lc_key c\<rparr>])\<rparr>"
  by (rule parse_audio_built [OF assms])

theorem parse_built_sdp_witness:
  "parse_audio (build_audio_sdp ''fd00::7'' 40000 1 1 (Some \<lparr>lc_savp = True, lc_tag = 1, lc_key = replicate 30 7\<rparr>)) =
    Some \<lparr>address = ''fd00::7'', port = 40000, payload_types = [8, 101], remote_sends = True,
          savp = True, crypto = [\<lparr>tag = 1, key = replicate 30 7\<rparr>]\<rparr>"
  using parse_built_sdp [of "''fd00::7''" 40000 "Some \<lparr>lc_savp = True, lc_tag = 1, lc_key = replicate 30 7\<rparr>" 1 1]
  by (simp add: address_ok_def keying_ok_def)

text \<open>
  A session description the parser accepts, whoever wrote it, has a port from 1 to 65535, an
  address that can go to the resolver (not empty, no blanks, brackets or slash), payload types under
  256, and only SDES keys of the thirty bytes the suite needs.
\<close>

theorem parse_audio_usable:
  assumes "parse_audio sdp = Some a"
  shows "0 < port a \<and> port a < 2 ^ 16 \<and> address_ok (address a) \<and>
    list_all (\<lambda>n. n < 256) (payload_types a) \<and>
    list_all (\<lambda>c. length (key c) = kSdesKeyLength \<and> tag c \<le> 999999999) (crypto a)"
  using parse_audio_ok [OF assms] by (simp add: audio_ok_def)

definition sample_offer :: string where
  "sample_offer = build_audio_sdp ''192.0.2.1'' 10000 7 1 (Some \<lparr>lc_savp = False, lc_tag = 2, lc_key = map of_nat [1..<31]\<rparr>)"

theorem parse_audio_usable_witness:
  "case parse_audio sample_offer of None \<Rightarrow> False
   | Some a \<Rightarrow> port a < 2 ^ 16 \<and> list_all (\<lambda>c. length (key c) = kSdesKeyLength \<and> tag c \<le> 999999999) (crypto a)"
proof -
  have "parse_audio sample_offer \<noteq> None"
    by (simp add: sample_offer_def parse_audio_built address_ok_def keying_ok_def)
  then obtain a where a: "parse_audio sample_offer = Some a" by blast
  show ?thesis unfolding a using parse_audio_usable [OF a] by simp
qed

section \<open>A connection line of another stream\<close>

text \<open>
  A \<^verbatim>\<open>c=\<close> line below the \<^verbatim>\<open>m=\<close> line of a stream belongs to this stream (RFC 4566 section 5.7). When a
  video stream comes before the audio stream, its line is taken in the place of the one of the session.
\<close>

lemma video_connection_taken:
  "map_option address (parse_audio (join_lines
     [''v=0'', ''o=- 1 1 IN IP4 192.0.2.1'', ''s=-'', ''c=IN IP4 192.0.2.1'', ''t=0 0'',
      ''m=video 5000 RTP/AVP 96'', ''c=IN IP4 198.51.100.9'', ''m=audio 4000 RTP/AVP 8''])) =
   Some ''198.51.100.9''"
  by code_simp

end
