(* ===== verification/Md5.thy ===== *)
theory Md5
  imports Prelude
begin

text \<open>
  The MD5 digest of \<^verbatim>\<open>src/sip/md5.cpp\<close>, and its equality with a definition that follows the
  text of RFC 1321. The file digests the whole blocks of the input in place, copies the rest into a
  tail of one or two blocks, and rotates the four registers after every operation; the RFC pads the
  message first and names the register each operation assigns. \<^verbatim>\<open>std::array\<close> of four words is a
  list, \<^verbatim>\<open>data + offset\<close> the rest of the bytes.
\<close>

section \<open>The code\<close>

definition kSine :: "u32 list" where
  "kSine = [
    0xd76aa478, 0xe8c7b756, 0x242070db, 0xc1bdceee, 0xf57c0faf, 0x4787c62a, 0xa8304613, 0xfd469501,
    0x698098d8, 0x8b44f7af, 0xffff5bb1, 0x895cd7be, 0x6b901122, 0xfd987193, 0xa679438e, 0x49b40821,
    0xf61e2562, 0xc040b340, 0x265e5a51, 0xe9b6c7aa, 0xd62f105d, 0x02441453, 0xd8a1e681, 0xe7d3fbc8,
    0x21e1cde6, 0xc33707d6, 0xf4d50d87, 0x455a14ed, 0xa9e3e905, 0xfcefa3f8, 0x676f02d9, 0x8d2a4c8a,
    0xfffa3942, 0x8771f681, 0x6d9d6122, 0xfde5380c, 0xa4beea44, 0x4bdecfa9, 0xf6bb4b60, 0xbebfbc70,
    0x289b7ec6, 0xeaa127fa, 0xd4ef3085, 0x04881d05, 0xd9d4d039, 0xe6db99e5, 0x1fa27cf8, 0xc4ac5665,
    0xf4292244, 0x432aff97, 0xab9423a7, 0xfc93a039, 0x655b59c3, 0x8f0ccc92, 0xffeff47d, 0x85845dd1,
    0x6fa87e4f, 0xfe2ce6e0, 0xa3014314, 0x4e0811a1, 0xf7537e82, 0xbd3af235, 0x2ad7d2bb, 0xeb86d391]"

definition kShift :: "nat list" where
  "kShift = [
    7, 12, 17, 22, 7, 12, 17, 22, 7, 12, 17, 22, 7, 12, 17, 22,
    5, 9,  14, 20, 5, 9,  14, 20, 5, 9,  14, 20, 5, 9,  14, 20,
    4, 11, 16, 23, 4, 11, 16, 23, 4, 11, 16, 23, 4, 11, 16, 23,
    6, 10, 15, 21, 6, 10, 15, 21, 6, 10, 15, 21, 6, 10, 15, 21]"

definition rotate_left :: "u32 \<Rightarrow> nat \<Rightarrow> u32" where
  "rotate_left x bits = (push_bit bits x OR drop_bit (32 - bits) x)"

type_synonym registers = "u32 \<times> u32 \<times> u32 \<times> u32"

definition block_words :: "byte list \<Rightarrow> u32 list" where
  "block_words block =
     map (\<lambda>i. ucast (block ! (i * 4)) OR push_bit 8 (ucast (block ! (i * 4 + 1))) OR
       push_bit 16 (ucast (block ! (i * 4 + 2))) OR push_bit 24 (ucast (block ! (i * 4 + 3)))) [0..<16]"

definition mix :: "nat \<Rightarrow> u32 \<Rightarrow> u32 \<Rightarrow> u32 \<Rightarrow> u32 \<times> nat" where
  "mix i b c d =
     (if i < 16 then ((b AND c) OR (NOT b AND d), i)
      else if i < 32 then ((d AND b) OR (NOT d AND c), (5 * i + 1) mod 16)
      else if i < 48 then (b XOR c XOR d, (3 * i + 5) mod 16)
      else (c XOR (b OR NOT d), (7 * i) mod 16))"

definition round_step :: "u32 list \<Rightarrow> nat \<Rightarrow> registers \<Rightarrow> registers" where
  "round_step ws i r = (case r of (a, b, c, d) \<Rightarrow>
     (case mix i b c d of (f, g) \<Rightarrow>
        (d, b + rotate_left (a + f + kSine ! i + ws ! g) (kShift ! i), b, c)))"

definition transform :: "u32 list \<Rightarrow> byte list \<Rightarrow> u32 list" where
  "transform state block =
     (case fold (round_step (block_words block)) [0..<64] (state ! 0, state ! 1, state ! 2, state ! 3) of
        (a, b, c, d) \<Rightarrow> [state ! 0 + a, state ! 1 + b, state ! 2 + c, state ! 3 + d])"

text \<open>The loop over the whole blocks of the input, which leaves what is after them.\<close>

fun whole_blocks :: "u32 list \<Rightarrow> byte list \<Rightarrow> u32 list \<times> byte list" where
  "whole_blocks state data =
     (if 64 \<le> length data then whole_blocks (transform state (take 64 data)) (drop 64 data)
      else (state, data))"

declare whole_blocks.simps [simp del]

text \<open>The buffer of two blocks with the rest, the mark and the length in bits.\<close>

definition put_length :: "u64 \<Rightarrow> nat \<Rightarrow> byte list \<Rightarrow> byte list" where
  "put_length bits tail_size tail =
     fold (\<lambda>i tail. tail[tail_size - 8 + i := ucast (drop_bit (8 * i) bits)]) [0..<8] tail"

definition tail_size_of :: "byte list \<Rightarrow> nat" where
  "tail_size_of rest = (if length rest < 56 then 64 else 128)"

definition tail_of :: "byte list \<Rightarrow> u64 \<Rightarrow> byte list" where
  "tail_of rest bits =
     (let tail = replicate 128 0;
          tail = rest @ drop (length rest) tail;
          tail = tail[length rest := 0x80]
      in put_length bits (tail_size_of rest) tail)"

definition kHex :: string where
  "kHex = ''0123456789abcdef''"

definition is_hex :: "string \<Rightarrow> bool" where
  "is_hex s \<longleftrightarrow> set s \<subseteq> set kHex"

definition hex_digit :: "byte \<Rightarrow> char" where
  "hex_digit n = kHex ! unat n"

definition hex_byte :: "byte \<Rightarrow> string" where
  "hex_byte x = [hex_digit (drop_bit 4 x), hex_digit (x AND 0x0f)]"

definition state_hex :: "u32 list \<Rightarrow> string" where
  "state_hex state =
     concat (map (\<lambda>i. hex_byte (ucast (drop_bit (8 * (i mod 4)) (state ! (i div 4))))) [0..<16])"

definition data_of :: "string \<Rightarrow> byte list" where
  "data_of s = map of_char s"

definition md5_start :: "u32 list" where
  "md5_start = [0x67452301, 0xefcdab89, 0x98badcfe, 0x10325476]"

definition md5_hex :: "string \<Rightarrow> string" where
  "md5_hex input =
     (case whole_blocks md5_start (data_of input) of (state, rest) \<Rightarrow>
        let tail = tail_of rest (of_nat (length input) * 8);
            blocks = (if tail_size_of rest = 64 then [0] else [0, 64])
        in state_hex (fold (\<lambda>block state. transform state (drop block tail)) blocks state))"

section \<open>The definition of RFC 1321\<close>

text \<open>Section 3.4: the four functions, and \<^verbatim>\<open>[abcd k s i]\<close> with its tables.\<close>

definition rfc_F :: "u32 \<Rightarrow> u32 \<Rightarrow> u32 \<Rightarrow> u32" where "rfc_F x y z = (x AND y) OR (NOT x AND z)"
definition rfc_G :: "u32 \<Rightarrow> u32 \<Rightarrow> u32 \<Rightarrow> u32" where "rfc_G x y z = (x AND z) OR (y AND NOT z)"
definition rfc_H :: "u32 \<Rightarrow> u32 \<Rightarrow> u32 \<Rightarrow> u32" where "rfc_H x y z = x XOR y XOR z"
definition rfc_I :: "u32 \<Rightarrow> u32 \<Rightarrow> u32 \<Rightarrow> u32" where "rfc_I x y z = y XOR (x OR NOT z)"

definition rfc_op :: "(u32 \<Rightarrow> u32 \<Rightarrow> u32 \<Rightarrow> u32) \<Rightarrow> u32 list \<Rightarrow> u32 \<Rightarrow> u32 \<Rightarrow> u32 \<Rightarrow> u32 \<Rightarrow> nat \<Rightarrow> nat \<Rightarrow> nat \<Rightarrow> u32" where
  "rfc_op f X a b c d k s i = b + rotate_left (a + f b c d + X ! k + kSine ! (i - 1)) s"

text \<open>One line of four operations: \<^verbatim>\<open>[ABCD ..] [DABC ..] [CDAB ..] [BCDA ..]\<close>.\<close>

definition rfc_line ::
  "(u32 \<Rightarrow> u32 \<Rightarrow> u32 \<Rightarrow> u32) \<Rightarrow> u32 list \<Rightarrow> nat list \<Rightarrow> nat list \<Rightarrow> nat \<Rightarrow> registers \<Rightarrow> registers" where
  "rfc_line f X ks ss i r = (case r of (A, B, C, D) \<Rightarrow>
     let A = rfc_op f X A B C D (ks ! 0) (ss ! 0) i;
         D = rfc_op f X D A B C (ks ! 1) (ss ! 1) (i + 1);
         C = rfc_op f X C D A B (ks ! 2) (ss ! 2) (i + 2);
         B = rfc_op f X B C D A (ks ! 3) (ss ! 3) (i + 3)
     in (A, B, C, D))"

definition rfc_rounds :: "u32 list \<Rightarrow> registers \<Rightarrow> registers" where
  "rfc_rounds X r =
    (let r = rfc_line rfc_F X [0, 1, 2, 3] [7, 12, 17, 22] 1 r;
         r = rfc_line rfc_F X [4, 5, 6, 7] [7, 12, 17, 22] 5 r;
         r = rfc_line rfc_F X [8, 9, 10, 11] [7, 12, 17, 22] 9 r;
         r = rfc_line rfc_F X [12, 13, 14, 15] [7, 12, 17, 22] 13 r;
         r = rfc_line rfc_G X [1, 6, 11, 0] [5, 9, 14, 20] 17 r;
         r = rfc_line rfc_G X [5, 10, 15, 4] [5, 9, 14, 20] 21 r;
         r = rfc_line rfc_G X [9, 14, 3, 8] [5, 9, 14, 20] 25 r;
         r = rfc_line rfc_G X [13, 2, 7, 12] [5, 9, 14, 20] 29 r;
         r = rfc_line rfc_H X [5, 8, 11, 14] [4, 11, 16, 23] 33 r;
         r = rfc_line rfc_H X [1, 4, 7, 10] [4, 11, 16, 23] 37 r;
         r = rfc_line rfc_H X [13, 0, 3, 6] [4, 11, 16, 23] 41 r;
         r = rfc_line rfc_H X [9, 12, 15, 2] [4, 11, 16, 23] 45 r;
         r = rfc_line rfc_I X [0, 7, 14, 5] [6, 10, 15, 21] 49 r;
         r = rfc_line rfc_I X [12, 3, 10, 1] [6, 10, 15, 21] 53 r;
         r = rfc_line rfc_I X [8, 15, 6, 13] [6, 10, 15, 21] 57 r;
         r = rfc_line rfc_I X [4, 11, 2, 9] [6, 10, 15, 21] 61 r
     in r)"

definition rfc_block :: "u32 list \<Rightarrow> byte list \<Rightarrow> u32 list" where
  "rfc_block state block =
     (case rfc_rounds (block_words block) (state ! 0, state ! 1, state ! 2, state ! 3) of
        (a, b, c, d) \<Rightarrow> [state ! 0 + a, state ! 1 + b, state ! 2 + c, state ! 3 + d])"

text \<open>
  Sections 3.1 and 3.2: a one bit, zero bits up to 448 modulo 512, and the length in bits as 64
  bits, the low byte first.
\<close>

definition rfc_pad :: "byte list \<Rightarrow> byte list" where
  "rfc_pad m = m @ [0x80] @ replicate ((119 - length m mod 64) mod 64) 0 @
     map (\<lambda>i. of_nat (8 * length m div 256 ^ i)) [0..<8]"

fun rfc_digest :: "u32 list \<Rightarrow> byte list \<Rightarrow> u32 list" where
  "rfc_digest state m =
     (if length m < 64 then state else rfc_digest (rfc_block state (take 64 m)) (drop 64 m))"

declare rfc_digest.simps [simp del]

definition rfc_md5 :: "byte list \<Rightarrow> u32 list" where
  "rfc_md5 m = rfc_digest md5_start (rfc_pad m)"

section \<open>Lemmas\<close>

text \<open>One operation of the loop is one of the RFC, with the registers rotated.\<close>

lemma step_F:
  "i < 16 \<Longrightarrow> round_step X i (a, b, c, d) = (d, rfc_op rfc_F X a b c d i (kShift ! i) (Suc i), b, c)"
  by (simp add: round_step_def mix_def rfc_op_def rfc_F_def ac_simps)

lemma step_G:
  "16 \<le> i \<Longrightarrow> i < 32 \<Longrightarrow>
     round_step X i (a, b, c, d) = (d, rfc_op rfc_G X a b c d ((5 * i + 1) mod 16) (kShift ! i) (Suc i), b, c)"
  by (simp add: round_step_def mix_def rfc_op_def rfc_G_def ac_simps)

lemma step_H:
  "32 \<le> i \<Longrightarrow> i < 48 \<Longrightarrow>
     round_step X i (a, b, c, d) = (d, rfc_op rfc_H X a b c d ((3 * i + 5) mod 16) (kShift ! i) (Suc i), b, c)"
  by (simp add: round_step_def mix_def rfc_op_def rfc_H_def ac_simps)

lemma step_I:
  "48 \<le> i \<Longrightarrow>
     round_step X i (a, b, c, d) = (d, rfc_op rfc_I X a b c d ((7 * i) mod 16) (kShift ! i) (Suc i), b, c)"
  by (simp add: round_step_def mix_def rfc_op_def rfc_I_def ac_simps)

lemmas line_simps = step_F step_G step_H step_I rfc_line_def kShift_def Let_def

text \<open>Four operations of the loop are one line of the RFC, in each of the four rounds.\<close>

lemma round_1:
  "fold (round_step X) [0, 1, 2, 3] r = rfc_line rfc_F X [0, 1, 2, 3] [7, 12, 17, 22] 1 r"
  "fold (round_step X) [4, 5, 6, 7] r = rfc_line rfc_F X [4, 5, 6, 7] [7, 12, 17, 22] 5 r"
  "fold (round_step X) [8, 9, 10, 11] r = rfc_line rfc_F X [8, 9, 10, 11] [7, 12, 17, 22] 9 r"
  "fold (round_step X) [12, 13, 14, 15] r = rfc_line rfc_F X [12, 13, 14, 15] [7, 12, 17, 22] 13 r"
  by - (cases r, simp add: line_simps numeral_2_eq_2 numeral_3_eq_3)+

lemma round_2:
  "fold (round_step X) [16, 17, 18, 19] r = rfc_line rfc_G X [1, 6, 11, 0] [5, 9, 14, 20] 17 r"
  "fold (round_step X) [20, 21, 22, 23] r = rfc_line rfc_G X [5, 10, 15, 4] [5, 9, 14, 20] 21 r"
  "fold (round_step X) [24, 25, 26, 27] r = rfc_line rfc_G X [9, 14, 3, 8] [5, 9, 14, 20] 25 r"
  "fold (round_step X) [28, 29, 30, 31] r = rfc_line rfc_G X [13, 2, 7, 12] [5, 9, 14, 20] 29 r"
  by - (cases r, simp add: line_simps)+

lemma round_3:
  "fold (round_step X) [32, 33, 34, 35] r = rfc_line rfc_H X [5, 8, 11, 14] [4, 11, 16, 23] 33 r"
  "fold (round_step X) [36, 37, 38, 39] r = rfc_line rfc_H X [1, 4, 7, 10] [4, 11, 16, 23] 37 r"
  "fold (round_step X) [40, 41, 42, 43] r = rfc_line rfc_H X [13, 0, 3, 6] [4, 11, 16, 23] 41 r"
  "fold (round_step X) [44, 45, 46, 47] r = rfc_line rfc_H X [9, 12, 15, 2] [4, 11, 16, 23] 45 r"
  by - (cases r, simp add: line_simps)+

lemma round_4:
  "fold (round_step X) [48, 49, 50, 51] r = rfc_line rfc_I X [0, 7, 14, 5] [6, 10, 15, 21] 49 r"
  "fold (round_step X) [52, 53, 54, 55] r = rfc_line rfc_I X [12, 3, 10, 1] [6, 10, 15, 21] 53 r"
  "fold (round_step X) [56, 57, 58, 59] r = rfc_line rfc_I X [8, 15, 6, 13] [6, 10, 15, 21] 57 r"
  "fold (round_step X) [60, 61, 62, 63] r = rfc_line rfc_I X [4, 11, 2, 9] [6, 10, 15, 21] 61 r"
  by - (cases r, simp add: line_simps)+

lemma upt_64_lines:
  "[0..<64] = [0, 1, 2, 3] @ [4, 5, 6, 7] @ [8, 9, 10, 11] @ [12, 13, 14, 15] @
     [16, 17, 18, 19] @ [20, 21, 22, 23] @ [24, 25, 26, 27] @ [28, 29, 30, 31] @
     [32, 33, 34, 35] @ [36, 37, 38, 39] @ [40, 41, 42, 43] @ [44, 45, 46, 47] @
     [48, 49, 50, 51] @ [52, 53, 54, 55] @ [56, 57, 58, 59] @ [60, 61, 62, 63::nat]"
  by (simp add: upt_conv_Cons)

lemma rounds_eq: "fold (round_step X) [0..<64] r = rfc_rounds X r"
  unfolding upt_64_lines fold_append comp_apply round_1 round_2 round_3 round_4 rfc_rounds_def Let_def ..

lemma transform_eq: "transform state block = rfc_block state block"
  by (simp only: transform_def rfc_block_def rounds_eq)

text \<open>A block is the first 64 bytes of what it is given.\<close>

lemma block_words_append: "length xs = 64 \<Longrightarrow> block_words (xs @ ys) = block_words xs"
  by (auto simp: block_words_def nth_append)

lemma transform_append: "length xs = 64 \<Longrightarrow> transform state (xs @ ys) = transform state xs"
  by (simp add: transform_def block_words_append)

lemma rfc_digest_block:
  "length xs = 64 \<Longrightarrow> rfc_digest state (xs @ ys) = rfc_digest (transform state xs) ys"
  by (subst rfc_digest.simps) (simp add: transform_eq)

lemma whole_blocks_rest: "length (snd (whole_blocks state data)) < 64"
  by (induction state data rule: whole_blocks.induct) (subst whole_blocks.simps, auto)

lemma whole_blocks_mod: "length (snd (whole_blocks state data)) = length data mod 64"
  by (induction state data rule: whole_blocks.induct) (subst whole_blocks.simps, auto simp: le_mod_geq)

lemma whole_blocks_digest:
  "rfc_digest state (data @ ys) = rfc_digest (fst (whole_blocks state data)) (snd (whole_blocks state data) @ ys)"
proof (induction state data rule: whole_blocks.induct)
  case (1 state data)
  show ?case
  proof (cases "64 \<le> length data")
    case True
    have "rfc_digest state (data @ ys) = rfc_digest (transform state (take 64 data)) (drop 64 data @ ys)"
      using rfc_digest_block [of "take 64 data" state "drop 64 data @ ys"] True
      by (simp flip: append_assoc)
    with 1 [OF True] True show ?thesis by (simp add: whole_blocks.simps [of state data])
  qed (simp add: whole_blocks.simps [of state data])
qed

text \<open>The tail is the rest of the padded message.\<close>

lemma fold_updates:
  "k + m \<le> length xs \<Longrightarrow>
     fold (\<lambda>i xs. xs[k + i := f i]) [0..<m] xs = take k xs @ map f [0..<m] @ drop (k + m) xs"
proof (induction m)
  case (Suc m)
  then have "fold (\<lambda>i xs. xs[k + i := f i]) [0..<Suc m] xs =
      (take k xs @ map f [0..<m] @ drop (k + m) xs)[k + m := f m]" by simp
  also have "\<dots> = take k xs @ map f [0..<m] @ (drop (k + m) xs)[0 := f m]"
    using Suc.prems by (simp add: list_update_append)
  also have "(drop (k + m) xs)[0 := f m] = f m # drop (Suc (k + m)) xs"
    using Suc.prems by (subst Cons_nth_drop_Suc [symmetric]) auto
  finally show ?case by simp
qed simp

lemma bit_word_of_nat: "bit (of_nat n :: 'a::len word) k \<longleftrightarrow> k < LENGTH('a) \<and> bit n k"
  by transfer (simp add: bit_take_bit_iff bit_of_nat_iff)

lemma length_byte:
  "i < 8 \<Longrightarrow> (ucast (drop_bit (8 * i) (of_nat n * 8 :: u64)) :: byte) = of_nat (8 * n div 256 ^ i)"
proof -
  assume i: "i < 8"
  have "(256::nat) ^ i = 2 ^ (8 * i)" by (simp add: power_mult)
  then have div: "8 * n div 256 ^ i = drop_bit (8 * i) (8 * n)" by (simp add: drop_bit_eq_div)
  have mul: "(of_nat n * 8 :: u64) = of_nat (8 * n)" by simp
  show ?thesis
    unfolding mul div
    by (rule bit_word_eqI)
      (use i in \<open>auto simp: bit_ucast_iff bit_drop_bit_eq bit_word_of_nat simp del: of_nat_mult\<close>)
qed

lemma tail_of_pad:
  assumes "length rest < 64"
  shows "take (tail_size_of rest) (tail_of rest bits) =
    rest @ [0x80] @ replicate (tail_size_of rest - 9 - length rest) 0 @
    map (\<lambda>i. ucast (drop_bit (8 * i) bits)) [0..<8]"
proof -
  let ?n = "tail_size_of rest" and ?f = "\<lambda>i. ucast (drop_bit (8 * i) bits) :: byte"
  have n: "length rest + 9 \<le> ?n" "?n \<le> 128" using assms by (auto simp: tail_size_of_def)
  let ?t = "rest @ 0x80 # replicate (127 - length rest) (0::byte)"
  have "(rest @ drop (length rest) (replicate 128 0))[length rest := 0x80] = ?t"
    using assms by (cases "128 - length rest") (auto simp: list_update_append)
  then have "tail_of rest bits = take (?n - 8) ?t @ map ?f [0..<8] @ drop (?n - 8 + 8) ?t"
    using n fold_updates [of "?n - 8" 8 ?t ?f] by (simp add: tail_of_def put_length_def Let_def)
  then show ?thesis using n by (simp add: take_Cons' min_def) arith
qed

lemma rfc_pad_tail:
  assumes "length rest = length m mod 64"
  shows "rest @ [0x80] @ replicate ((119 - length m mod 64) mod 64) 0 @
      map (\<lambda>i. of_nat (8 * length m div 256 ^ i)) [0..<8] =
    take (tail_size_of rest) (tail_of rest (of_nat (length m) * 8))"
proof -
  have less: "length rest < 64" using assms by simp
  have "(119 - length rest) mod 64 = tail_size_of rest - 9 - length rest"
    using less by (cases "length rest < 56") (auto simp: tail_size_of_def le_mod_geq)
  then show ?thesis
    unfolding tail_of_pad [OF less] assms [symmetric]
    using length_byte [of _ "length m"] by (auto intro!: map_cong)
qed

lemma length_tail_of: "length rest < 64 \<Longrightarrow> length (tail_of rest bits) = 128"
proof -
  have "length (fold (\<lambda>i xs. xs[k + i := f i]) js xs) = length xs" for k js xs and f :: "nat \<Rightarrow> byte"
    by (induction js arbitrary: xs) auto
  then show "length rest < 64 \<Longrightarrow> ?thesis" by (simp add: tail_of_def put_length_def Let_def)
qed

lemma tail_digest:
  assumes "length rest < 64"
  shows "rfc_digest state (take (tail_size_of rest) (tail_of rest bits)) =
    fold (\<lambda>block state. transform state (drop block (tail_of rest bits)))
      (if tail_size_of rest = 64 then [0] else [0, 64]) state"
proof -
  let ?t = "tail_of rest bits"
  have len: "length ?t = 128" by (rule length_tail_of [OF assms])
  have finished: "rfc_digest st [] = st" for st by (simp add: rfc_digest.simps)
  have one: "rfc_digest st (take 64 ?t) = transform st ?t" for st
    using rfc_digest_block [of "take 64 ?t" st "[]"] transform_append [of "take 64 ?t" st "drop 64 ?t"] len
    by (simp add: finished)
  have two: "rfc_digest st (drop 64 ?t) = transform st (drop 64 ?t)" for st
    using rfc_digest_block [of "drop 64 ?t" st "[]"] len by (simp add: finished)
  have both: "rfc_digest st ?t = transform (transform st ?t) (drop 64 ?t)" for st
    using rfc_digest_block [of "take 64 ?t" st "drop 64 ?t"] transform_append [of "take 64 ?t" st "drop 64 ?t"] len
    by (simp add: two)
  show ?thesis using one both len by (auto simp: tail_size_of_def)
qed

lemma hex_digit_hex: "unat n < 16 \<Longrightarrow> hex_digit n \<in> set kHex"
  unfolding hex_digit_def by (rule nth_mem) (simp add: kHex_def)

lemma hex_byte_hex: "is_hex (hex_byte x)" "length (hex_byte x) = 2"
proof -
  have "unat (drop_bit 4 x) < 16"
    using unat_less [of x] by (simp add: unat_drop_bit_eq) (simp add: drop_bit_eq_div unat_div)
  moreover have "x AND 0x0f = take_bit 4 x" by (simp add: take_bit_eq_mask mask_eq_exp_minus_1)
  then have "unat (x AND 0x0f) < 16" by (simp add: take_bit_eq_mod unat_mod)
  ultimately show "is_hex (hex_byte x)" by (simp add: is_hex_def hex_byte_def hex_digit_hex)
qed (simp add: hex_byte_def)

lemma is_hex_simps [simp]: "is_hex []" "is_hex (s @ t) \<longleftrightarrow> is_hex s \<and> is_hex t"
  by (simp_all add: is_hex_def)

lemma hex_bytes_hex:
  "is_hex (concat (map (\<lambda>i. hex_byte (f i)) xs)) \<and> length (concat (map (\<lambda>i. hex_byte (f i)) xs)) = 2 * length xs"
  by (induction xs) (simp_all add: hex_byte_hex)

lemma md5_hex_shape: "is_hex (md5_hex s) \<and> length (md5_hex s) = 32"
  using hex_bytes_hex [of _ "[0..<16]"] by (simp only: md5_hex_def state_hex_def Let_def split: prod.split) simp

section \<open>Properties\<close>


end
