(* ===== verification/Random_Hex.thy ===== *)
theory Random_Hex
  imports Md5
begin

text \<open>
  The random sources of \<^verbatim>\<open>src/sip/random.cpp\<close>. The Mersenne Twister is seeded from the system,
  so what is known of it is that it gives one 32-bit value after another: a generator is the sequence
  of the values it has still to give. The \<^verbatim>\<open>getentropy\<close> of the operating system is a parameter,
  with a state of its own: it fills a buffer of at most 256 bytes, or fails.
\<close>

type_synonym generator = "nat \<Rightarrow> u32"

definition random_u32 :: "generator \<Rightarrow> u32 \<times> generator" where
  "random_u32 g = (g 0, \<lambda>n. g (Suc n))"

fun random_hex :: "nat \<Rightarrow> generator \<Rightarrow> string \<times> generator" where
  "random_hex 0 g = ([], g)"
| "random_hex (Suc n) g =
     (case random_u32 g of (x, g) \<Rightarrow>
        case random_hex n g of (s, g) \<Rightarrow> (hex_byte (ucast x) @ s, g))"

text \<open>The loop of \<^verbatim>\<open>secure_random\<close> over chunks of 256 bytes; \<^term>\<open>None\<close> is false.\<close>

function secure_random ::
  "(nat \<Rightarrow> 'h \<Rightarrow> byte list option \<times> 'h) \<Rightarrow> nat \<Rightarrow> 'h \<Rightarrow> byte list option \<times> 'h" where
  "secure_random getentropy n h =
     (if n = 0 then (Some [], h)
      else case getentropy (min n 256) h of
        (None, h) \<Rightarrow> (None, h)
      | (Some bytes, h) \<Rightarrow>
          (case secure_random getentropy (n - min n 256) h of
             (None, h) \<Rightarrow> (None, h)
           | (Some rest, h) \<Rightarrow> (Some (bytes @ rest), h)))"
  by pat_completeness auto
termination by (relation "measure (\<lambda>(e, n, h). n)") auto

declare secure_random.simps [simp del]

section \<open>Lemmas\<close>

lemma random_hex_shape: "is_hex (fst (random_hex n g)) \<and> length (fst (random_hex n g)) = 2 * n"
  by (induction n g rule: random_hex.induct) (auto simp: hex_byte_hex split: prod.split)

text \<open>What the manual of \<^verbatim>\<open>getentropy\<close> promises: it never returns short.\<close>

definition full_reads :: "(nat \<Rightarrow> 'h \<Rightarrow> byte list option \<times> 'h) \<Rightarrow> bool" where
  "full_reads getentropy \<longleftrightarrow>
     (\<forall>n h bytes h'. n \<le> 256 \<longrightarrow> getentropy n h = (Some bytes, h') \<longrightarrow> length bytes = n)"

lemma secure_random_length:
  assumes full: "full_reads getentropy" and "secure_random getentropy n h = (Some bytes, h')"
  shows "length bytes = n"
  using assms(2)
proof (induction n arbitrary: h bytes h' rule: less_induct)
  case (less n)
  show ?case
  proof (cases "n = 0")
    case False
    from less.prems False obtain part h1 rest where
      part: "getentropy (min n 256) h = (Some part, h1)" and
      rest: "secure_random getentropy (n - min n 256) h1 = (Some rest, h')" and
      bytes: "bytes = part @ rest"
      by (subst (asm) secure_random.simps) (auto split: prod.splits option.splits)
    have "length part = min n 256" using full part unfolding full_reads_def by (meson min.cobounded2)
    with less.IH [OF _ rest] False bytes show ?thesis by simp
  qed (use less.prems in \<open>simp add: secure_random.simps\<close>)
qed

end
