(* ===== verification/Digest.thy ===== *)
theory Digest
  imports Sip_Text Random_Hex
begin

text \<open>
  Digest authentication, \<^verbatim>\<open>src/sip/digest.cpp\<close>: reading a challenge, computing the response
  to it and writing the \<^verbatim>\<open>Authorization\<close> header. The text of a challenge is specified as a list of
  parameters, quoted or not, and the reader is shown to read every such text.
\<close>

section \<open>The code\<close>

record challenge =
  realm :: string
  nonce :: string
  opaque :: string
  algorithm :: string
  qop_auth :: bool

definition no_challenge :: challenge where
  "no_challenge = \<lparr>realm = [], nonce = [], opaque = [], algorithm = [], qop_auth = False\<rparr>"

record credentials =
  username :: string
  password :: string

fun join_from :: "string \<Rightarrow> string list \<Rightarrow> string" where
  "join_from out [] = out"
| "join_from out (part # parts) =
     join_from ((if out \<noteq> [] then out @ '':'' else out) @ part) parts"

definition join :: "string list \<Rightarrow> string" where
  "join parts = join_from [] parts"

abbreviation BACKSLASH :: char where "BACKSLASH \<equiv> CHR 0x5C"

text \<open>The loop over a quoted value, from after the opening quote: the value and what follows it.\<close>

fun quoted_value :: "string \<Rightarrow> string \<times> string" where
  "quoted_value [] = ([], [])"
| "quoted_value [c] = (if c = QUOTE then ([], []) else ([c], []))"
| "quoted_value (c # d # s) =
     (if c = QUOTE then ([], d # s)
      else if c = BACKSLASH then apfst ((#) d) (quoted_value s)
      else apfst ((#) c) (quoted_value (d # s)))"

definition parameter_value :: "string \<Rightarrow> string \<times> string" where
  "parameter_value value =
     (if value \<noteq> [] \<and> hd value = QUOTE then quoted_value (tl value)
      else let end = find_char (CHR '','') value
           in (trim (before end value), (case end of None \<Rightarrow> [] | Some k \<Rightarrow> drop k value)))"

function qop_offers_auth :: "string \<Rightarrow> bool" where
  "qop_offers_auth options =
     (if options = [] then False
      else let comma = find_char (CHR '','') options
           in iequals (trim (before comma options)) ''auth'' \<or> qop_offers_auth (after comma options))"
  by pat_completeness auto
termination by (relation "measure length") (auto simp: length_after_less)

definition set_parameter :: "string \<times> string \<Rightarrow> challenge \<times> bool \<Rightarrow> challenge \<times> bool" where
  "set_parameter p r = (case (p, r) of ((key, parsed), (c, has_nonce)) \<Rightarrow>
     if key = ''realm'' then (c\<lparr>realm := parsed\<rparr>, has_nonce)
     else if key = ''nonce'' then (c\<lparr>nonce := parsed\<rparr>, True)
     else if key = ''opaque'' then (c\<lparr>opaque := parsed\<rparr>, has_nonce)
     else if key = ''algorithm'' then (c\<lparr>algorithm := parsed\<rparr>, has_nonce)
     else if key = ''qop'' then (c\<lparr>qop_auth := qop_auth c \<or> qop_offers_auth parsed\<rparr>, has_nonce)
     else (c, has_nonce))"

function skip_commas :: "string \<Rightarrow> string" where
  "skip_commas value =
     (if value \<noteq> [] \<and> hd value = CHR '','' then skip_commas (trim (tl value)) else value)"
  by pat_completeness auto
termination
  by (relation "measure length") (auto simp: neq_Nil_conv intro: le_less_trans [OF length_trim])

declare skip_commas.simps [simp del] qop_offers_auth.simps [simp del]

lemma length_quoted_value: "length (snd (quoted_value s)) \<le> length s"
  by (induction s rule: quoted_value.induct) auto

lemma length_parameter_value: "length (snd (parameter_value s)) \<le> length s"
  using length_quoted_value [of "tl s"]
  by (auto simp: parameter_value_def Let_def split: option.split)

lemma length_skip_commas: "length (skip_commas s) \<le> length s"
proof (induction s rule: skip_commas.induct)
  case (1 s)
  show ?case
  proof (cases "s \<noteq> [] \<and> hd s = CHR '',''")
    case True
    then have "skip_commas s = skip_commas (trim (tl s))" by (simp add: skip_commas.simps [of s])
    with 1 [OF True] length_trim [of "tl s"] show ?thesis by simp
  next
    case False
    then have "skip_commas s = s" by (subst skip_commas.simps) argo
    then show ?thesis by simp
  qed
qed

function parse_parameters :: "string \<Rightarrow> challenge \<times> bool \<Rightarrow> challenge \<times> bool" where
  "parse_parameters value r =
     (if value = [] then r
      else let value = skip_commas (trim value)
           in case find_char (CHR ''='') value of
                None \<Rightarrow> r
              | Some equals \<Rightarrow>
                  let key = lowercase (trim (take equals value));
                      (parsed, rest) = parameter_value (trim (drop (Suc equals) value))
                  in parse_parameters rest (set_parameter (key, parsed) r))"
  by pat_completeness auto
termination
proof (relation "measure (\<lambda>(t, r). length t)")
  fix t r v equals key parsed rest p
  assume v: "v = skip_commas (trim t)" and e: "find_char (CHR ''='') v = Some equals"
    and p: "p = parameter_value (trim (drop (Suc equals) v))" "(parsed, rest) = p"
  have "length rest \<le> length (trim (drop (Suc equals) v))"
    using length_parameter_value [of "trim (drop (Suc equals) v)"] p by (metis snd_conv)
  also have "\<dots> \<le> length v - Suc equals" using length_trim [of "drop (Suc equals) v"] by simp
  also have "\<dots> < length v" using find_idx_less [OF e] by simp
  also have "\<dots> \<le> length t" unfolding v using length_skip_commas length_trim order_trans by blast
  finally show "((rest, set_parameter (key, parsed) r), t, r) \<in> measure (\<lambda>(t, r). length t)"
    by simp
qed simp

declare parse_parameters.simps [simp del]

definition parse_challenge :: "string \<Rightarrow> challenge option" where
  "parse_challenge value =
     (let value = trim value
      in if length value < 7 \<or> \<not> iequals (take 6 value) ''Digest'' then None
         else case parse_parameters (drop 6 value) (no_challenge, False) of
                (challenge, has_nonce) \<Rightarrow> if has_nonce then Some challenge else None)"

definition digest_response ::
  "credentials \<Rightarrow> challenge \<Rightarrow> string \<Rightarrow> string \<Rightarrow> string \<Rightarrow> string \<Rightarrow> string" where
  "digest_response cr ch method uri nc cnonce =
     (let ha1 = md5_hex (join [username cr, realm ch, password cr]);
          ha2 = md5_hex (join [method, uri])
      in if qop_auth ch then md5_hex (join [ha1, nonce ch, nc, cnonce, ''auth'', ha2])
         else md5_hex (join [ha1, nonce ch, ha2]))"

definition quote :: "string \<Rightarrow> string" where "quote s = QUOTE # s @ [QUOTE]"

text \<open>
  The header value, with the generator after the \<^verbatim>\<open>cnonce\<close> was drawn; \<^term>\<open>quote\<close> writes the
  \<^verbatim>\<open>"\"" + s + "\""\<close> of the source.
\<close>

definition authorization_value ::
  "credentials \<Rightarrow> challenge \<Rightarrow> string \<Rightarrow> string \<Rightarrow> generator \<Rightarrow> string option \<times> generator" where
  "authorization_value cr ch method uri g =
     (if algorithm ch \<noteq> [] \<and> \<not> iequals (algorithm ch) ''MD5'' then (None, g)
      else let nc = ''00000001'';
               (cnonce, g) = (if qop_auth ch then random_hex 8 g else ([], g));
               value = ''Digest username='' @ quote (username cr) @ '', realm='' @ quote (realm ch) @
                 '', nonce='' @ quote (nonce ch) @ '', uri='' @ quote uri @ '', response='' @
                 quote (digest_response cr ch method uri nc cnonce) @ '', algorithm=MD5'';
               value = (if qop_auth ch then value @ '', qop=auth, nc='' @ nc @ '', cnonce='' @ quote cnonce else value);
               value = (if opaque ch \<noteq> [] then value @ '', opaque='' @ quote (opaque ch) else value)
           in (Some value, g))"

section \<open>The text of a challenge\<close>

text \<open>A parameter with its name and value, and whether the value is in quotes.\<close>

type_synonym parameter = "string \<times> bool \<times> string"

definition parameter_text :: "parameter \<Rightarrow> string" where
  "parameter_text p = (case p of (k, q, v) \<Rightarrow> k @ ''='' @ (if q then quote v else v))"

fun parameters_text :: "parameter list \<Rightarrow> string" where
  "parameters_text [] = []"
| "parameters_text [p] = parameter_text p"
| "parameters_text (p # ps) = parameter_text p @ '', '' @ parameters_text ps"

definition good_parameter :: "parameter \<Rightarrow> bool" where
  "good_parameter p = (case p of (k, q, v) \<Rightarrow>
     k \<noteq> [] \<and> list_all is_alnum k \<and>
     (if q then QUOTE \<notin> set v \<and> BACKSLASH \<notin> set v
      else v \<noteq> [] \<and> list_all is_alnum v))"

definition read_parameter :: "parameter \<Rightarrow> string \<times> string" where
  "read_parameter p = (case p of (k, q, v) \<Rightarrow> (lowercase k, v))"

lemma alnum_plain:
  assumes "is_alnum c"
  shows "\<not> is_lead c" "\<not> is_trail c" "c \<noteq> CHR ''=''" "c \<noteq> CHR '',''" "c \<noteq> QUOTE"
  using assms by (auto simp: is_alnum_def is_digit_def is_upper_def is_lead_def is_trail_def)

lemma trim_alnum: "list_all is_alnum s \<Longrightarrow> trim s = s"
  by (rule trim_id, rule trimmedI_no_blank) (auto simp: list_all_iff dest: alnum_plain)

lemma quoted_value_plain:
  "QUOTE \<notin> set v \<Longrightarrow> BACKSLASH \<notin> set v \<Longrightarrow> quoted_value (v @ QUOTE # s) = (v, s)"
proof (induction v)
  case Nil
  then show ?case by (cases s) auto
next
  case (Cons c v)
  then show ?case by (cases "v @ QUOTE # s") auto
qed

lemma last_alnum: "list_all is_alnum s \<Longrightarrow> s \<noteq> [] \<Longrightarrow> \<not> is_trail (last s)"
  by (simp add: list_all_iff alnum_plain)

lemma hd_alnum: "list_all is_alnum s \<Longrightarrow> s \<noteq> [] \<Longrightarrow> is_alnum (hd s)"
  by (simp add: list_all_iff)

lemma last_parameter_text:
  assumes "good_parameter p"
  shows "parameter_text p \<noteq> [] \<and> \<not> is_trail (last (parameter_text p))"
proof -
  obtain k q v where p: "p = (k, q, v)" by (cases p)
  show ?thesis
    using assms last_alnum [of v] by (cases q) (simp_all add: p good_parameter_def parameter_text_def quote_def is_trail_def)
qed

lemma hd_parameter_text: "good_parameter p \<Longrightarrow> is_alnum (hd (parameter_text p))"
  by (cases p) (auto simp: good_parameter_def parameter_text_def neq_Nil_conv)

lemma parameters_text_ends:
  "list_all good_parameter ps \<Longrightarrow> ps \<noteq> [] \<Longrightarrow>
     parameters_text ps \<noteq> [] \<and> is_alnum (hd (parameters_text ps)) \<and> \<not> is_trail (last (parameters_text ps))"
  by (induction ps rule: parameters_text.induct) (auto simp: last_parameter_text hd_parameter_text)

lemma trim_parameters_text:
  assumes "list_all good_parameter ps"
  shows "trim (parameters_text ps) = parameters_text ps" "skip_commas (parameters_text ps) = parameters_text ps"
    "skip_commas (trim ('', '' @ parameters_text ps)) = skip_commas (parameters_text ps)"
proof -
  show t: "trim (parameters_text ps) = parameters_text ps"
    using parameters_text_ends [OF assms] by (cases "ps = []") (auto intro!: trim_id simp: trimmed_def alnum_plain)
  show "skip_commas (parameters_text ps) = parameters_text ps"
    using parameters_text_ends [OF assms]
    by (cases "ps = []"; subst skip_commas.simps) (auto simp: alnum_plain)
  show "skip_commas (trim ('', '' @ parameters_text ps)) = skip_commas (parameters_text ps)"
  proof (cases "ps = []")
    case True
    then show ?thesis by (simp add: skip_commas.simps trim_def is_lead_def is_trail_def)
  next
    case False
    then have "trim ('', '' @ parameters_text ps) = '', '' @ parameters_text ps"
      using parameters_text_ends [OF assms] by (intro trim_id) (auto simp: trimmed_def is_lead_def)
    then show ?thesis using t by (subst skip_commas.simps) simp
  qed
qed

text \<open>One turn of the reading loop takes one parameter.\<close>

lemma parameter_value_text:
  assumes "good_parameter (k, q, v)" and "s = [] \<or> (\<exists>t. s = CHR '','' # t) \<and> \<not> is_trail (last s)"
  shows "parameter_value (trim ((if q then quote v else v) @ s)) = (v, s)"
proof -
  let ?t = "(if q then quote v else v) @ s"
  have good: "if q then QUOTE \<notin> set v \<and> BACKSLASH \<notin> set v else v \<noteq> [] \<and> list_all is_alnum v"
    using assms(1) by (simp add: good_parameter_def)
  have "?t \<noteq> []" and "\<not> is_lead (hd ?t)"
    using good alnum_plain(1) [OF hd_alnum [of v]] by (cases q; simp add: quote_def is_lead_def; fail)+
  moreover have "\<not> is_trail (last ?t)"
    using good last_alnum [of v] assms(2) by (cases "s = []") (auto simp: quote_def is_trail_def)
  ultimately have t: "trim ?t = ?t" by (intro trim_id) (simp add: trimmed_def)
  show ?thesis
  proof (cases q)
    case True
    with good show ?thesis unfolding t by (simp add: parameter_value_def quote_def quoted_value_plain)
  next
    case False
    with good have v: "v \<noteq> []" "list_all is_alnum v" by auto
    then have hd: "hd v \<noteq> QUOTE" and none: "\<forall>c \<in> set v. c \<noteq> CHR '',''"
      using alnum_plain by (auto simp: list_all_iff neq_Nil_conv)
    have "find_char (CHR '','') (v @ s) = (if s = [] then None else Some (length v))"
      using assms(2) none find_idx_split [of v "\<lambda>x. x = CHR '',''"] by (auto simp: find_idx_None_iff)
    with False v hd show ?thesis
      unfolding t by (auto simp: parameter_value_def before_def trim_alnum)
  qed
qed

lemma parse_parameters_text:
  assumes "list_all good_parameter ps" and "ps \<noteq> []"
    and "t \<noteq> []" and "skip_commas (trim t) = parameters_text ps"
  shows "parse_parameters t r = fold (\<lambda>p. set_parameter (read_parameter p)) ps r"
  using assms
proof (induction ps arbitrary: t r)
  case (Cons p ps)
  obtain k q v where p: "p = (k, q, v)" by (cases p)
  let ?s = "if ps = [] then [] else '', '' @ parameters_text ps"
  have good: "good_parameter (k, q, v)" and k: "list_all is_alnum k"
    using Cons.prems(1) p by (auto simp: good_parameter_def)
  have p_text: "parameters_text (p # ps) = k @ CHR ''='' # (if q then quote v else v) @ ?s"
    by (cases ps) (simp_all add: parameter_text_def p)
  have s: "?s = [] \<or> (\<exists>t. ?s = CHR '','' # t) \<and> \<not> is_trail (last ?s)"
    using parameters_text_ends [of ps] Cons.prems(1) by auto
  have "find_char (CHR ''='') (parameters_text (p # ps)) = Some (length k)"
    unfolding p_text using k by (intro find_idx_split) (auto simp: list_all_iff dest: alnum_plain)
  then have "parse_parameters t r = parse_parameters ?s (set_parameter (lowercase k, v) r)"
    using Cons.prems(3) by (subst parse_parameters.simps)
      (simp add: Cons.prems(4) p_text parameter_value_text [OF good s] trim_alnum [OF k] Let_def del: append_Cons)
  also have "\<dots> = fold (\<lambda>p. set_parameter (read_parameter p)) ps (set_parameter (lowercase k, v) r)"
    using Cons.IH [of ?s] Cons.prems(1) trim_parameters_text [of ps]
    by (cases "ps = []") (auto simp: parse_parameters.simps)
  finally show ?case by (simp add: p read_parameter_def)
qed simp

lemma take_Digest: "trim (''Digest '' @ t) = ''Digest '' @ t \<Longrightarrow> t \<noteq> [] \<Longrightarrow>
   parse_challenge (''Digest '' @ t) =
     (case parse_parameters ('' '' @ t) (no_challenge, False) of
        (c, has_nonce) \<Rightarrow> if has_nonce then Some c else None)"
  by (cases t) (simp_all add: parse_challenge_def iequals_refl Let_def)

lemma parse_challenge_text:
  assumes "list_all good_parameter ps" and "ps \<noteq> []"
  shows "parse_challenge (''Digest '' @ parameters_text ps) =
    (case fold (\<lambda>p. set_parameter (read_parameter p)) ps (no_challenge, False) of
       (c, has_nonce) \<Rightarrow> if has_nonce then Some c else None)"
proof -
  note ends = parameters_text_ends [OF assms]
  have "trim (''Digest '' @ parameters_text ps) = ''Digest '' @ parameters_text ps"
    using ends by (intro trim_id) (simp add: trimmed_def is_lead_def)
  moreover have "skip_commas (trim ('' '' @ parameters_text ps)) = parameters_text ps"
    using trim_parameters_text [OF assms(1)] by simp
  ultimately show ?thesis
    using take_Digest [of "parameters_text ps"] ends
      parse_parameters_text [OF assms, of "'' '' @ parameters_text ps"] by simp
qed

section \<open>The response\<close>

lemma join_from_nonempty: "out \<noteq> [] \<Longrightarrow> join_from out parts = out @ concat (map (\<lambda>p. '':'' @ p) parts)"
  by (induction parts arbitrary: out) auto

lemma join_nonempty: "p \<noteq> [] \<Longrightarrow> join (p # parts) = p @ concat (map (\<lambda>p. '':'' @ p) parts)"
  by (simp add: join_def join_from_nonempty)

lemma md5_hex_not_Nil: "md5_hex s \<noteq> []"
  using md5_hex_shape [of s] by auto

lemma md5_hex_no_quote: "QUOTE \<notin> set (md5_hex s) \<and> BACKSLASH \<notin> set (md5_hex s)"
  using md5_hex_shape [of s] by (auto simp: is_hex_def kHex_def)

text \<open>The request-digest of RFC 2617, section 3.2.2.1, without and with \<^verbatim>\<open>qop=auth\<close>.\<close>

definition request_digest ::
  "string \<Rightarrow> string \<Rightarrow> string \<Rightarrow> string \<Rightarrow> string \<Rightarrow> string \<Rightarrow> (string \<times> string) option \<Rightarrow> string" where
  "request_digest user rlm pass nce method uri qop =
     (let ha1 = md5_hex (user @ '':'' @ rlm @ '':'' @ pass);
          ha2 = md5_hex (method @ '':'' @ uri)
      in case qop of
           None \<Rightarrow> md5_hex (ha1 @ '':'' @ nce @ '':'' @ ha2)
         | Some (nc, cnonce) \<Rightarrow>
             md5_hex (ha1 @ '':'' @ nce @ '':'' @ nc @ '':'' @ cnonce @ '':auth:'' @ ha2))"

lemma digest_response_eq:
  assumes "username cr \<noteq> []" and "method \<noteq> []"
  shows "digest_response cr ch method uri nc cnonce =
    request_digest (username cr) (realm ch) (password cr) (nonce ch) method uri
      (if qop_auth ch then Some (nc, cnonce) else None)"
  using assms by (simp add: digest_response_def request_digest_def join_nonempty md5_hex_not_Nil Let_def)

text \<open>The header is the text of its parameters.\<close>

definition authorization_parameters ::
  "credentials \<Rightarrow> challenge \<Rightarrow> string \<Rightarrow> string \<Rightarrow> string \<Rightarrow> parameter list" where
  "authorization_parameters cr ch method uri cnonce =
     [(''username'', True, username cr), (''realm'', True, realm ch), (''nonce'', True, nonce ch),
      (''uri'', True, uri), (''response'', True, digest_response cr ch method uri ''00000001'' cnonce),
      (''algorithm'', False, ''MD5'')] @
     (if qop_auth ch then [(''qop'', False, ''auth''), (''nc'', False, ''00000001''), (''cnonce'', True, cnonce)] else []) @
     (if opaque ch \<noteq> [] then [(''opaque'', True, opaque ch)] else [])"

definition fresh_cnonce :: "challenge \<Rightarrow> generator \<Rightarrow> string" where
  "fresh_cnonce ch g = (if qop_auth ch then fst (random_hex 8 g) else [])"

lemma authorization_value_text:
  assumes "algorithm ch = [] \<or> iequals (algorithm ch) ''MD5''"
  shows "fst (authorization_value cr ch method uri g) =
    Some (''Digest '' @ parameters_text (authorization_parameters cr ch method uri (fresh_cnonce ch g)))"
  using assms
  by (auto simp: authorization_value_def authorization_parameters_def fresh_cnonce_def parameter_text_def
      Let_def split: prod.split)

definition quotable :: "string \<Rightarrow> bool" where
  "quotable s \<longleftrightarrow> QUOTE \<notin> set s \<and> BACKSLASH \<notin> set s"

lemma fresh_cnonce_quotable: "quotable (fresh_cnonce ch g)"
  using random_hex_shape [of 8 g] by (auto simp: fresh_cnonce_def quotable_def is_hex_def kHex_def)

lemma good_authorization:
  assumes "quotable (username cr)" "quotable (realm ch)" "quotable (nonce ch)" "quotable (opaque ch)"
    "quotable uri" "quotable cnonce"
  shows "list_all good_parameter (authorization_parameters cr ch method uri cnonce)"
proof -
  have "quotable (digest_response cr ch method uri ''00000001'' cnonce)"
    using md5_hex_no_quote by (auto simp: quotable_def digest_response_def Let_def)
  with assms show ?thesis
    by (simp add: authorization_parameters_def good_parameter_def quotable_def is_alnum_def is_digit_def is_upper_def)
qed

lemma lowercase_names:
  "lowercase ''username'' = ''username''" "lowercase ''realm'' = ''realm''" "lowercase ''nonce'' = ''nonce''"
  "lowercase ''uri'' = ''uri''" "lowercase ''response'' = ''response''" "lowercase ''algorithm'' = ''algorithm''"
  "lowercase ''qop'' = ''qop''" "lowercase ''nc'' = ''nc''" "lowercase ''cnonce'' = ''cnonce''"
  "lowercase ''opaque'' = ''opaque''"
  by (simp_all add: lowercase_def tolower_def is_upper_def)

lemma qop_auth_token: "qop_offers_auth ''auth''"
  by (subst qop_offers_auth.simps) (simp add: before_def trim_alnum is_alnum_def iequals_refl)

lemma read_authorization:
  "fold (\<lambda>p. set_parameter (read_parameter p)) (authorization_parameters cr ch method uri cnonce) (no_challenge, False) =
     (ch\<lparr>algorithm := ''MD5''\<rparr>, True)"
  by (cases ch) (simp add: authorization_parameters_def set_parameter_def read_parameter_def lowercase_names
      no_challenge_def qop_auth_token)

section \<open>Properties\<close>

text \<open>
  The reader of challenges reads every challenge written as a list of parameters, with quoted
  values that may hold commas and equals signs, names in any case and values without quotes: the
  result is that of taking the parameters one after the other, and there is one exactly if a nonce
  is among them.
\<close>

theorem parse_challenge_reads:
  assumes "list_all good_parameter ps" and "ps \<noteq> []"
  shows "parse_challenge (''Digest '' @ parameters_text ps) =
    (case fold (\<lambda>p. set_parameter (read_parameter p)) ps (no_challenge, False) of
       (c, has_nonce) \<Rightarrow> if has_nonce then Some c else None)"
  by (rule parse_challenge_text [OF assms])

theorem parse_challenge_reads_witness:
  "parse_challenge (''Digest '' @ parameters_text
     [(''Realm'', True, ''a, b=c''), (''nonce'', True, ''n''), (''algorithm'', False, ''MD5'')]) =
   Some \<lparr>realm = ''a, b=c'', nonce = ''n'', opaque = [], algorithm = ''MD5'', qop_auth = False\<rparr>"
proof -
  have "lowercase ''Realm'' = ''realm''" by code_simp
  then show ?thesis
    using parse_challenge_reads
      [of "[(''Realm'', True, ''a, b=c''), (''nonce'', True, ''n''), (''algorithm'', False, ''MD5'')]"]
    by (simp add: good_parameter_def is_alnum_def is_digit_def is_upper_def set_parameter_def
        read_parameter_def lowercase_names no_challenge_def)
qed

text \<open>
  C23: the header that answers a challenge has as its response the request-digest of RFC 2617 for
  the credentials, the challenge, the method, the URI and the cnonce it carries, and a reader of the
  header finds the realm, the nonce, the opaque value and the choice of qop of the challenge in it.
\<close>

theorem authorization_answers_challenge:
  assumes "algorithm ch = [] \<or> iequals (algorithm ch) ''MD5''"
    and "username cr \<noteq> []" and "method \<noteq> []"
    and "quotable (username cr)" "quotable (realm ch)" "quotable (nonce ch)" "quotable (opaque ch)" "quotable uri"
  shows "\<exists>ps cnonce.
    fst (authorization_value cr ch method uri g) = Some (''Digest '' @ parameters_text ps) \<and>
    parse_challenge (''Digest '' @ parameters_text ps) = Some (ch\<lparr>algorithm := ''MD5''\<rparr>) \<and>
    (''response'', True, request_digest (username cr) (realm ch) (password cr) (nonce ch) method uri
       (if qop_auth ch then Some (''00000001'', cnonce) else None)) \<in> set ps \<and>
    ((''cnonce'', True, cnonce) \<in> set ps \<longleftrightarrow> qop_auth ch) \<and> (''username'', True, username cr) \<in> set ps"
proof -
  let ?ps = "authorization_parameters cr ch method uri (fresh_cnonce ch g)"
  have "list_all good_parameter ?ps" using good_authorization [OF assms(4-8) fresh_cnonce_quotable] .
  moreover have "?ps \<noteq> []" by (simp add: authorization_parameters_def)
  ultimately have "parse_challenge (''Digest '' @ parameters_text ?ps) = Some (ch\<lparr>algorithm := ''MD5''\<rparr>)"
    by (subst parse_challenge_text) (simp_all add: read_authorization)
  then show ?thesis
    using authorization_value_text [OF assms(1), of cr "method" uri g] digest_response_eq [OF assms(2, 3)]
    by (intro exI [of _ ?ps] exI [of _ "fresh_cnonce ch g"]) (auto simp: authorization_parameters_def)
qed

definition sample_challenge :: challenge where
  "sample_challenge = \<lparr>realm = ''asterisk'', nonce = ''1234'', opaque = ''xy'', algorithm = ''md5'', qop_auth = True\<rparr>"

definition sample_credentials :: credentials where
  "sample_credentials = \<lparr>username = ''100'', password = ''secret''\<rparr>"

theorem authorization_answers_challenge_witness:
  "\<exists>ps cnonce.
    fst (authorization_value sample_credentials sample_challenge ''REGISTER'' ''sip:192.0.2.1'' (\<lambda>n. of_nat n)) =
      Some (''Digest '' @ parameters_text ps) \<and>
    (''response'', True, request_digest ''100'' ''asterisk'' ''secret'' ''1234'' ''REGISTER'' ''sip:192.0.2.1''
       (Some (''00000001'', cnonce))) \<in> set ps"
proof -
  have "iequals ''md5'' ''MD5''" by code_simp
  then show ?thesis
    using authorization_answers_challenge
      [of sample_challenge sample_credentials "''REGISTER''" "''sip:192.0.2.1''" "\<lambda>n. of_nat n"]
    by (auto simp: sample_challenge_def sample_credentials_def quotable_def)
qed

text \<open>
  The values of the header are written between quotes as they are. A realm in which the server
  escaped a quote is therefore not given back: what follows the quote is read as further parameters.
\<close>

definition escaped_challenge :: string where
  "escaped_challenge = ''Digest realm='' @ [QUOTE] @ ''a'' @ [BACKSLASH, QUOTE] @ '', x='' @ [BACKSLASH, QUOTE] @
     ''b'' @ [QUOTE] @ '', nonce=n''"

lemma realm_quote_not_escaped:
  "\<exists>ch header. parse_challenge escaped_challenge = Some ch \<and>
     fst (authorization_value sample_credentials ch ''REGISTER'' ''sip:x'' g) = Some header \<and>
     map_option realm (parse_challenge header) = Some ''a'' \<and> realm ch \<noteq> ''a''"
proof -
  define ch where "ch = \<lparr>realm = ''a'' @ [QUOTE] @ '', x='' @ [QUOTE] @ ''b'', nonce = ''n'', opaque = [],
    algorithm = [], qop_auth = False\<rparr>"
  have "parse_challenge escaped_challenge = Some ch" unfolding ch_def by code_simp
  moreover define ps where "ps =
    [(''username'', True, ''100''), (''realm'', True, ''a''), (''x'', True, ''b''), (''nonce'', True, ''n''),
     (''uri'', True, ''sip:x''), (''response'', True, digest_response sample_credentials ch ''REGISTER'' ''sip:x'' ''00000001'' []),
     (''algorithm'', False, ''MD5'')]"
  have "quotable (digest_response sample_credentials ch ''REGISTER'' ''sip:x'' ''00000001'' [])"
    using md5_hex_no_quote by (auto simp: quotable_def digest_response_def Let_def)
  then have "list_all good_parameter ps"
    by (simp add: ps_def good_parameter_def quotable_def is_alnum_def is_digit_def is_upper_def)
  then have "map_option realm (parse_challenge (''Digest '' @ parameters_text ps)) = Some ''a''"
    by (subst parse_challenge_text)
      (simp_all add: ps_def set_parameter_def read_parameter_def lowercase_names lowercase_def tolower_def is_upper_def)
  moreover have "fst (authorization_value sample_credentials ch ''REGISTER'' ''sip:x'' g) = Some (''Digest '' @ parameters_text ps)"
    by (simp add: authorization_value_def ps_def parameter_text_def quote_def sample_credentials_def)
      (simp add: ch_def quote_def)
  ultimately show ?thesis by (intro exI [of _ ch]) (simp add: ch_def)
qed

end
