(* ===== verification/Ordered_Map.thy ===== *)
theory Ordered_Map
  imports Prelude
begin

text \<open>
  \<^verbatim>\<open>std::map\<close>: a list of pairs whose keys strictly increase, so that \<^verbatim>\<open>begin()\<close> is its head and
  iterating is walking the list. The jitter buffer keeps its frames in one and the user agent its
  transactions. The locale \<^verbatim>\<open>ordered_map\<close> is the contract they rely on.
\<close>

type_synonym ('k, 'v) omap = "('k \<times> 'v) list"

definition om_ok :: "('k :: linorder, 'v) omap \<Rightarrow> bool" where
  "om_ok m \<longleftrightarrow> sorted_wrt (<) (map fst m)"

abbreviation om_find :: "('k, 'v) omap \<Rightarrow> 'k \<Rightarrow> 'v option" where
  "om_find \<equiv> map_of"

text \<open>\<^verbatim>\<open>m[k] = v\<close>: inserts or replaces.\<close>

fun om_assign :: "'k :: linorder \<Rightarrow> 'v \<Rightarrow> ('k, 'v) omap \<Rightarrow> ('k, 'v) omap" where
  "om_assign k v [] = [(k, v)]"
| "om_assign k v ((k', v') # m) =
     (if k < k' then (k, v) # (k', v') # m
      else if k = k' then (k, v) # m
      else (k', v') # om_assign k v m)"

text \<open>\<^verbatim>\<open>m.try_emplace(k, v)\<close> and \<^verbatim>\<open>m.emplace(k, v)\<close>: a key that is there keeps its value.\<close>

definition om_emplace :: "'k :: linorder \<Rightarrow> 'v \<Rightarrow> ('k, 'v) omap \<Rightarrow> ('k, 'v) omap" where
  "om_emplace k v m = (if om_find m k = None then om_assign k v m else m)"

definition om_erase :: "'k \<Rightarrow> ('k, 'v) omap \<Rightarrow> ('k, 'v) omap" where
  "om_erase k m = filter (\<lambda>e. fst e \<noteq> k) m"

locale ordered_map =
  fixes ok :: "'m \<Rightarrow> bool" and look :: "'m \<Rightarrow> 'k :: linorder \<Rightarrow> 'v option"
    and assign :: "'k \<Rightarrow> 'v \<Rightarrow> 'm \<Rightarrow> 'm" and erase :: "'k \<Rightarrow> 'm \<Rightarrow> 'm" and empty :: 'm
  assumes empty: "ok empty" "look empty k = None"
    and assign: "ok m \<Longrightarrow> ok (assign k v m)" "ok m \<Longrightarrow> look (assign k v m) l = (if l = k then Some v else look m l)"
    and erase: "ok m \<Longrightarrow> ok (erase k m)" "ok m \<Longrightarrow> look (erase k m) l = (if l = k then None else look m l)"
begin

lemma assign_same: "ok m \<Longrightarrow> look (assign k v m) k = Some v"
  by (simp add: assign)

lemma erase_same: "ok m \<Longrightarrow> look (erase k m) k = None"
  by (simp add: erase)

lemma erase_assign: "ok m \<Longrightarrow> look m k = None \<Longrightarrow> look (erase k (assign k v m)) l = look m l"
  by (simp add: assign erase)

end

lemma om_ok_Nil [simp]: "om_ok []"
  by (simp add: om_ok_def)

lemma om_ok_Cons: "om_ok (e # m) \<longleftrightarrow> (\<forall>x \<in> set m. fst e < fst x) \<and> om_ok m"
  by (auto simp: om_ok_def)

lemma set_om_assign: "set (om_assign k v m) \<subseteq> insert (k, v) (set m)"
  by (induction k v m rule: om_assign.induct) auto

lemma om_ok_assign: "om_ok m \<Longrightarrow> om_ok (om_assign k v m)"
proof (induction k v m rule: om_assign.induct)
  case (1 k v)
  then show ?case by (simp add: om_ok_Cons)
next
  case (2 k v k' v' m)
  then show ?case using set_om_assign [of k v m] by (auto simp: om_ok_Cons)
qed

lemma om_find_assign: "om_find (om_assign k v m) l = (if l = k then Some v else om_find m l)"
  by (induction k v m rule: om_assign.induct) auto

lemma om_ok_erase: "om_ok m \<Longrightarrow> om_ok (om_erase k m)"
  by (simp add: om_ok_def om_erase_def sorted_wrt_map sorted_wrt_filter)

lemma om_find_erase: "om_find (om_erase k m) l = (if l = k then None else om_find m l)"
  unfolding om_erase_def by (induction m) auto

interpretation om: ordered_map om_ok om_find om_assign om_erase "[]"
  by unfold_locales (simp_all add: om_ok_assign om_find_assign om_ok_erase om_find_erase)

lemma om_ok_emplace: "om_ok m \<Longrightarrow> om_ok (om_emplace k v m)"
  by (simp add: om_emplace_def om_ok_assign)

lemma om_find_emplace:
  "om_find (om_emplace k v m) l = (if l = k \<and> om_find m k = None then Some v else om_find m l)"
  by (simp add: om_emplace_def om_find_assign)

lemma om_find_SomeD: "om_find m k = Some v \<Longrightarrow> (k, v) \<in> set m"
  by (rule map_of_SomeD)

lemma om_find_eq_Some: "om_ok m \<Longrightarrow> om_find m k = Some v \<longleftrightarrow> (k, v) \<in> set m"
  by (intro map_of_eq_Some_iff) (simp add: om_ok_def strict_sorted_iff)

lemma set_om_erase: "set (om_erase k m) = {e \<in> set m. fst e \<noteq> k}"
  by (simp add: om_erase_def)

lemma set_om_emplace: "set (om_emplace k v m) \<subseteq> insert (k, v) (set m)"
  by (simp add: om_emplace_def set_om_assign subset_insertI)

lemma om_emplace_not_Nil [simp]: "om_emplace k v m \<noteq> []"
  by (cases m) (auto simp: om_emplace_def split: if_splits)

text \<open>\<^verbatim>\<open>begin()->first\<close> is the smallest key.\<close>

lemma om_ok_head: "om_ok (e # m) \<Longrightarrow> x \<in> set (e # m) \<Longrightarrow> fst e \<le> fst x"
  by (auto simp: om_ok_Cons intro: less_imp_le)

lemma length_om_erase: "om_ok m \<Longrightarrow> om_find m k = Some v \<Longrightarrow> Suc (length (om_erase k m)) = length m"
proof (induction m)
  case Nil
  then show ?case by simp
next
  case (Cons e m)
  show ?case
  proof (cases "fst e = k")
    case True
    with Cons.prems have "\<forall>x \<in> set m. fst x \<noteq> k" by (auto simp: om_ok_Cons)
    with True show ?thesis by (simp add: om_erase_def)
  next
    case False
    with Cons show ?thesis by (cases e) (simp add: om_erase_def om_ok_Cons)
  qed
qed

end
