(* ===== verification/User_Agent_Types.thy ===== *)
theory User_Agent_Types
  imports Sip_Message Sdp Digest Ordered_Map "HOL-Library.List_Lexorder" "HOL-Library.Char_ord"
begin

text \<open>
  The data of \<^verbatim>\<open>src/core/user_agent.hpp\<close>: the configuration, the events, the interface of the
  surroundings, and the state of the user agent with its transactions, its registration and its call.

  The handlers of a transaction are closures in the source; here they are the values they capture
  (\<^verbatim>\<open>final_handler\<close>, \<^verbatim>\<open>provisional_handler\<close>). Times and durations are numbers of nanoseconds. The
  interface \<^verbatim>\<open>UserAgentHost\<close> is a record of functions on a state \<^typ>\<open>'h\<close> of the surroundings;
  with them stand the allocator of call ids, which the engine sets, and the system generator that
  the keys are drawn from. The shared Mersenne Twister is part of the state.
\<close>

type_synonym time = int

abbreviation (input) milliseconds :: "int \<Rightarrow> int" where "milliseconds n \<equiv> n * 1000000"
abbreviation (input) seconds :: "int \<Rightarrow> int" where "seconds n \<equiv> n * 1000000000"

record ua_config =
  domain :: string
  extension :: string
  ua_password :: string
  local_address :: string
  local_port :: u16
  transport :: string
  srtp :: bool
  register_expires :: nat
  user_agent_name :: string
  correlation_header :: string

datatype event_kind = Registration | CallIncoming | CallProgress | CallAnswered | CallEnded

datatype end_reason = NoReason | Local | RemoteHangup | RemoteCancelled | Rejected | Timeout | MediaFailed | Shutdown

record event =
  ev_kind :: event_kind
  ev_call_id :: int
  ev_status :: int
  ev_end_reason :: end_reason
  ev_remote :: string
  ev_display_name :: string
  ev_correlation_id :: string

definition new_event :: "event_kind \<Rightarrow> event" where
  "new_event kind = \<lparr>ev_kind = kind, ev_call_id = 0, ev_status = 0, ev_end_reason = NoReason,
     ev_remote = [], ev_display_name = [], ev_correlation_id = []\<rparr>"

record media_keys =
  mk_local :: "byte list"
  mk_remote :: "byte list"

record remote_media =
  rm_address :: string
  rm_port :: nat
  rm_srtp :: "media_keys option"

record 'h ua_host =
  send_sip :: "string \<Rightarrow> 'h \<Rightarrow> 'h"
  open_media :: "'h \<Rightarrow> u16 \<times> 'h"
  start_media :: "remote_media \<Rightarrow> 'h \<Rightarrow> bool \<times> 'h"
  close_media :: "'h \<Rightarrow> 'h"
  allocate_call_id :: "'h \<Rightarrow> int \<times> 'h"
  getentropy :: "nat \<Rightarrow> 'h \<Rightarrow> byte list option \<times> 'h"

datatype command_result = Ok | InvalidArgument | State | NotFound

text \<open>What an INVITE transaction needs to finish itself after the call is gone.\<close>

record invite_context =
  ic_call_id :: int
  ic_uri :: string
  ic_from :: string
  ic_sip_call_id :: string
  ic_cseq :: u32
  ic_branch :: string

datatype final_handler = RegisterFinal nat bool | InviteFinal invite_context | IgnoreFinal

datatype provisional_handler = NoProvisional | InviteProvisional int

record transaction =
  t_method :: string
  t_bytes :: string
  t_retransmitting :: bool
  t_interval :: time
  t_retransmit_at :: time
  t_deadline :: time
  t_on_provisional :: provisional_handler
  t_on_final :: final_handler

record request =
  rq_method :: string
  rq_uri :: string
  rq_from :: string
  rq_to :: string
  rq_call_id :: string
  rq_cseq :: u32
  rq_extra :: "(string \<times> string) list"
  rq_body :: string

datatype call_state = Calling | Ringing | Answering | Confirmed

record call =
  c_id :: int
  c_outgoing :: bool
  c_state :: call_state
  c_sip_call_id :: string
  c_local_tag :: string
  c_local_header :: string
  c_remote_header :: string
  c_remote_target :: string
  c_remote_uri :: string
  c_display_name :: string
  c_local_cseq :: u32
  c_media_open :: bool
  c_local_sdp :: string
  c_media_port :: u16
  c_sdp_session :: u64
  c_sdp_version :: u64
  c_srtp_key :: "byte list"
  c_invite_uri :: string
  c_invite_branch :: string
  c_invite_cseq :: u32
  c_authenticated :: bool
  c_provisional :: bool
  c_last_progress :: int
  c_cancel_requested :: bool
  c_cancel_sent :: bool
  c_ack :: string
  c_invite :: "message option"
  c_offer :: audio_description
  c_last_response :: string
  c_resend_interval :: time
  c_resend_at :: time
  c_ack_deadline :: time
  c_correlation_id :: string

definition no_audio :: audio_description where
  "no_audio = \<lparr>address = [], port = 0, payload_types = [], remote_sends = True, savp = False, crypto = []\<rparr>"

definition new_call :: call where
  "new_call = \<lparr>c_id = 0, c_outgoing = False, c_state = Calling, c_sip_call_id = [], c_local_tag = [],
     c_local_header = [], c_remote_header = [], c_remote_target = [], c_remote_uri = [], c_display_name = [],
     c_local_cseq = 0, c_media_open = False, c_local_sdp = [], c_media_port = 0, c_sdp_session = 0,
     c_sdp_version = 1, c_srtp_key = [], c_invite_uri = [], c_invite_branch = [], c_invite_cseq = 0,
     c_authenticated = False, c_provisional = False, c_last_progress = 0, c_cancel_requested = False,
     c_cancel_sent = False, c_ack = [], c_invite = None, c_offer = no_audio, c_last_response = [],
     c_resend_interval = 0, c_resend_at = 0, c_ack_deadline = 0, c_correlation_id = []\<rparr>"

record registration =
  r_wanted :: bool
  r_registered :: bool
  r_in_flight :: bool
  r_call_id :: string
  r_from_tag :: string
  r_cseq :: u32
  r_next_attempt :: "time option"

record 'h user_agent =
  u_config :: ua_config
  u_host :: 'h
  u_random :: generator
  u_transactions :: "(string, transaction) omap"
  u_registration :: registration
  u_call :: "call option"
  u_events :: "event list"
  u_shutting_down :: bool

text \<open>The constructor draws the identity of the registration.\<close>

definition new_user_agent :: "ua_config \<Rightarrow> 'h \<Rightarrow> generator \<Rightarrow> 'h user_agent" where
  "new_user_agent config host g =
     (let (id1, g) = random_hex 12 g;
          (tag1, g) = random_hex 6 g
      in \<lparr>u_config = config, u_host = host, u_random = g, u_transactions = [],
          u_registration = \<lparr>r_wanted = False, r_registered = False, r_in_flight = False,
            r_call_id = id1 @ ''@ketphone'', r_from_tag = tag1, r_cseq = 1, r_next_attempt = None\<rparr>,
          u_call = None, u_events = [], u_shutting_down = False\<rparr>)"

section \<open>Effects\<close>

definition send_raw :: "'h ua_host \<Rightarrow> string \<Rightarrow> 'h user_agent \<Rightarrow> 'h user_agent" where
  "send_raw H message s = s\<lparr>u_host := send_sip H message (u_host s)\<rparr>"

definition emit :: "event \<Rightarrow> 'h user_agent \<Rightarrow> 'h user_agent" where
  "emit event s = s\<lparr>u_events := u_events s @ [event]\<rparr>"

definition take_events :: "'h user_agent \<Rightarrow> event list \<times> 'h user_agent" where
  "take_events s = (u_events s, s\<lparr>u_events := []\<rparr>)"

text \<open>Calls of \<^verbatim>\<open>sip::random_hex\<close>, of \<^verbatim>\<open>sip::random_u32\<close> and of the host from a method.\<close>

definition draw_hex :: "nat \<Rightarrow> 'h user_agent \<Rightarrow> string \<times> 'h user_agent" where
  "draw_hex n s = (case random_hex n (u_random s) of (x, g) \<Rightarrow> (x, s\<lparr>u_random := g\<rparr>))"

definition draw_u32 :: "'h user_agent \<Rightarrow> u32 \<times> 'h user_agent" where
  "draw_u32 s = (case random_u32 (u_random s) of (x, g) \<Rightarrow> (x, s\<lparr>u_random := g\<rparr>))"

definition host_open :: "'h ua_host \<Rightarrow> 'h user_agent \<Rightarrow> u16 \<times> 'h user_agent" where
  "host_open H s = (case open_media H (u_host s) of (p, h) \<Rightarrow> (p, s\<lparr>u_host := h\<rparr>))"

definition host_start :: "'h ua_host \<Rightarrow> remote_media \<Rightarrow> 'h user_agent \<Rightarrow> bool \<times> 'h user_agent" where
  "host_start H remote s = (case start_media H remote (u_host s) of (ok, h) \<Rightarrow> (ok, s\<lparr>u_host := h\<rparr>))"

definition host_close :: "'h ua_host \<Rightarrow> 'h user_agent \<Rightarrow> 'h user_agent" where
  "host_close H s = s\<lparr>u_host := close_media H (u_host s)\<rparr>"

definition host_allocate :: "'h ua_host \<Rightarrow> 'h user_agent \<Rightarrow> int \<times> 'h user_agent" where
  "host_allocate H s = (case allocate_call_id H (u_host s) of (i, h) \<Rightarrow> (i, s\<lparr>u_host := h\<rparr>))"

definition set_call :: "call \<Rightarrow> 'h user_agent \<Rightarrow> 'h user_agent" where
  "set_call c s = s\<lparr>u_call := Some c\<rparr>"

definition set_registration :: "registration \<Rightarrow> 'h user_agent \<Rightarrow> 'h user_agent" where
  "set_registration r s = s\<lparr>u_registration := r\<rparr>"

text \<open>\<^verbatim>\<open>idle()\<close>, \<^verbatim>\<open>registered()\<close> and \<^verbatim>\<open>has_call()\<close>.\<close>

definition idle :: "'h user_agent \<Rightarrow> bool" where "idle s \<longleftrightarrow> u_transactions s = []"
definition registered :: "'h user_agent \<Rightarrow> bool" where "registered s \<longleftrightarrow> r_registered (u_registration s)"
definition has_call :: "'h user_agent \<Rightarrow> bool" where "has_call s \<longleftrightarrow> u_call s \<noteq> None"

end
