(* ===== verification/User_Agent_Messages.thy ===== *)
theory User_Agent_Messages
  imports User_Agent_Types
begin

text \<open>
  The first part of \<^verbatim>\<open>src/core/user_agent.cpp\<close>: the texts the user agent sends. Addresses and
  header values, requests and responses, session descriptions and the answer to an authentication
  challenge.
\<close>

definition kAllow :: string where "kAllow = ''INVITE, ACK, CANCEL, BYE, OPTIONS''"

abbreviation (input) kOfferTag :: nat where "kOfferTag \<equiv> 1"

definition tagged :: "string \<Rightarrow> string \<Rightarrow> string" where
  "tagged hdr t = (if param_of hdr ''tag'' \<noteq> None then hdr else hdr @ '';tag='' @ t)"

definition branch_of :: "message \<Rightarrow> string" where
  "branch_of m =
     (case header m ''via'' of
        None \<Rightarrow> []
      | Some via \<Rightarrow>
          (case param_of (before (find_char (CHR '','') via) via) ''branch'' of None \<Rightarrow> [] | Some b \<Rightarrow> b))"

definition sip_host :: "string \<Rightarrow> string" where
  "sip_host addr = (if CHR '':'' \<in> set addr \<and> \<not> starts_with addr ''['' then ''['' @ addr @ '']'' else addr)"

definition aor :: "ua_config \<Rightarrow> string" where
  "aor cfg = ''sip:'' @ extension cfg @ ''@'' @ sip_host (domain cfg)"

definition sent_by :: "ua_config \<Rightarrow> string" where
  "sent_by cfg = sip_host (local_address cfg) @
     (if local_port cfg \<noteq> 0 then '':'' @ to_string (unat (local_port cfg)) else [])"

definition contact :: "ua_config \<Rightarrow> string" where
  "contact cfg = ''<sip:'' @ extension cfg @ ''@'' @ sent_by cfg @ '';transport='' @ lowercase (transport cfg) @ ''>''"

definition via_value :: "ua_config \<Rightarrow> string \<Rightarrow> string" where
  "via_value cfg branch = ''SIP/2.0/'' @ transport cfg @ '' '' @ sent_by cfg @ '';branch='' @ branch @ '';rport''"

definition reliable :: "ua_config \<Rightarrow> bool" where "reliable cfg \<longleftrightarrow> transport cfg \<noteq> ''UDP''"

text \<open>Whether the media suit this side, and the key that is handed out through the pointer.\<close>

definition acceptable :: "ua_config \<Rightarrow> audio_description \<Rightarrow> bool \<times> sdes_crypto option" where
  "acceptable cfg media =
     (if \<not> offers_pcma media then (False, None)
      else if \<not> srtp cfg then (\<not> savp media, None)
      else if crypto media = [] then (False, None)
      else (True, Some (hd (crypto media))))"

definition local_crypto_for :: "ua_config \<Rightarrow> call \<Rightarrow> audio_description option \<Rightarrow> local_crypto option" where
  "local_crypto_for cfg c answering =
     (if srtp cfg then
        Some (case answering of
          None \<Rightarrow> \<lparr>lc_savp = True, lc_tag = kOfferTag, lc_key = c_srtp_key c\<rparr>
        | Some offer \<Rightarrow>
            (case acceptable cfg offer of
               (True, Some chosen) \<Rightarrow> \<lparr>lc_savp = savp offer, lc_tag = tag chosen, lc_key = c_srtp_key c\<rparr>
             | _ \<Rightarrow> \<lparr>lc_savp = True, lc_tag = kOfferTag, lc_key = c_srtp_key c\<rparr>))
      else None)"

definition local_sdp_for :: "ua_config \<Rightarrow> call \<Rightarrow> audio_description option \<Rightarrow> string \<times> call" where
  "local_sdp_for cfg c answering =
     (build_audio_sdp (local_address cfg) (unat (c_media_port c)) (unat (c_sdp_session c))
        (unat (c_sdp_version c)) (local_crypto_for cfg c answering),
      c\<lparr>c_sdp_version := c_sdp_version c + 1\<rparr>)"

definition remote_media_for :: "ua_config \<Rightarrow> call \<Rightarrow> audio_description \<Rightarrow> sdes_crypto option \<Rightarrow> remote_media" where
  "remote_media_for cfg c media k =
     \<lparr>rm_address = address media, rm_port = port media,
      rm_srtp = (case k of
        Some k' \<Rightarrow> if srtp cfg then Some \<lparr>mk_local = c_srtp_key c, mk_remote = key k'\<rparr> else None
      | None \<Rightarrow> None)\<rparr>"

text \<open>
  The key of the call; when the system generator fails the buffer is left as zeros and the call is
  given up.
\<close>

definition new_srtp_key :: "'h ua_host \<Rightarrow> call \<Rightarrow> 'h user_agent \<Rightarrow> bool \<times> call \<times> 'h user_agent" where
  "new_srtp_key H c s =
     (if \<not> srtp (u_config s) then (True, c, s)
      else case secure_random (getentropy H) kSdesKeyLength (u_host s) of
        (None, h) \<Rightarrow> (False, c\<lparr>c_srtp_key := replicate kSdesKeyLength 0\<rparr>, s\<lparr>u_host := h\<rparr>)
      | (Some bytes, h) \<Rightarrow> (True, c\<lparr>c_srtp_key := bytes\<rparr>, s\<lparr>u_host := h\<rparr>))"

definition add_all :: "(string \<times> string) list \<Rightarrow> builder \<Rightarrow> builder" where
  "add_all hs b = fold (\<lambda>(name, value). add name value) hs b"

definition add_if :: "bool \<Rightarrow> string \<Rightarrow> string \<Rightarrow> builder \<Rightarrow> builder" where
  "add_if c name value b = (if c then add name value b else b)"

definition body_if :: "string \<Rightarrow> builder \<Rightarrow> builder" where
  "body_if body b = (if body \<noteq> [] then set_body ''application/sdp'' body b else b)"

definition build_request :: "ua_config \<Rightarrow> request \<Rightarrow> string \<Rightarrow> string" where
  "build_request cfg rq branch =
     (let b = new_builder (rq_method rq @ '' '' @ rq_uri rq @ '' SIP/2.0'');
          b = add ''Via'' (via_value cfg branch) b;
          b = add ''Max-Forwards'' ''70'' b;
          b = add ''From'' (rq_from rq) b;
          b = add ''To'' (rq_to rq) b;
          b = add ''Call-ID'' (rq_call_id rq) b;
          b = add ''CSeq'' (to_string (unat (rq_cseq rq)) @ '' '' @ rq_method rq) b;
          b = add_if (rq_method rq \<noteq> ''ACK'' \<and> rq_method rq \<noteq> ''CANCEL'') ''Contact'' (contact cfg) b;
          b = add_all (rq_extra rq) b;
          b = add ''User-Agent'' (user_agent_name cfg) b
      in build (body_if (rq_body rq) b))"

definition to_header :: "message \<Rightarrow> int \<Rightarrow> string \<Rightarrow> string" where
  "to_header rq status to_tag =
     (let to = header_or_empty rq ''to''
      in if to_tag \<noteq> [] \<and> status > 100 then tagged to to_tag else to)"

definition response_builder :: "ua_config \<Rightarrow> message \<Rightarrow> int \<Rightarrow> string \<Rightarrow> string \<Rightarrow> builder" where
  "response_builder cfg rq status to_tag body =
     (let b = new_builder (''SIP/2.0 '' @ to_string (nat status) @ '' '' @ reason_phrase status);
          b = add_all (map (\<lambda>v. (''Via'', v)) (header_all rq ''via'')) b;
          b = add ''From'' (header_or_empty rq ''from'') b;
          b = add ''To'' (to_header rq status to_tag) b;
          b = add ''Call-ID'' (header_or_empty rq ''call-id'') b;
          b = add ''CSeq'' (header_or_empty rq ''cseq'') b;
          b = add_if (m_method rq = ''INVITE'' \<and> status < 300) ''Contact'' (contact cfg) b;
          b = add_if (m_method rq = ''OPTIONS'' \<or> status = 501) ''Allow'' kAllow b;
          b = add ''User-Agent'' (user_agent_name cfg) b
      in body_if body b)"

definition build_response :: "ua_config \<Rightarrow> message \<Rightarrow> int \<Rightarrow> string \<Rightarrow> string \<Rightarrow> string" where
  "build_response cfg rq status to_tag body = build (response_builder cfg rq status to_tag body)"

definition authorization_for ::
  "message \<Rightarrow> string \<Rightarrow> string \<Rightarrow> 'h user_agent \<Rightarrow> string option \<times> 'h user_agent" where
  "authorization_for m method uri s =
     (let proxy = (m_status m = 407)
      in case header m (if proxy then ''proxy-authenticate'' else ''www-authenticate'') of
           None \<Rightarrow> (None, s)
         | Some value \<Rightarrow>
             (case parse_challenge value of
                None \<Rightarrow> (None, s)
              | Some parsed \<Rightarrow>
                  (case authorization_value
                      \<lparr>username = extension (u_config s), password = ua_password (u_config s)\<rparr>
                      parsed method uri (u_random s) of
                     (None, g) \<Rightarrow> (None, s\<lparr>u_random := g\<rparr>)
                   | (Some authorization, g) \<Rightarrow>
                       (Some ((if proxy then ''Proxy-Authorization'' else ''Authorization'') @ '': '' @ authorization),
                        s\<lparr>u_random := g\<rparr>))))"

text \<open>The header that \<^verbatim>\<open>send_register\<close> and \<^verbatim>\<open>send_invite\<close> cut out of an authorization.\<close>

definition authorization_header :: "string \<Rightarrow> (string \<times> string) list" where
  "authorization_header authorization =
     (if authorization = [] then []
      else let colon = find_char (CHR '':'') authorization
           in [(before colon authorization,
                trim (case colon of None \<Rightarrow> authorization | Some k \<Rightarrow> drop (k + 1) authorization))])"

end
