(* ===== verification/User_Agent.thy ===== *)
theory User_Agent
  imports User_Agent_Messages
begin

text \<open>
  The state machine of \<^verbatim>\<open>src/core/user_agent.cpp\<close>: registration, outgoing and incoming calls,
  dispatch of messages, timers. Every method is a function of the state and of the \<^verbatim>\<open>now\<close> it is
  given. A method that works on \<^verbatim>\<open>*call_\<close> does nothing when there is no call; its callers only call
  it when there is one.
\<close>

abbreviation (input) kT1 :: time where "kT1 \<equiv> milliseconds 500"
abbreviation (input) kT2 :: time where "kT2 \<equiv> seconds 4"
abbreviation (input) kTransactionTimeout :: time where "kTransactionTimeout \<equiv> 64 * kT1"
abbreviation (input) kInviteAfterProvisional :: time where "kInviteAfterProvisional \<equiv> seconds 180"
abbreviation (input) kRegisterRetry :: time where "kRegisterRetry \<equiv> seconds 30"
abbreviation (input) kMinimumRefresh :: time where "kMinimumRefresh \<equiv> seconds 5"

section \<open>Requests\<close>

definition new_transaction ::
  "ua_config \<Rightarrow> request \<Rightarrow> string \<Rightarrow> time \<Rightarrow> final_handler \<Rightarrow> provisional_handler \<Rightarrow> transaction" where
  "new_transaction cfg rq branch now on_final on_provisional =
     \<lparr>t_method = rq_method rq, t_bytes = build_request cfg rq branch, t_retransmitting = \<not> reliable cfg,
      t_interval = kT1, t_retransmit_at = now + kT1, t_deadline = now + kTransactionTimeout,
      t_on_provisional = on_provisional, t_on_final = on_final\<rparr>"

definition transaction_key :: "string \<Rightarrow> string \<Rightarrow> string" where
  "transaction_key branch method = branch @ '' '' @ method"

text \<open>No caller reads the branch that \<^verbatim>\<open>send_request\<close> returns.\<close>

definition send_request ::
  "'h ua_host \<Rightarrow> request \<Rightarrow> time \<Rightarrow> final_handler \<Rightarrow> provisional_handler \<Rightarrow> string \<Rightarrow> 'h user_agent \<Rightarrow> 'h user_agent" where
  "send_request H rq now on_final on_provisional branch s =
     (let (branch, s) = (if branch = [] then (let (x, s) = draw_hex 10 s in (''z9hG4bK'' @ x, s)) else (branch, s));
          t = new_transaction (u_config s) rq branch now on_final on_provisional;
          s = send_raw H (t_bytes t) s
      in s\<lparr>u_transactions := om_assign (transaction_key branch (rq_method rq)) t (u_transactions s)\<rparr>)"

section \<open>Registration\<close>

definition server_uri :: "ua_config \<Rightarrow> string" where "server_uri cfg = ''sip:'' @ sip_host (domain cfg)"

definition register_request :: "ua_config \<Rightarrow> registration \<Rightarrow> nat \<Rightarrow> string \<Rightarrow> request" where
  "register_request cfg r expires authorization =
     \<lparr>rq_method = ''REGISTER'', rq_uri = server_uri cfg,
      rq_from = ''<'' @ aor cfg @ ''>;tag='' @ r_from_tag r, rq_to = ''<'' @ aor cfg @ ''>'',
      rq_call_id = r_call_id r, rq_cseq = r_cseq r,
      rq_extra = [(''Expires'', to_string expires), (''Allow'', kAllow)] @ authorization_header authorization,
      rq_body = []\<rparr>"

definition send_register :: "'h ua_host \<Rightarrow> nat \<Rightarrow> string \<Rightarrow> time \<Rightarrow> 'h user_agent \<Rightarrow> 'h user_agent" where
  "send_register H expires authorization now s =
     (let r = u_registration s;
          rq = register_request (u_config s) r expires authorization;
          s = set_registration (r\<lparr>r_cseq := r_cseq r + 1, r_in_flight := True\<rparr>) s
      in send_request H rq now (RegisterFinal expires (authorization \<noteq> [])) NoProvisional [] s)"

definition start_registration :: "'h ua_host \<Rightarrow> time \<Rightarrow> 'h user_agent \<Rightarrow> 'h user_agent" where
  "start_registration H now s =
     (if u_shutting_down s then s
      else let s = set_registration ((u_registration s)\<lparr>r_wanted := True, r_next_attempt := None\<rparr>) s
           in if \<not> r_in_flight (u_registration s) then send_register H (register_expires (u_config s)) [] now s else s)"

definition stop_registration :: "'h ua_host \<Rightarrow> time \<Rightarrow> 'h user_agent \<Rightarrow> 'h user_agent" where
  "stop_registration H now s =
     (let s = set_registration ((u_registration s)\<lparr>r_wanted := False, r_next_attempt := None\<rparr>) s
      in if r_registered (u_registration s) \<or> r_in_flight (u_registration s) then
           send_register H 0 [] now (set_registration ((u_registration s)\<lparr>r_registered := False\<rparr>) s)
         else s)"

text \<open>How long the server granted the registration.\<close>

definition granted_expires :: "ua_config \<Rightarrow> message \<Rightarrow> nat \<Rightarrow> nat" where
  "granted_expires cfg response expires =
     (case header response ''expires'' of
        Some value \<Rightarrow> (case parse_integer 32 value of None \<Rightarrow> expires | Some n \<Rightarrow> n)
      | None \<Rightarrow>
          fold (\<lambda>value granted.
              if find_str (local_address cfg) (uri_of value) = None then granted
              else case param_of value ''expires'' of
                None \<Rightarrow> granted
              | Some p \<Rightarrow> (case parse_integer 32 p of None \<Rightarrow> granted | Some n \<Rightarrow> n))
            (header_all response ''contact'') expires)"

definition refresh_after :: "nat \<Rightarrow> time" where
  "refresh_after granted = max (seconds (int granted div 2)) kMinimumRefresh"

definition success :: "int \<Rightarrow> bool" where "success status \<longleftrightarrow> 200 \<le> status \<and> status < 300"

text \<open>The end of \<^verbatim>\<open>on_register_final\<close>, when a registration that is wanted was answered.\<close>

definition finish_register :: "message option \<Rightarrow> int \<Rightarrow> nat \<Rightarrow> time \<Rightarrow> 'h user_agent \<Rightarrow> 'h user_agent" where
  "finish_register response status expires now s =
     (let r = u_registration s;
          r = (if success status then
                 r\<lparr>r_registered := True,
                   r_next_attempt := Some (now + refresh_after (case response of
                     None \<Rightarrow> expires | Some m \<Rightarrow> granted_expires (u_config s) m expires))\<rparr>
               else if status = 408 \<or> 500 \<le> status then
                 r\<lparr>r_registered := False, r_next_attempt := Some (now + kRegisterRetry)\<rparr>
               else r\<lparr>r_registered := False\<rparr>)
      in emit ((new_event Registration)\<lparr>ev_status := status\<rparr>) (set_registration r s))"

definition settle_register :: "'h ua_host \<Rightarrow> message option \<Rightarrow> int \<Rightarrow> nat \<Rightarrow> time \<Rightarrow> 'h user_agent \<Rightarrow> 'h user_agent" where
  "settle_register H response status expires now s =
     (if expires = 0 then s
      else if \<not> r_wanted (u_registration s) then
        (if success status then send_register H 0 [] now s else s)
      else finish_register response status expires now s)"

definition is_challenge :: "int \<Rightarrow> bool" where "is_challenge status \<longleftrightarrow> status = 401 \<or> status = 407"

definition on_register_final ::
  "'h ua_host \<Rightarrow> message option \<Rightarrow> nat \<Rightarrow> bool \<Rightarrow> time \<Rightarrow> 'h user_agent \<Rightarrow> 'h user_agent" where
  "on_register_final H response expires authenticated now s =
     (let s = set_registration ((u_registration s)\<lparr>r_in_flight := False\<rparr>) s;
          status = (case response of None \<Rightarrow> 408 | Some m \<Rightarrow> m_status m)
      in case response of
           Some m \<Rightarrow>
             (if is_challenge status \<and> \<not> authenticated then
                (case authorization_for m ''REGISTER'' (server_uri (u_config s)) s of
                   (Some authorization, s) \<Rightarrow> send_register H expires authorization now s
                 | (None, s) \<Rightarrow> settle_register H response status expires now s)
              else settle_register H response status expires now s)
         | None \<Rightarrow> settle_register H response status expires now s)"

section \<open>Calls\<close>

definition end_call :: "'h ua_host \<Rightarrow> end_reason \<Rightarrow> int \<Rightarrow> 'h user_agent \<Rightarrow> 'h user_agent" where
  "end_call H reason status s =
     (case u_call s of
        None \<Rightarrow> s
      | Some c \<Rightarrow>
          (let s = (if c_media_open c then host_close H s else s)
           in emit ((new_event CallEnded)\<lparr>ev_call_id := c_id c, ev_status := status, ev_end_reason := reason,
                 ev_remote := c_remote_uri c, ev_display_name := c_display_name c\<rparr>)
                (s\<lparr>u_call := None\<rparr>)))"

definition invite_request :: "call \<Rightarrow> string \<Rightarrow> request" where
  "invite_request c authorization =
     \<lparr>rq_method = ''INVITE'', rq_uri = c_invite_uri c, rq_from = c_local_header c,
      rq_to = ''<'' @ c_invite_uri c @ ''>'', rq_call_id = c_sip_call_id c, rq_cseq = c_local_cseq c,
      rq_extra = (''Allow'', kAllow) # authorization_header authorization, rq_body = c_local_sdp c\<rparr>"

definition send_invite :: "'h ua_host \<Rightarrow> string \<Rightarrow> time \<Rightarrow> 'h user_agent \<Rightarrow> 'h user_agent" where
  "send_invite H authorization now s =
     (case u_call s of
        None \<Rightarrow> s
      | Some c \<Rightarrow>
          (let rq = invite_request c authorization;
               (x, s) = draw_hex 10 s;
               ctx = \<lparr>ic_call_id = c_id c, ic_uri = rq_uri rq, ic_from = rq_from rq,
                 ic_sip_call_id = rq_call_id rq, ic_cseq = rq_cseq rq, ic_branch = ''z9hG4bK'' @ x\<rparr>;
               s = set_call (c\<lparr>c_local_cseq := c_local_cseq c + 1, c_invite_cseq := rq_cseq rq,
                 c_invite_branch := ic_branch ctx, c_provisional := False\<rparr>) s
           in send_request H rq now (InviteFinal ctx) (InviteProvisional (c_id c)) (ic_branch ctx) s))"

definition forbidden_in_target :: string where
  "forbidden_in_target = '' '' @ [TAB, CR, LF] @ ''<>'' @ [QUOTE] @ ''@;''"

definition outgoing_call :: "ua_config \<Rightarrow> int \<Rightarrow> string \<Rightarrow> u16 \<Rightarrow> string \<Rightarrow> string \<Rightarrow> u32 \<Rightarrow> call" where
  "outgoing_call cfg call_id target p sip_call_id local_tag session =
     (let uri = ''sip:'' @ target @ ''@'' @ sip_host (domain cfg)
      in new_call\<lparr>c_id := call_id, c_outgoing := True, c_state := Calling,
           c_sip_call_id := sip_call_id @ ''@ketphone'', c_local_tag := local_tag, c_invite_uri := uri,
           c_remote_uri := uri, c_local_header := ''<'' @ aor cfg @ ''>;tag='' @ local_tag,
           c_remote_header := ''<'' @ uri @ ''>'', c_local_cseq := 1, c_media_open := (p \<noteq> 0),
           c_media_port := p, c_sdp_session := ucast session\<rparr>)"

definition start_call :: "'h ua_host \<Rightarrow> int \<Rightarrow> string \<Rightarrow> 'h user_agent \<Rightarrow> u16 \<times> call \<times> 'h user_agent" where
  "start_call H call_id target s =
     (let (p, s) = host_open H s;
          (x, s) = draw_hex 12 s;
          (local_tag, s) = draw_hex 6 s;
          (session, s) = draw_u32 s
      in (p, outgoing_call (u_config s) call_id target p x local_tag session, s))"

definition make_call :: "'h ua_host \<Rightarrow> int \<Rightarrow> string \<Rightarrow> time \<Rightarrow> 'h user_agent \<Rightarrow> command_result \<times> 'h user_agent" where
  "make_call H call_id target now s =
     (if target = [] \<or> find_first_of forbidden_in_target target \<noteq> None then (InvalidArgument, s)
      else if u_call s \<noteq> None \<or> u_shutting_down s then (State, s)
      else let (p, c, s) = start_call H call_id target s
           in if p = 0 then (Ok, end_call H MediaFailed 0 (set_call c s))
              else case new_srtp_key H c s of
                (False, c, s) \<Rightarrow> (Ok, end_call H MediaFailed 0 (set_call c s))
              | (True, c, s) \<Rightarrow>
                  (case local_sdp_for (u_config s) c None of
                     (sdp, c) \<Rightarrow> (Ok, send_invite H [] now (set_call (c\<lparr>c_local_sdp := sdp\<rparr>) s))))"

definition send_cancel :: "'h ua_host \<Rightarrow> time \<Rightarrow> 'h user_agent \<Rightarrow> 'h user_agent" where
  "send_cancel H now s =
     (case u_call s of
        None \<Rightarrow> s
      | Some c \<Rightarrow>
          send_request H
            \<lparr>rq_method = ''CANCEL'', rq_uri = c_invite_uri c, rq_from = c_local_header c,
             rq_to = ''<'' @ c_invite_uri c @ ''>'', rq_call_id = c_sip_call_id c, rq_cseq = c_invite_cseq c,
             rq_extra = [], rq_body = []\<rparr>
            now IgnoreFinal NoProvisional (c_invite_branch c) (set_call (c\<lparr>c_cancel_sent := True\<rparr>) s))"

definition bye_request :: "string \<Rightarrow> string \<Rightarrow> string \<Rightarrow> string \<Rightarrow> u32 \<Rightarrow> request" where
  "bye_request uri from to call_id cseq =
     \<lparr>rq_method = ''BYE'', rq_uri = uri, rq_from = from, rq_to = to, rq_call_id = call_id, rq_cseq = cseq,
      rq_extra = [], rq_body = []\<rparr>"

definition send_bye :: "'h ua_host \<Rightarrow> time \<Rightarrow> 'h user_agent \<Rightarrow> 'h user_agent" where
  "send_bye H now s =
     (case u_call s of
        None \<Rightarrow> s
      | Some c \<Rightarrow>
          send_request H
            (bye_request (c_remote_target c) (c_local_header c) (c_remote_header c) (c_sip_call_id c) (c_local_cseq c))
            now IgnoreFinal NoProvisional [] (set_call (c\<lparr>c_local_cseq := c_local_cseq c + 1\<rparr>) s))"

definition progress_event :: "call \<Rightarrow> int \<Rightarrow> event" where
  "progress_event c status =
     (new_event CallProgress)\<lparr>ev_call_id := c_id c, ev_status := status, ev_remote := c_remote_uri c\<rparr>"

definition on_invite_provisional :: "'h ua_host \<Rightarrow> int \<Rightarrow> message \<Rightarrow> time \<Rightarrow> 'h user_agent \<Rightarrow> 'h user_agent" where
  "on_invite_provisional H call_id response now s =
     (case u_call s of
        None \<Rightarrow> s
      | Some c \<Rightarrow>
          if c_id c \<noteq> call_id \<or> c_state c \<noteq> Calling then s
          else let c = c\<lparr>c_provisional := True\<rparr>
               in if c_cancel_requested c \<and> \<not> c_cancel_sent c then send_cancel H now (set_call c s)
                  else if (m_status response = 180 \<or> m_status response = 183) \<and> c_last_progress c \<noteq> m_status response then
                    emit (progress_event c (m_status response))
                      (set_call (c\<lparr>c_last_progress := m_status response\<rparr>) s)
                  else set_call c s)"

text \<open>The ACK of a final response other than 2xx, sent within the INVITE's transaction.\<close>

definition failure_ack :: "ua_config \<Rightarrow> invite_context \<Rightarrow> message \<Rightarrow> string" where
  "failure_ack cfg ctx response =
     (let b = new_builder (''ACK '' @ ic_uri ctx @ '' SIP/2.0'');
          b = add ''Via'' (via_value cfg (ic_branch ctx)) b;
          b = add ''Max-Forwards'' ''70'' b;
          b = add ''From'' (ic_from ctx) b;
          b = add ''To'' (header_or_empty response ''to'') b;
          b = add ''Call-ID'' (ic_sip_call_id ctx) b;
          b = add ''CSeq'' (to_string (unat (ic_cseq ctx)) @ '' ACK'') b
      in build (add ''User-Agent'' (user_agent_name cfg) b))"

definition send_ack_for_failure ::
  "'h ua_host \<Rightarrow> invite_context \<Rightarrow> message \<Rightarrow> 'h user_agent \<Rightarrow> 'h user_agent" where
  "send_ack_for_failure H ctx response s = send_raw H (failure_ack (u_config s) ctx response) s"

definition ours :: "invite_context \<Rightarrow> 'h user_agent \<Rightarrow> bool" where
  "ours ctx s = (case u_call s of
     None \<Rightarrow> False
   | Some c \<Rightarrow> c_id c = ic_call_id ctx \<and> c_invite_branch c = ic_branch ctx)"

definition contact_or :: "message \<Rightarrow> string \<Rightarrow> string" where
  "contact_or m fallback = (case header m ''contact'' of Some value \<Rightarrow> uri_of value | None \<Rightarrow> fallback)"

definition success_ack :: "invite_context \<Rightarrow> message \<Rightarrow> request" where
  "success_ack ctx response =
     \<lparr>rq_method = ''ACK'', rq_uri = contact_or response (ic_uri ctx), rq_from = ic_from ctx,
      rq_to = header_or_empty response ''to'', rq_call_id = ic_sip_call_id ctx, rq_cseq = ic_cseq ctx,
      rq_extra = [], rq_body = []\<rparr>"

text \<open>
  The media of an answer this side can use, with its key: under SRTP the crypto line with the tag
  of this side's offer.
\<close>

definition usable_answer :: "ua_config \<Rightarrow> string \<Rightarrow> (audio_description \<times> sdes_crypto option) option" where
  "usable_answer cfg body =
     (case parse_audio body of
        None \<Rightarrow> None
      | Some answer \<Rightarrow>
          (case acceptable cfg answer of
             (False, _) \<Rightarrow> None
           | (True, k) \<Rightarrow>
               if srtp cfg then
                 (case find (\<lambda>c. tag c = kOfferTag) (crypto answer) of
                    None \<Rightarrow> None
                  | Some accepted \<Rightarrow> Some (answer, Some accepted))
               else Some (answer, k)))"

definition local_end :: "'h user_agent \<Rightarrow> end_reason" where
  "local_end s = (if u_shutting_down s then Shutdown else Local)"

definition answered_event :: "call \<Rightarrow> int \<Rightarrow> event" where
  "answered_event c status =
     (new_event CallAnswered)\<lparr>ev_call_id := c_id c, ev_status := status, ev_remote := c_remote_uri c\<rparr>"

definition fail_answered :: "'h ua_host \<Rightarrow> time \<Rightarrow> 'h user_agent \<Rightarrow> 'h user_agent" where
  "fail_answered H now s = end_call H MediaFailed 488 (send_bye H now s)"

definition start_answered :: "'h ua_host \<Rightarrow> call \<Rightarrow> message \<Rightarrow> time \<Rightarrow> 'h user_agent \<Rightarrow> 'h user_agent" where
  "start_answered H c response now s =
     (case usable_answer (u_config s) (m_body response) of
        None \<Rightarrow> fail_answered H now s
      | Some (answer, k) \<Rightarrow>
          (case host_start H (remote_media_for (u_config s) c answer k) s of
             (False, s) \<Rightarrow> fail_answered H now s
           | (True, s) \<Rightarrow> emit (answered_event c (m_status response)) s))"

text \<open>A 2xx: acknowledged whatever became of the call.\<close>

definition on_invite_success :: "'h ua_host \<Rightarrow> invite_context \<Rightarrow> message \<Rightarrow> time \<Rightarrow> 'h user_agent \<Rightarrow> 'h user_agent" where
  "on_invite_success H ctx response now s =
     (let mine = ours ctx s;
          to = header_or_empty response ''to'';
          target = contact_or response (ic_uri ctx);
          (x, s) = draw_hex 10 s;
          ack_bytes = build_request (u_config s) (success_ack ctx response) (''z9hG4bK'' @ x);
          s = send_raw H ack_bytes s
      in case (mine, u_call s) of
           (True, Some c) \<Rightarrow>
             (let c = c\<lparr>c_ack := ack_bytes, c_remote_header := to, c_remote_target := target, c_state := Confirmed\<rparr>;
                  s = set_call c s
              in if c_cancel_requested c then end_call H (local_end s) 0 (send_bye H now s)
                 else start_answered H c response now s)
         | _ \<Rightarrow>
             send_request H (bye_request target (ic_from ctx) to (ic_sip_call_id ctx) (ic_cseq ctx + 1))
               now IgnoreFinal NoProvisional [] s)"

definition reject_invite :: "'h ua_host \<Rightarrow> call \<Rightarrow> int \<Rightarrow> 'h user_agent \<Rightarrow> 'h user_agent" where
  "reject_invite H c status s =
     (if c_cancel_requested c then end_call H (local_end s) status s else end_call H Rejected status s)"

definition on_invite_final ::
  "'h ua_host \<Rightarrow> invite_context \<Rightarrow> message option \<Rightarrow> time \<Rightarrow> 'h user_agent \<Rightarrow> 'h user_agent" where
  "on_invite_final H ctx response now s =
     (case response of
        None \<Rightarrow> (if ours ctx s then end_call H Timeout 408 s else s)
      | Some m \<Rightarrow>
          if m_status m < 300 then on_invite_success H ctx m now s
          else let s = send_ack_for_failure H ctx m s
               in case u_call s of
                    None \<Rightarrow> s
                  | Some c \<Rightarrow>
                      if \<not> ours ctx s then s
                      else if is_challenge (m_status m) \<and> \<not> c_authenticated c \<and> \<not> c_cancel_requested c then
                        (case authorization_for m ''INVITE'' (c_invite_uri c) s of
                           (Some authorization, s) \<Rightarrow>
                             send_invite H authorization now (set_call (c\<lparr>c_authenticated := True\<rparr>) s)
                         | (None, s) \<Rightarrow> reject_invite H c (m_status m) s)
                      else reject_invite H c (m_status m) s)"

section \<open>Incoming calls\<close>

definition respond :: "'h ua_host \<Rightarrow> message \<Rightarrow> int \<Rightarrow> string \<Rightarrow> string \<Rightarrow> 'h user_agent \<Rightarrow> 'h user_agent" where
  "respond H rq status to_tag body s = send_raw H (build_response (u_config s) rq status to_tag body) s"

definition on_reinvite :: "'h ua_host \<Rightarrow> message \<Rightarrow> call \<Rightarrow> 'h user_agent \<Rightarrow> 'h user_agent" where
  "on_reinvite H rq c s =
     (case (m_body rq, parse_audio (m_body rq)) of
        (_ # _, Some offer) \<Rightarrow>
          (case acceptable (u_config s) offer of
             (False, _) \<Rightarrow> respond H rq 488 [] [] s
           | (True, k) \<Rightarrow>
               (let (answer, c) = (if srtp (u_config s) then local_sdp_for (u_config s) c (Some offer)
                                   else (c_local_sdp c, c));
                    s = set_call c s
                in case host_start H (remote_media_for (u_config s) c offer k) s of
                     (False, s) \<Rightarrow> respond H rq 488 [] [] s
                   | (True, s) \<Rightarrow> respond H rq 200 [] answer (set_call (c\<lparr>c_local_sdp := answer\<rparr>) s)))
      | _ \<Rightarrow> respond H rq 488 [] [] s)"

definition incoming_call :: "ua_config \<Rightarrow> message \<Rightarrow> audio_description \<Rightarrow> int \<Rightarrow> string \<Rightarrow> call" where
  "incoming_call cfg rq offer call_id local_tag =
     (let from = header_or_empty rq ''from''
      in new_call\<lparr>c_id := call_id, c_outgoing := False, c_state := Ringing,
           c_sip_call_id := header_or_empty rq ''call-id'', c_local_tag := local_tag,
           c_local_header := tagged (header_or_empty rq ''to'') local_tag, c_remote_header := from,
           c_remote_uri := uri_of from, c_display_name := display_name_of from,
           c_remote_target := contact_or rq (uri_of from), c_local_cseq := 1, c_invite := Some rq,
           c_offer := offer,
           c_correlation_id := (if correlation_header cfg \<noteq> [] then
             header_or_empty rq (lowercase (correlation_header cfg)) else []),
           c_last_response := build_response cfg rq 180 local_tag []\<rparr>)"

definition incoming_event :: "call \<Rightarrow> event" where
  "incoming_event c =
     (new_event CallIncoming)\<lparr>ev_call_id := c_id c, ev_remote := c_remote_uri c,
        ev_display_name := c_display_name c, ev_correlation_id := c_correlation_id c\<rparr>"

definition on_new_invite :: "'h ua_host \<Rightarrow> message \<Rightarrow> 'h user_agent \<Rightarrow> 'h user_agent" where
  "on_new_invite H rq s =
     (let (local_tag, s) = draw_hex 6 s
      in if u_call s \<noteq> None \<or> u_shutting_down s then respond H rq 486 local_tag [] s
         else case parse_audio (m_body rq) of
           None \<Rightarrow> respond H rq 488 local_tag [] s
         | Some offer \<Rightarrow>
             if \<not> fst (acceptable (u_config s) offer) then respond H rq 488 local_tag [] s
             else let (i, s) = host_allocate H s;
                      c = incoming_call (u_config s) rq offer i local_tag;
                      s = send_raw H (c_last_response c) s
                  in emit (incoming_event c) (set_call c s))"

definition on_invite_request :: "'h ua_host \<Rightarrow> message \<Rightarrow> 'h user_agent \<Rightarrow> 'h user_agent" where
  "on_invite_request H rq s =
     (case u_call s of
        Some c \<Rightarrow>
          if c_sip_call_id c = header_or_empty rq ''call-id'' then
            (if \<not> c_outgoing c \<and> c_state c \<noteq> Confirmed then
               (if c_last_response c \<noteq> [] then send_raw H (c_last_response c) s else s)
             else on_reinvite H rq c s)
          else on_new_invite H rq s
      | None \<Rightarrow> on_new_invite H rq s)"

definition the_invite :: "call \<Rightarrow> message" where
  "the_invite c = (case c_invite c of Some m \<Rightarrow> m | None \<Rightarrow> empty_message)"

definition fail_answer :: "'h ua_host \<Rightarrow> call \<Rightarrow> 'h user_agent \<Rightarrow> 'h user_agent" where
  "fail_answer H c s = end_call H MediaFailed 500 (respond H (the_invite c) 500 (c_local_tag c) [] (set_call c s))"

definition finish_answer :: "'h ua_host \<Rightarrow> call \<Rightarrow> time \<Rightarrow> 'h user_agent \<Rightarrow> 'h user_agent" where
  "finish_answer H c now s =
     (case local_sdp_for (u_config s) c (Some (c_offer c)) of
        (sdp, c) \<Rightarrow>
          (let c = c\<lparr>c_local_sdp := sdp,
                 c_last_response := build_response (u_config s) (the_invite c) 200 (c_local_tag c) sdp,
                 c_state := Answering, c_resend_interval := kT1, c_resend_at := now + kT1,
                 c_ack_deadline := now + kTransactionTimeout\<rparr>
           in send_raw H (c_last_response c) (set_call c s)))"

definition answer :: "'h ua_host \<Rightarrow> int \<Rightarrow> time \<Rightarrow> 'h user_agent \<Rightarrow> command_result \<times> 'h user_agent" where
  "answer H call_id now s =
     (case u_call s of
        None \<Rightarrow> (NotFound, s)
      | Some c \<Rightarrow>
          if c_id c \<noteq> call_id then (NotFound, s)
          else if c_outgoing c \<or> c_state c \<noteq> Ringing then (State, s)
          else let (p, s) = host_open H s;
                   (session, s) = draw_u32 s;
                   c = c\<lparr>c_media_open := (p \<noteq> 0), c_media_port := p, c_sdp_session := ucast session\<rparr>;
                   k = snd (acceptable (u_config s) (c_offer c))
               in if p = 0 then (Ok, fail_answer H c s)
                  else case new_srtp_key H c s of
                    (False, c, s) \<Rightarrow> (Ok, fail_answer H c s)
                  | (True, c, s) \<Rightarrow>
                      (case host_start H (remote_media_for (u_config s) c (c_offer c) k) s of
                         (False, s) \<Rightarrow> (Ok, fail_answer H c s)
                       | (True, s) \<Rightarrow> (Ok, finish_answer H c now s)))"

definition reject :: "'h ua_host \<Rightarrow> int \<Rightarrow> int \<Rightarrow> 'h user_agent \<Rightarrow> command_result \<times> 'h user_agent" where
  "reject H call_id status s =
     (if status < 400 \<or> status > 699 then (InvalidArgument, s)
      else case u_call s of
        None \<Rightarrow> (NotFound, s)
      | Some c \<Rightarrow>
          if c_id c \<noteq> call_id then (NotFound, s)
          else if c_outgoing c \<or> c_state c \<noteq> Ringing then (State, s)
          else (Ok, end_call H Local status (respond H (the_invite c) status (c_local_tag c) [] s)))"

definition hangup_calling :: "'h ua_host \<Rightarrow> call \<Rightarrow> time \<Rightarrow> 'h user_agent \<Rightarrow> 'h user_agent" where
  "hangup_calling H c now s =
     (let s = (if \<not> c_cancel_requested c then
                 (let s = set_call (c\<lparr>c_cancel_requested := True\<rparr>) s
                  in if c_provisional c then send_cancel H now s else s)
               else s)
      in if u_shutting_down s then end_call H (local_end s) 0 s else s)"

definition hangup :: "'h ua_host \<Rightarrow> int \<Rightarrow> time \<Rightarrow> 'h user_agent \<Rightarrow> command_result \<times> 'h user_agent" where
  "hangup H call_id now s =
     (case u_call s of
        None \<Rightarrow> (NotFound, s)
      | Some c \<Rightarrow>
          if c_id c \<noteq> call_id then (NotFound, s)
          else (Ok, case c_state c of
                  Calling \<Rightarrow> hangup_calling H c now s
                | Ringing \<Rightarrow> end_call H (local_end s) 603 (respond H (the_invite c) 603 (c_local_tag c) [] s)
                | Answering \<Rightarrow> end_call H (local_end s) 0 (send_bye H now s)
                | Confirmed \<Rightarrow> end_call H (local_end s) 0 (send_bye H now s)))"

definition shutdown :: "'h ua_host \<Rightarrow> time \<Rightarrow> 'h user_agent \<Rightarrow> 'h user_agent" where
  "shutdown H now s =
     (let s = s\<lparr>u_shutting_down := True\<rparr>;
          s = (case u_call s of None \<Rightarrow> s | Some c \<Rightarrow> snd (hangup H (c_id c) now s))
      in stop_registration H now s)"

section \<open>Dispatch\<close>

definition run_final :: "'h ua_host \<Rightarrow> final_handler \<Rightarrow> message option \<Rightarrow> time \<Rightarrow> 'h user_agent \<Rightarrow> 'h user_agent" where
  "run_final H on_final response now s =
     (case on_final of
        RegisterFinal expires authenticated \<Rightarrow> on_register_final H response expires authenticated now s
      | InviteFinal ctx \<Rightarrow> on_invite_final H ctx response now s
      | IgnoreFinal \<Rightarrow> s)"

definition run_provisional ::
  "'h ua_host \<Rightarrow> provisional_handler \<Rightarrow> message \<Rightarrow> time \<Rightarrow> 'h user_agent \<Rightarrow> 'h user_agent" where
  "run_provisional H on_provisional response now s =
     (case on_provisional of
        NoProvisional \<Rightarrow> s
      | InviteProvisional i \<Rightarrow> on_invite_provisional H i response now s)"

definition on_transport_down :: "'h ua_host \<Rightarrow> time \<Rightarrow> 'h user_agent \<Rightarrow> 'h user_agent" where
  "on_transport_down H now s =
     (let s = fold (\<lambda>(key, t). run_final H (t_on_final t) None now) (u_transactions s) (s\<lparr>u_transactions := []\<rparr>)
      in if r_registered (u_registration s) then
           emit ((new_event Registration)\<lparr>ev_status := 503\<rparr>)
             (set_registration ((u_registration s)\<lparr>r_registered := False\<rparr>) s)
         else s)"

definition on_transport_up :: "'h ua_host \<Rightarrow> time \<Rightarrow> 'h user_agent \<Rightarrow> 'h user_agent" where
  "on_transport_up H now s =
     (if u_shutting_down s \<or> \<not> r_wanted (u_registration s) \<or> r_in_flight (u_registration s) then s
      else send_register H (register_expires (u_config s)) [] now
        (set_registration ((u_registration s)\<lparr>r_next_attempt := None\<rparr>) s))"

definition note_provisional :: "time \<Rightarrow> transaction \<Rightarrow> transaction" where
  "note_provisional now t =
     (if t_method t = ''INVITE'' then t\<lparr>t_retransmitting := False, t_deadline := now + kInviteAfterProvisional\<rparr>
      else t\<lparr>t_interval := kT2\<rparr>)"

definition resend_ack :: "'h ua_host \<Rightarrow> message \<Rightarrow> string \<Rightarrow> 'h user_agent \<Rightarrow> 'h user_agent" where
  "resend_ack H response method s =
     (case u_call s of
        None \<Rightarrow> s
      | Some c \<Rightarrow>
          if success (m_status response) \<and> method = ''INVITE'' \<and>
            c_sip_call_id c = header_or_empty response ''call-id'' \<and> c_ack c \<noteq> []
          then send_raw H (c_ack c) s else s)"

definition on_response :: "'h ua_host \<Rightarrow> message \<Rightarrow> time \<Rightarrow> 'h user_agent \<Rightarrow> 'h user_agent" where
  "on_response H response now s =
     (case parse_cseq (header_or_empty response ''cseq'') of
        None \<Rightarrow> s
      | Some cseq \<Rightarrow>
          (let k = transaction_key (branch_of response) (cseq_method cseq)
           in case om_find (u_transactions s) k of
                None \<Rightarrow> resend_ack H response (cseq_method cseq) s
              | Some t \<Rightarrow>
                  if m_status response < 200 then
                    run_provisional H (t_on_provisional t) response now
                      (s\<lparr>u_transactions := om_assign k (note_provisional now t) (u_transactions s)\<rparr>)
                  else run_final H (t_on_final t) (Some response) now
                      (s\<lparr>u_transactions := om_erase k (u_transactions s)\<rparr>)))"

definition on_ack :: "message \<Rightarrow> 'h user_agent \<Rightarrow> 'h user_agent" where
  "on_ack rq s =
     (case u_call s of
        None \<Rightarrow> s
      | Some c \<Rightarrow>
          if \<not> c_outgoing c \<and> c_state c = Answering \<and> c_sip_call_id c = header_or_empty rq ''call-id'' then
            emit ((answered_event c 200)\<lparr>ev_display_name := c_display_name c, ev_correlation_id := c_correlation_id c\<rparr>)
              (set_call (c\<lparr>c_state := Confirmed\<rparr>) s)
          else s)"

definition same_call :: "message \<Rightarrow> 'h user_agent \<Rightarrow> bool" where
  "same_call rq s = (case u_call s of None \<Rightarrow> False | Some c \<Rightarrow> c_sip_call_id c = header_or_empty rq ''call-id'')"

definition complete_request :: "message \<Rightarrow> bool" where
  "complete_request rq \<longleftrightarrow>
     header rq ''via'' \<noteq> None \<and> header rq ''from'' \<noteq> None \<and> header rq ''to'' \<noteq> None \<and>
     header rq ''call-id'' \<noteq> None \<and> parse_cseq (header_or_empty rq ''cseq'') \<noteq> None"

definition on_bye :: "'h ua_host \<Rightarrow> message \<Rightarrow> 'h user_agent \<Rightarrow> 'h user_agent" where
  "on_bye H rq s =
     (if \<not> same_call rq s then respond H rq 481 [] [] s
      else end_call H RemoteHangup 0 (respond H rq 200 [] [] s))"

definition on_cancel :: "'h ua_host \<Rightarrow> message \<Rightarrow> 'h user_agent \<Rightarrow> 'h user_agent" where
  "on_cancel H rq s =
     (case u_call s of
        None \<Rightarrow> respond H rq 481 [] [] s
      | Some c \<Rightarrow>
          if \<not> same_call rq s \<or> c_outgoing c then respond H rq 481 [] [] s
          else let s = respond H rq 200 (c_local_tag c) [] s
               in if c_state c = Ringing then
                    end_call H RemoteCancelled 487 (respond H (the_invite c) 487 (c_local_tag c) [] s)
                  else s)"

definition on_request :: "'h ua_host \<Rightarrow> message \<Rightarrow> 'h user_agent \<Rightarrow> 'h user_agent" where
  "on_request H rq s =
     (if m_method rq = ''ACK'' then on_ack rq s
      else if \<not> complete_request rq then respond H rq 400 [] [] s
      else if m_method rq = ''INVITE'' then on_invite_request H rq s
      else if m_method rq = ''OPTIONS'' then (case draw_hex 6 s of (x, s) \<Rightarrow> respond H rq 200 x [] s)
      else if m_method rq = ''BYE'' then on_bye H rq s
      else if m_method rq = ''CANCEL'' then on_cancel H rq s
      else respond H rq 501 [] [] s)"

definition on_message :: "'h ua_host \<Rightarrow> string \<Rightarrow> time \<Rightarrow> 'h user_agent \<Rightarrow> 'h user_agent" where
  "on_message H datagram now s =
     (case parse_message datagram of
        None \<Rightarrow> s
      | Some m \<Rightarrow> if is_response m then on_response H m now s else on_request H m s)"

section \<open>Timers\<close>

definition retransmission_due :: "time \<Rightarrow> transaction \<Rightarrow> bool" where
  "retransmission_due now t \<longleftrightarrow> now < t_deadline t \<and> t_retransmitting t \<and> t_retransmit_at t \<le> now"

definition next_interval :: "transaction \<Rightarrow> time" where
  "next_interval t = (if t_method t = ''INVITE'' then t_interval t * 2 else min (t_interval t * 2) kT2)"

definition tick_transaction :: "time \<Rightarrow> transaction \<Rightarrow> transaction" where
  "tick_transaction now t =
     (if retransmission_due now t then
        t\<lparr>t_interval := next_interval t, t_retransmit_at := now + next_interval t\<rparr>
      else t)"

text \<open>The first loop of \<^verbatim>\<open>on_timer\<close>: what is due goes out again, in the order of the map.\<close>

definition tick_transactions :: "'h ua_host \<Rightarrow> time \<Rightarrow> 'h user_agent \<Rightarrow> 'h user_agent" where
  "tick_transactions H now s =
     (fold (\<lambda>(k, t) s. if retransmission_due now t then send_raw H (t_bytes t) s else s) (u_transactions s) s)
       \<lparr>u_transactions := map (\<lambda>(k, t). (k, tick_transaction now t)) (u_transactions s)\<rparr>"

definition expired :: "time \<Rightarrow> 'h user_agent \<Rightarrow> string list" where
  "expired now s = map fst (filter (\<lambda>(k, t). t_deadline t \<le> now) (u_transactions s))"

definition expire :: "'h ua_host \<Rightarrow> time \<Rightarrow> string \<Rightarrow> 'h user_agent \<Rightarrow> 'h user_agent" where
  "expire H now k s =
     (case om_find (u_transactions s) k of
        None \<Rightarrow> s
      | Some t \<Rightarrow> run_final H (t_on_final t) None now (s\<lparr>u_transactions := om_erase k (u_transactions s)\<rparr>))"

definition tick_call :: "'h ua_host \<Rightarrow> time \<Rightarrow> 'h user_agent \<Rightarrow> 'h user_agent" where
  "tick_call H now s =
     (case u_call s of
        None \<Rightarrow> s
      | Some c \<Rightarrow>
          if c_state c \<noteq> Answering then s
          else if c_ack_deadline c \<le> now then end_call H Timeout 408 (send_bye H now s)
          else if c_resend_at c \<le> now then
            (let i = min (c_resend_interval c * 2) kT2
             in set_call (c\<lparr>c_resend_interval := i, c_resend_at := now + i\<rparr>) (send_raw H (c_last_response c) s))
          else s)"

definition tick_registration :: "'h ua_host \<Rightarrow> time \<Rightarrow> 'h user_agent \<Rightarrow> 'h user_agent" where
  "tick_registration H now s =
     (case r_next_attempt (u_registration s) of
        None \<Rightarrow> s
      | Some at \<Rightarrow>
          if r_wanted (u_registration s) \<and> at \<le> now \<and> \<not> r_in_flight (u_registration s) then
            send_register H (register_expires (u_config s)) [] now
              (set_registration ((u_registration s)\<lparr>r_next_attempt := None\<rparr>) s)
          else s)"

definition on_timer :: "'h ua_host \<Rightarrow> time \<Rightarrow> 'h user_agent \<Rightarrow> 'h user_agent" where
  "on_timer H now s =
     (let keys = expired now s;
          s = tick_transactions H now s;
          s = fold (expire H now) keys s;
          s = tick_call H now s
      in tick_registration H now s)"

text \<open>The times \<^verbatim>\<open>next_deadline\<close> considers, and the earliest of them.\<close>

definition deadlines :: "'h user_agent \<Rightarrow> time list" where
  "deadlines s =
     concat (map (\<lambda>(k, t). t_deadline t # (if t_retransmitting t then [t_retransmit_at t] else [])) (u_transactions s)) @
     (case u_call s of
        None \<Rightarrow> []
      | Some c \<Rightarrow> if c_state c = Answering then [c_resend_at c, c_ack_deadline c] else []) @
     (case r_next_attempt (u_registration s) of
        None \<Rightarrow> []
      | Some at \<Rightarrow> if r_wanted (u_registration s) then [at] else [])"

definition next_deadline :: "'h user_agent \<Rightarrow> time option" where
  "next_deadline s =
     fold (\<lambda>at next. case next of None \<Rightarrow> Some at | Some n \<Rightarrow> Some (if at < n then at else n)) (deadlines s) None"

end
