(* ===== verification/User_Agent_Contract.thy ===== *)
theory User_Agent_Contract
  imports User_Agent
begin

text \<open>
  What the user agent and its surroundings promise each other. The locale \<^verbatim>\<open>ua_contract\<close> states
  what the user agent relies on in a host: operations that keep an invariant of the host, provided
  that media are opened only when they are closed, started and closed only when they are open, and
  started with keys exactly when the configuration asks for SRTP. Inside it the user agent is shown to
  keep its side, whatever it receives, and to keep its own invariant.
\<close>

section \<open>Frames\<close>

text \<open>Calls that return a value, with the state they leave written out.\<close>

lemma draw_hex_eq: "draw_hex n s = (fst (random_hex n (u_random s)), s\<lparr>u_random := snd (random_hex n (u_random s))\<rparr>)"
  by (simp add: draw_hex_def case_prod_beta)

lemma draw_u32_eq: "draw_u32 s = (u_random s 0, s\<lparr>u_random := \<lambda>n. u_random s (Suc n)\<rparr>)"
  by (simp add: draw_u32_def random_u32_def)

lemma host_open_eq: "host_open H s = (fst (open_media H (u_host s)), s\<lparr>u_host := snd (open_media H (u_host s))\<rparr>)"
  by (simp add: host_open_def case_prod_beta)

lemma host_start_eq:
  "host_start H rm s = (fst (start_media H rm (u_host s)), s\<lparr>u_host := snd (start_media H rm (u_host s))\<rparr>)"
  by (simp add: host_start_def case_prod_beta)

lemma host_allocate_eq:
  "host_allocate H s = (fst (allocate_call_id H (u_host s)), s\<lparr>u_host := snd (allocate_call_id H (u_host s))\<rparr>)"
  by (simp add: host_allocate_def case_prod_beta)

lemmas effect_eqs = draw_hex_eq draw_u32_eq host_open_eq host_start_eq host_allocate_eq

lemma authorization_for_state: "\<exists>g. snd (authorization_for m mt uri s) = s\<lparr>u_random := g\<rparr>"
proof -
  have same: "\<exists>g. s = s\<lparr>u_random := g\<rparr>" by (rule exI [of _ "u_random s"]) simp
  let ?h = "header m (if m_status m = 407 then ''proxy-authenticate'' else ''www-authenticate'')"
  show ?thesis
  proof (cases "Option.bind ?h parse_challenge")
    case None
    then show ?thesis using same by (cases ?h) (simp_all add: authorization_for_def Let_def)
  next
    case (Some ch)
    let ?v = "authorization_value \<lparr>username = extension (u_config s), password = ua_password (u_config s)\<rparr> ch mt uri (u_random s)"
    from Some show ?thesis
      by (cases ?h; cases "fst ?v"; cases ?v) (auto simp: authorization_for_def Let_def)
  qed
qed

text \<open>What every effect leaves alone.\<close>

lemma send_raw_frame [simp]:
  "u_config (send_raw H m s) = u_config s" "u_registration (send_raw H m s) = u_registration s"
  "u_call (send_raw H m s) = u_call s" "u_events (send_raw H m s) = u_events s"
  "u_shutting_down (send_raw H m s) = u_shutting_down s" "u_transactions (send_raw H m s) = u_transactions s"
  "u_random (send_raw H m s) = u_random s" "u_host (send_raw H m s) = send_sip H m (u_host s)"
  by (simp_all add: send_raw_def)

lemma emit_frame [simp]:
  "u_config (emit e s) = u_config s" "u_registration (emit e s) = u_registration s" "u_call (emit e s) = u_call s"
  "u_events (emit e s) = u_events s @ [e]" "u_shutting_down (emit e s) = u_shutting_down s"
  "u_transactions (emit e s) = u_transactions s" "u_random (emit e s) = u_random s" "u_host (emit e s) = u_host s"
  by (simp_all add: emit_def)

lemma set_call_frame [simp]:
  "u_config (set_call c s) = u_config s" "u_registration (set_call c s) = u_registration s"
  "u_call (set_call c s) = Some c" "u_events (set_call c s) = u_events s"
  "u_shutting_down (set_call c s) = u_shutting_down s" "u_transactions (set_call c s) = u_transactions s"
  "u_random (set_call c s) = u_random s" "u_host (set_call c s) = u_host s"
  by (simp_all add: set_call_def)

lemma set_registration_frame [simp]:
  "u_config (set_registration r s) = u_config s" "u_registration (set_registration r s) = r"
  "u_call (set_registration r s) = u_call s" "u_events (set_registration r s) = u_events s"
  "u_shutting_down (set_registration r s) = u_shutting_down s"
  "u_transactions (set_registration r s) = u_transactions s"
  "u_random (set_registration r s) = u_random s" "u_host (set_registration r s) = u_host s"
  by (simp_all add: set_registration_def)

lemma send_request_frame [simp]:
  "u_config (send_request H rq now f p b s) = u_config s"
  "u_registration (send_request H rq now f p b s) = u_registration s"
  "u_call (send_request H rq now f p b s) = u_call s" "u_events (send_request H rq now f p b s) = u_events s"
  "u_shutting_down (send_request H rq now f p b s) = u_shutting_down s"
  by (simp_all add: send_request_def effect_eqs Let_def)

lemma send_request_host: "\<exists>m. u_host (send_request H rq now f p b s) = send_sip H m (u_host s)"
  by (auto simp: send_request_def effect_eqs Let_def)

lemma send_request_transactions:
  "\<exists>branch. (b \<noteq> [] \<longrightarrow> branch = b) \<and>
     u_transactions (send_request H rq now f p b s) =
       om_assign (transaction_key branch (rq_method rq)) (new_transaction (u_config s) rq branch now f p) (u_transactions s)"
  by (auto simp: send_request_def effect_eqs Let_def)

lemma respond_frame [simp]:
  "u_config (respond H rq st t b s) = u_config s" "u_registration (respond H rq st t b s) = u_registration s"
  "u_call (respond H rq st t b s) = u_call s" "u_events (respond H rq st t b s) = u_events s"
  "u_shutting_down (respond H rq st t b s) = u_shutting_down s"
  "u_transactions (respond H rq st t b s) = u_transactions s"
  "u_random (respond H rq st t b s) = u_random s"
  "u_host (respond H rq st t b s) = send_sip H (build_response (u_config s) rq st t b) (u_host s)"
  by (simp_all add: respond_def)

lemma send_bye_call [simp]:
  "u_call (send_bye H now s) = map_option (\<lambda>c. c\<lparr>c_local_cseq := c_local_cseq c + 1\<rparr>) (u_call s)"
  "u_config (send_bye H now s) = u_config s" "u_registration (send_bye H now s) = u_registration s"
  "u_events (send_bye H now s) = u_events s" "u_shutting_down (send_bye H now s) = u_shutting_down s"
  by (simp_all add: send_bye_def split: option.split)

lemma send_cancel_call [simp]:
  "u_call (send_cancel H now s) = map_option (\<lambda>c. c\<lparr>c_cancel_sent := True\<rparr>) (u_call s)"
  "u_config (send_cancel H now s) = u_config s" "u_registration (send_cancel H now s) = u_registration s"
  "u_events (send_cancel H now s) = u_events s" "u_shutting_down (send_cancel H now s) = u_shutting_down s"
  by (simp_all add: send_cancel_def split: option.split)

lemma end_call_frame [simp]:
  "u_call (end_call H r st s) = None" "u_config (end_call H r st s) = u_config s"
  "u_registration (end_call H r st s) = u_registration s" "u_transactions (end_call H r st s) = u_transactions s"
  "u_shutting_down (end_call H r st s) = u_shutting_down s"
  by (simp_all add: end_call_def host_close_def Let_def split: option.split)

lemma send_register_frame [simp]:
  "u_config (send_register H e a now s) = u_config s" "u_call (send_register H e a now s) = u_call s"
  "u_events (send_register H e a now s) = u_events s"
  "u_shutting_down (send_register H e a now s) = u_shutting_down s"
  "u_registration (send_register H e a now s) =
     (u_registration s)\<lparr>r_cseq := r_cseq (u_registration s) + 1, r_in_flight := True\<rparr>"
  by (simp_all add: send_register_def Let_def)

section \<open>The invariant\<close>

text \<open>Media are started with keys of the right length exactly when the configuration asks for SRTP.\<close>

definition secured :: "bool \<Rightarrow> remote_media \<Rightarrow> bool" where
  "secured sec rm =
     (case rm_srtp rm of
        None \<Rightarrow> \<not> sec
      | Some k \<Rightarrow> sec \<and> length (mk_local k) = kSdesKeyLength \<and> length (mk_remote k) = kSdesKeyLength)"

definition keys_ok :: "audio_description \<Rightarrow> bool" where
  "keys_ok a \<longleftrightarrow> list_all (\<lambda>k. length (key k) = kSdesKeyLength) (crypto a)"

text \<open>
  A call: media are open in every state but \<^verbatim>\<open>Ringing\<close>; an incoming call keeps its INVITE, an
  acceptable offer and a response to repeat, and has no branch of its own; under SRTP a call with
  media has a key.
\<close>

definition call_ok :: "ua_config \<Rightarrow> call \<Rightarrow> bool" where
  "call_ok cfg c \<longleftrightarrow>
     c_media_open c = (c_state c \<noteq> Ringing) \<and>
     (if c_outgoing c then c_state c = Calling \<or> c_state c = Confirmed
      else c_state c \<noteq> Calling \<and> c_invite c \<noteq> None \<and> c_invite_branch c = [] \<and> c_last_response c \<noteq> [] \<and>
        fst (acceptable cfg (c_offer c)) \<and> keys_ok (c_offer c)) \<and>
     (srtp cfg \<longrightarrow> c_state c \<noteq> Ringing \<longrightarrow> length (c_srtp_key c) = kSdesKeyLength) \<and>
     (c_state c = Answering \<longrightarrow> 0 < c_resend_interval c)"

definition handler_ok :: "final_handler \<Rightarrow> bool" where
  "handler_ok f = (case f of InviteFinal ctx \<Rightarrow> ic_branch ctx \<noteq> [] | _ \<Rightarrow> True)"

definition transactions_ok :: "(string, transaction) omap \<Rightarrow> bool" where
  "transactions_ok ts \<longleftrightarrow> om_ok ts \<and> (\<forall>(k, t) \<in> set ts. handler_ok (t_on_final t) \<and> 0 < t_interval t)"

definition media_open_of :: "call option \<Rightarrow> bool" where
  "media_open_of c = (case c of None \<Rightarrow> False | Some c \<Rightarrow> c_media_open c)"

text \<open>The part of the invariant that holds inside an operation too, and the whole of it.\<close>

definition ua_pre :: "('h \<Rightarrow> bool) \<Rightarrow> ('h \<Rightarrow> bool) \<Rightarrow> bool \<Rightarrow> bool \<Rightarrow> 'h user_agent \<Rightarrow> bool" where
  "ua_pre J up sec b s \<longleftrightarrow> srtp (u_config s) = sec \<and> J (u_host s) \<and> transactions_ok (u_transactions s) \<and>
     up (u_host s) = b"

definition ua_base :: "('h \<Rightarrow> bool) \<Rightarrow> ('h \<Rightarrow> bool) \<Rightarrow> bool \<Rightarrow> 'h user_agent \<Rightarrow> bool" where
  "ua_base J up sec s \<longleftrightarrow> ua_pre J up sec (media_open_of (u_call s)) s"

definition call_fine :: "'h user_agent \<Rightarrow> bool" where
  "call_fine s = (case u_call s of None \<Rightarrow> True | Some c \<Rightarrow> call_ok (u_config s) c)"

definition ua_inv :: "('h \<Rightarrow> bool) \<Rightarrow> ('h \<Rightarrow> bool) \<Rightarrow> bool \<Rightarrow> 'h user_agent \<Rightarrow> bool" where
  "ua_inv J up sec s \<longleftrightarrow> ua_base J up sec s \<and> call_fine s"

lemma transactions_ok_assign:
  "transactions_ok ts \<Longrightarrow> handler_ok (t_on_final t) \<Longrightarrow> 0 < t_interval t \<Longrightarrow> transactions_ok (om_assign k t ts)"
  using set_om_assign [of k t ts] by (fastforce simp: transactions_ok_def om_ok_assign)

lemma transactions_ok_erase: "transactions_ok ts \<Longrightarrow> transactions_ok (om_erase k ts)"
  by (auto simp: transactions_ok_def om_ok_erase set_om_erase)

lemma transactions_ok_find: "transactions_ok ts \<Longrightarrow> om_find ts k = Some t \<Longrightarrow> handler_ok (t_on_final t) \<and> 0 < t_interval t"
  by (auto simp: transactions_ok_def dest!: map_of_SomeD)

lemma parse_audio_keys: "parse_audio body = Some a \<Longrightarrow> keys_ok a"
  using parse_audio_ok [of body a] by (auto simp: keys_ok_def audio_ok_def list_all_iff)

lemma build_response_nonempty: "build_response cfg rq st t b \<noteq> []"
  by (simp add: build_response_def build_def)

section \<open>The contract\<close>

locale ua_contract =
  fixes H :: "'h ua_host" and J :: "'h \<Rightarrow> bool" and up :: "'h \<Rightarrow> bool" and sec :: bool
  assumes send: "J h \<Longrightarrow> J (send_sip H m h)" "up (send_sip H m h) = up h"
    and opens: "J h \<Longrightarrow> \<not> up h \<Longrightarrow> J (snd (open_media H h))"
      "J h \<Longrightarrow> \<not> up h \<Longrightarrow> up (snd (open_media H h)) = (fst (open_media H h) \<noteq> 0)"
    and starts: "J h \<Longrightarrow> up h \<Longrightarrow> secured sec rm \<Longrightarrow> J (snd (start_media H rm h))"
      "up (snd (start_media H rm h)) = up h"
    and closes: "J h \<Longrightarrow> up h \<Longrightarrow> J (close_media H h)" "\<not> up (close_media H h)"
    and allocates: "J h \<Longrightarrow> J (snd (allocate_call_id H h))" "up (snd (allocate_call_id H h)) = up h"
    and entropy: "J h \<Longrightarrow> J (snd (getentropy H n h))" "up (snd (getentropy H n h)) = up h"
    and full: "full_reads (getentropy H)"
begin

lemma base_send_raw: "ua_base J up sec s \<Longrightarrow> ua_base J up sec (send_raw H m s)"
  by (simp add: ua_base_def ua_pre_def send)

lemma base_respond: "ua_base J up sec s \<Longrightarrow> ua_base J up sec (respond H rq st t b s)"
  by (simp add: ua_base_def ua_pre_def send)

lemma base_emit: "ua_base J up sec s \<Longrightarrow> ua_base J up sec (emit e s)"
  by (simp add: ua_base_def ua_pre_def)

lemma base_registration: "ua_base J up sec s \<Longrightarrow> ua_base J up sec (set_registration r s)"
  by (simp add: ua_base_def ua_pre_def)

lemma base_random: "ua_base J up sec s \<Longrightarrow> ua_base J up sec (s\<lparr>u_random := g\<rparr>)"
  by (simp add: ua_base_def ua_pre_def)

lemma base_send_request:
  assumes "ua_base J up sec s" and "handler_ok f"
  shows "ua_base J up sec (send_request H rq now f p b s)"
proof -
  obtain m where "u_host (send_request H rq now f p b s) = send_sip H m (u_host s)"
    using send_request_host by blast
  moreover obtain branch where "u_transactions (send_request H rq now f p b s) =
      om_assign (transaction_key branch (rq_method rq)) (new_transaction (u_config s) rq branch now f p) (u_transactions s)"
    using send_request_transactions by blast
  ultimately show ?thesis
    using assms by (simp add: ua_base_def ua_pre_def send transactions_ok_assign new_transaction_def)
qed

lemma base_set_call:
  "ua_base J up sec s \<Longrightarrow> c_media_open c = media_open_of (u_call s) \<Longrightarrow> ua_base J up sec (set_call c s)"
  by (simp add: ua_base_def ua_pre_def media_open_of_def)

lemma base_end_call: "ua_base J up sec s \<Longrightarrow> ua_inv J up sec (end_call H r st s)"
  by (auto simp: ua_inv_def ua_base_def ua_pre_def call_fine_def end_call_def host_close_def media_open_of_def Let_def closes
      split: option.split_asm option.split)

lemma base_send_bye: "ua_base J up sec s \<Longrightarrow> ua_base J up sec (send_bye H now s)"
  by (auto simp: send_bye_def handler_ok_def media_open_of_def split: option.split intro!: base_send_request base_set_call)

lemma base_send_cancel: "ua_base J up sec s \<Longrightarrow> ua_base J up sec (send_cancel H now s)"
  by (auto simp: send_cancel_def handler_ok_def media_open_of_def split: option.split intro!: base_send_request base_set_call)

lemma base_send_register: "ua_base J up sec s \<Longrightarrow> ua_base J up sec (send_register H e a now s)"
  by (simp add: send_register_def Let_def handler_ok_def base_send_request base_registration)

lemma pre_set_call: "ua_pre J up sec (c_media_open c) s \<Longrightarrow> ua_base J up sec (set_call c s)"
  by (simp add: ua_base_def ua_pre_def media_open_of_def)

lemma secure_random_host:
  "J h \<Longrightarrow> J (snd (secure_random (getentropy H) n h)) \<and> up (snd (secure_random (getentropy H) n h)) = up h"
proof (induction n arbitrary: h rule: less_induct)
  case (less n)
  obtain r h1 where r: "getentropy H (min n 256) h = (r, h1)" by (cases "getentropy H (min n 256) h")
  then have h1: "J h1" "up h1 = up h" using entropy [where h = h and n = "min n 256"] less.prems by auto
  show ?case
  proof (cases "n = 0 \<or> r = None")
    case True
    then show ?thesis using r h1 less.prems by (subst (1 2) secure_random.simps) auto
  next
    case False
    then obtain bytes where bytes: "r = Some bytes" by auto
    obtain r2 h2 where r2: "secure_random (getentropy H) (n - min n 256) h1 = (r2, h2)"
      by (cases "secure_random (getentropy H) (n - min n 256) h1")
    have "J h2 \<and> up h2 = up h" using less.IH [of "n - min n 256" h1] False h1 r2 by simp
    moreover have "snd (secure_random (getentropy H) n h) = h2"
      using False r bytes r2 by (subst secure_random.simps) (simp split: option.split)
    ultimately show ?thesis by simp
  qed
qed

lemma new_srtp_key_effect:
  assumes "ua_pre J up sec b s" and "new_srtp_key H c s = (ok, c', s')"
  shows "ua_pre J up sec b s' \<and> u_config s' = u_config s \<and> u_call s' = u_call s \<and>
    (\<exists>k. c' = c\<lparr>c_srtp_key := k\<rparr> \<and> (ok \<longrightarrow> sec \<longrightarrow> length k = kSdesKeyLength))"
proof (cases sec)
  case False
  then have "c' = c\<lparr>c_srtp_key := c_srtp_key c\<rparr> \<and> s' = s"
    using assms by (simp add: new_srtp_key_def ua_pre_def)
  then show ?thesis using assms(1) False by blast
next
  case True
  obtain r h where r: "secure_random (getentropy H) kSdesKeyLength (u_host s) = (r, h)"
    by (cases "secure_random (getentropy H) kSdesKeyLength (u_host s)")
  have h: "J h \<and> up h = b"
    using secure_random_host [of "u_host s" kSdesKeyLength] assms(1) r by (simp add: ua_pre_def)
  have len: "r = Some bytes \<Longrightarrow> length bytes = kSdesKeyLength" for bytes
    using secure_random_length [OF full] r by blast
  have c: "ok = (r \<noteq> None) \<and> c' = c\<lparr>c_srtp_key := (case r of None \<Rightarrow> replicate kSdesKeyLength 0 | Some k \<Rightarrow> k)\<rparr> \<and>
      s' = s\<lparr>u_host := h\<rparr>"
    using assms True r by (cases r) (simp_all add: new_srtp_key_def ua_pre_def)
  show ?thesis
  proof (cases r)
    case None
    then show ?thesis using c h assms(1) by (simp add: ua_pre_def) blast
  next
    case (Some k)
    then show ?thesis using c h assms(1) len [OF Some] by (simp add: ua_pre_def) blast
  qed
qed

lemma inv_frame:
  "ua_inv J up sec s \<Longrightarrow> ua_base J up sec s' \<Longrightarrow> u_call s' = u_call s \<Longrightarrow> u_config s' = u_config s \<Longrightarrow> ua_inv J up sec s'"
  by (auto simp: ua_inv_def call_fine_def split: option.splits)

lemma inv_base: "ua_inv J up sec s \<Longrightarrow> ua_base J up sec s"
  by (simp add: ua_inv_def)

lemma inv_call: "ua_inv J up sec s \<Longrightarrow> u_call s = Some c \<Longrightarrow> call_ok (u_config s) c"
  by (simp add: ua_inv_def call_fine_def)

lemma inv_send_raw: "ua_inv J up sec s \<Longrightarrow> ua_inv J up sec (send_raw H m s)"
  by (rule inv_frame) (simp_all add: inv_base base_send_raw)

lemma inv_respond: "ua_inv J up sec s \<Longrightarrow> ua_inv J up sec (respond H rq st t b s)"
  by (rule inv_frame) (simp_all add: inv_base base_respond)

lemma inv_emit: "ua_inv J up sec s \<Longrightarrow> ua_inv J up sec (emit e s)"
  by (rule inv_frame) (simp_all add: inv_base base_emit)

lemma inv_registration: "ua_inv J up sec s \<Longrightarrow> ua_inv J up sec (set_registration r s)"
  by (rule inv_frame) (simp_all add: inv_base base_registration)

lemma inv_random: "ua_inv J up sec s \<Longrightarrow> ua_inv J up sec (s\<lparr>u_random := g\<rparr>)"
  by (rule inv_frame) (simp_all add: inv_base base_random)

lemma inv_send_request:
  "ua_inv J up sec s \<Longrightarrow> handler_ok f \<Longrightarrow> ua_inv J up sec (send_request H rq now f p b s)"
  by (rule inv_frame) (simp_all add: inv_base base_send_request)

lemma inv_send_register: "ua_inv J up sec s \<Longrightarrow> ua_inv J up sec (send_register H e a now s)"
  by (rule inv_frame) (simp_all add: inv_base base_send_register)

lemma inv_end_call: "ua_inv J up sec s \<Longrightarrow> ua_inv J up sec (end_call H r st s)"
  by (simp add: inv_base base_end_call)

lemma inv_set_call:
  "ua_inv J up sec s \<Longrightarrow> u_call s = Some c0 \<Longrightarrow> c_media_open c = c_media_open c0 \<Longrightarrow> call_ok (u_config s) c \<Longrightarrow>
     ua_inv J up sec (set_call c s)"
  by (simp add: ua_inv_def base_set_call media_open_of_def call_fine_def)

lemmas inv_intros = inv_send_raw inv_respond inv_emit inv_registration inv_random inv_send_request
  inv_send_register inv_end_call

end

section \<open>The operations keep the invariant\<close>

text \<open>The media that an offer or answer asks for, and the description sent for them.\<close>

lemma secured_remote:
  "(srtp cfg \<Longrightarrow> length (c_srtp_key c) = kSdesKeyLength) \<Longrightarrow> (srtp cfg \<Longrightarrow> k \<noteq> None) \<Longrightarrow>
     (\<And>k'. k = Some k' \<Longrightarrow> length (key k') = kSdesKeyLength) \<Longrightarrow> secured (srtp cfg) (remote_media_for cfg c a k)"
  by (cases k) (auto simp: secured_def remote_media_for_def)

lemma acceptable_key:
  "keys_ok a \<Longrightarrow> acceptable cfg a = (True, k) \<Longrightarrow>
     (srtp cfg \<longrightarrow> k \<noteq> None) \<and> (\<forall>k'. k = Some k' \<longrightarrow> length (key k') = kSdesKeyLength)"
  by (auto simp: acceptable_def keys_ok_def list_all_iff split: if_splits)

lemma usable_answer_key:
  assumes "usable_answer cfg body = Some (a, k)"
  shows "(srtp cfg \<longrightarrow> k \<noteq> None) \<and> (\<forall>k'. k = Some k' \<longrightarrow> length (key k') = kSdesKeyLength)"
proof -
  from assms obtain b k0 where a: "parse_audio body = Some a" and acc: "acceptable cfg a = (True, k0)"
    and k: "if srtp cfg then \<exists>k'. k = Some k' \<and> k' \<in> set (crypto a) else k = k0"
    by (auto simp: usable_answer_def find_Some_iff split: option.split_asm prod.split_asm bool.split_asm if_splits)
  note keys = parse_audio_keys [OF a]
  show ?thesis
    using keys k acceptable_key [OF keys acc] by (auto simp: keys_ok_def list_all_iff split: if_splits)
qed

lemma local_sdp_for_call: "snd (local_sdp_for cfg c a) = c\<lparr>c_sdp_version := c_sdp_version c + 1\<rparr>"
  by (simp add: local_sdp_for_def)

context ua_contract
begin

lemma inv_host_start:
  "ua_inv J up sec s \<Longrightarrow> u_call s = Some c \<Longrightarrow> c_media_open c \<Longrightarrow> secured sec rm \<Longrightarrow>
     ua_inv J up sec (s\<lparr>u_host := snd (start_media H rm (u_host s))\<rparr>)"
  by (simp add: ua_inv_def ua_base_def ua_pre_def call_fine_def media_open_of_def starts)

lemma inv_send_invite:
  assumes "ua_inv J up sec s" and "u_call s = Some c" and "c_outgoing c"
  shows "ua_inv J up sec (send_invite H a now s)"
proof -
  let ?x = "fst (random_hex 10 (u_random s))"
  let ?s = "s\<lparr>u_random := snd (random_hex 10 (u_random s))\<rparr>"
  let ?c = "c\<lparr>c_local_cseq := c_local_cseq c + 1, c_invite_cseq := rq_cseq (invite_request c a),
    c_invite_branch := ''z9hG4bK'' @ ?x, c_provisional := False\<rparr>"
  have "call_ok (u_config s) ?c" using inv_call [OF assms(1, 2)] assms(3) by (simp add: call_ok_def)
  then have "ua_inv J up sec (set_call ?c ?s)"
    using assms by (intro inv_set_call [of _ c]) (simp_all add: inv_random)
  then show ?thesis
    using assms by (simp add: send_invite_def effect_eqs Let_def inv_send_request handler_ok_def)
qed

lemma inv_make_call:
  assumes inv: "ua_inv J up sec s"
  shows "ua_inv J up sec (snd (make_call H i target now s))"
proof (cases "target = [] \<or> find_first_of forbidden_in_target target \<noteq> None \<or> u_call s \<noteq> None \<or> u_shutting_down s")
  case True
  then show ?thesis using inv by (auto simp: make_call_def)
next
  case False
  obtain p c s1 where start: "start_call H i target s = (p, c, s1)" by (cases "start_call H i target s")
  have none: "\<not> up (u_host s)" using inv False by (simp add: ua_inv_def ua_base_def ua_pre_def media_open_of_def)
  have pre: "ua_pre J up sec (p \<noteq> 0) s1" and c: "c_media_open c = (p \<noteq> 0)" "c_outgoing c" "c_state c = Calling"
    using start inv none
    by (auto simp: start_call_def effect_eqs outgoing_call_def Let_def ua_inv_def ua_base_def ua_pre_def opens)
  obtain ok c2 s2 where key: "new_srtp_key H c s1 = (ok, c2, s2)" by (cases "new_srtp_key H c s1")
  note eff = new_srtp_key_effect [OF pre key]
  then obtain k where c2: "c2 = c\<lparr>c_srtp_key := k\<rparr>" and k: "ok \<Longrightarrow> sec \<Longrightarrow> length k = kSdesKeyLength" by blast
  show ?thesis
  proof (cases "p = 0 \<or> \<not> ok")
    case True
    have "ua_base J up sec (set_call c s1)" using pre c pre_set_call [of c s1] by simp
    moreover have "ua_base J up sec (set_call c2 s2)" using eff c c2 pre_set_call [of c2 s2] by simp
    ultimately show ?thesis
      using True False start key by (cases ok) (auto simp: make_call_def base_end_call)
  next
    case p: False
    obtain sdp c3 where sdp: "local_sdp_for (u_config s2) c2 None = (sdp, c3)"
      by (cases "local_sdp_for (u_config s2) c2 None")
    let ?c = "c3\<lparr>c_local_sdp := sdp\<rparr>"
    have c3: "c3 = c2\<lparr>c_sdp_version := c_sdp_version c2 + 1\<rparr>"
      using local_sdp_for_call [of "u_config s2" c2 None] sdp by simp
    have "ua_base J up sec (set_call ?c s2)" using eff c c2 c3 pre_set_call [of ?c s2] by simp
    moreover have "call_ok (u_config s2) ?c"
      using c c2 c3 k eff p by (auto simp: call_ok_def ua_pre_def)
    ultimately have "ua_inv J up sec (set_call ?c s2)" by (simp add: ua_inv_def call_fine_def)
    then show ?thesis
      using p False start key sdp c c2 c3 by (simp add: make_call_def inv_send_invite)
  qed
qed

lemma inv_settle_register: "ua_inv J up sec s \<Longrightarrow> ua_inv J up sec (settle_register H m st e now s)"
  by (simp add: settle_register_def finish_register_def Let_def inv_intros)

lemma inv_on_register_final:
  assumes "ua_inv J up sec s"
  shows "ua_inv J up sec (on_register_final H m e a now s)"
proof -
  let ?s = "set_registration ((u_registration s)\<lparr>r_in_flight := False\<rparr>) s"
  have inv: "ua_inv J up sec ?s" using assms by (rule inv_registration)
  show ?thesis
  proof (cases m)
    case None
    then show ?thesis using inv by (simp add: on_register_final_def Let_def inv_settle_register)
  next
    case (Some r)
    obtain v s2 where v: "authorization_for r ''REGISTER'' (server_uri (u_config s)) ?s = (v, s2)"
      by (cases "authorization_for r ''REGISTER'' (server_uri (u_config s)) ?s")
    moreover have "ua_inv J up sec s2"
      using authorization_for_state [of r "''REGISTER''" "server_uri (u_config s)" ?s] v inv inv_random by auto
    ultimately show ?thesis
      using Some inv by (cases v) (simp_all add: on_register_final_def Let_def inv_settle_register inv_send_register)
  qed
qed

lemma inv_send_bye: "ua_inv J up sec s \<Longrightarrow> ua_base J up sec (send_bye H now s)"
  by (simp add: inv_base base_send_bye)

lemma inv_end_bye: "ua_inv J up sec s \<Longrightarrow> ua_inv J up sec (end_call H r st (send_bye H now s))"
  by (rule base_end_call) (rule inv_send_bye)

lemma inv_send_cancel:
  assumes "ua_inv J up sec s"
  shows "ua_inv J up sec (send_cancel H now s)"
proof (cases "u_call s")
  case (Some c)
  then have "call_ok (u_config s) (c\<lparr>c_cancel_sent := True\<rparr>)" using inv_call [OF assms] by (simp add: call_ok_def)
  then have "ua_inv J up sec (set_call (c\<lparr>c_cancel_sent := True\<rparr>) s)"
    using assms Some by (intro inv_set_call) auto
  then show ?thesis using Some by (simp add: send_cancel_def inv_send_request handler_ok_def)
qed (use assms in \<open>simp add: send_cancel_def\<close>)

lemma inv_on_invite_provisional:
  assumes "ua_inv J up sec s"
  shows "ua_inv J up sec (on_invite_provisional H i m now s)"
proof (cases "u_call s")
  case (Some c)
  let ?c = "c\<lparr>c_provisional := True\<rparr>"
  have ok: "call_ok (u_config s) ?c" "call_ok (u_config s) (?c\<lparr>c_last_progress := n\<rparr>)" for n
    using inv_call [OF assms Some] by (simp_all add: call_ok_def)
  then have "ua_inv J up sec (set_call ?c s)" "ua_inv J up sec (set_call (?c\<lparr>c_last_progress := n\<rparr>) s)" for n
    using assms Some by (auto intro!: inv_set_call)
  then show ?thesis
    using assms Some by (simp add: on_invite_provisional_def Let_def inv_emit inv_send_cancel)
qed (use assms in \<open>simp add: on_invite_provisional_def\<close>)

lemma inv_start_answered:
  assumes inv: "ua_inv J up sec s" and c: "u_call s = Some c" and open': "c_state c \<noteq> Ringing"
  shows "ua_inv J up sec (start_answered H c m now s)"
proof (cases "usable_answer (u_config s) (m_body m)")
  case None
  then show ?thesis using inv by (simp add: start_answered_def fail_answered_def inv_end_bye)
next
  case (Some ak)
  obtain a k where ak: "ak = (a, k)" by (cases ak)
  note ok = inv_call [OF inv c]
  have sec: "srtp (u_config s) = sec" using inv by (simp add: ua_inv_def ua_base_def ua_pre_def)
  have "secured (srtp (u_config s)) (remote_media_for (u_config s) c a k)"
    using usable_answer_key [of "u_config s" "m_body m" a k] Some ak ok open'
    by (intro secured_remote) (auto simp: call_ok_def)
  then have "ua_inv J up sec (s\<lparr>u_host := snd (start_media H (remote_media_for (u_config s) c a k) (u_host s))\<rparr>)"
    using inv c ok open' sec by (intro inv_host_start) (auto simp: call_ok_def)
  then show ?thesis
    using Some ak by (simp add: start_answered_def fail_answered_def effect_eqs inv_end_bye inv_emit split: bool.split)
qed

lemma ours_outgoing:
  assumes "ua_inv J up sec s" and "ours ctx s" and "ic_branch ctx \<noteq> []" and "u_call s = Some c"
  shows "c_outgoing c \<and> c_state c \<noteq> Ringing"
  using inv_call [OF assms(1, 4)] assms by (auto simp: ours_def call_ok_def split: if_splits)

lemma inv_on_invite_success:
  assumes inv: "ua_inv J up sec s" and branch: "ic_branch ctx \<noteq> []"
  shows "ua_inv J up sec (on_invite_success H ctx m now s)"
proof -
  let ?s0 = "s\<lparr>u_random := snd (random_hex 10 (u_random s))\<rparr>"
  let ?ack = "build_request (u_config s) (success_ack ctx m) (''z9hG4bK'' @ fst (random_hex 10 (u_random s)))"
  let ?s = "send_raw H ?ack ?s0"
  have inv1: "ua_inv J up sec ?s" using inv by (intro inv_intros)
  show ?thesis
  proof (cases "ours ctx s")
    case False
    then show ?thesis
      using inv1 by (simp add: on_invite_success_def effect_eqs Let_def inv_send_request handler_ok_def)
  next
    case True
    then obtain c where c: "u_call s = Some c" by (auto simp: ours_def split: option.split_asm)
    let ?c = "c\<lparr>c_ack := ?ack, c_remote_header := header_or_empty m ''to'',
      c_remote_target := contact_or m (ic_uri ctx), c_state := Confirmed\<rparr>"
    note out = ours_outgoing [OF inv True branch c]
    then have open': "c_media_open c" using inv_call [OF inv c] by (simp add: call_ok_def)
    have "call_ok (u_config s) ?c" using inv_call [OF inv c] out by (auto simp: call_ok_def)
    then have inv2: "ua_inv J up sec (set_call ?c ?s)"
      using inv1 c by (intro inv_set_call [of _ c]) simp_all
    then show ?thesis
      using c True
      by (simp add: on_invite_success_def effect_eqs Let_def inv_end_bye inv_start_answered)
  qed
qed

lemma inv_reject_invite: "ua_inv J up sec s \<Longrightarrow> ua_inv J up sec (reject_invite H c st s)"
  by (simp add: reject_invite_def inv_end_call)

lemma inv_on_invite_final:
  assumes inv: "ua_inv J up sec s" and branch: "ic_branch ctx \<noteq> []"
  shows "ua_inv J up sec (on_invite_final H ctx m now s)"
proof (cases m)
  case None
  then show ?thesis using inv by (simp add: on_invite_final_def inv_end_call)
next
  case (Some r)
  show ?thesis
  proof (cases "m_status r < 300 \<or> \<not> ours ctx s")
    case True
    then show ?thesis
      using Some inv branch
      by (auto simp: on_invite_final_def inv_on_invite_success send_ack_for_failure_def inv_send_raw ours_def Let_def
          split: option.split)
  next
    case False
    then obtain c where c: "u_call s = Some c" by (auto simp: ours_def split: option.split_asm)
    let ?s = "send_ack_for_failure H ctx r s"
    have inv1: "ua_inv J up sec ?s" using inv by (simp add: send_ack_for_failure_def inv_send_raw)
    have c1: "u_call ?s = Some c" "ours ctx ?s" using c False by (auto simp: send_ack_for_failure_def ours_def)
    note out = ours_outgoing [OF inv1 c1(2) branch c1(1)]
    obtain v s2 where v: "authorization_for r ''INVITE'' (c_invite_uri c) ?s = (v, s2)"
      by (cases "authorization_for r ''INVITE'' (c_invite_uri c) ?s")
    then obtain g where s2: "s2 = ?s\<lparr>u_random := g\<rparr>"
      using authorization_for_state [of r "''INVITE''" "c_invite_uri c" ?s] by auto
    have inv2: "ua_inv J up sec s2" unfolding s2 using inv1 by (rule inv_random)
    have "call_ok (u_config s2) (c\<lparr>c_authenticated := True\<rparr>)"
      using inv_call [OF inv1 c1(1)] by (simp add: s2 call_ok_def)
    then have "ua_inv J up sec (set_call (c\<lparr>c_authenticated := True\<rparr>) s2)"
      using inv2 c1 by (intro inv_set_call [of _ c]) (simp_all add: s2)
    then show ?thesis
      using False Some c1 v inv1 inv2 out
      by (cases v) (simp_all add: on_invite_final_def Let_def inv_reject_invite inv_send_invite)
  qed
qed

lemma inv_run_final: "ua_inv J up sec s \<Longrightarrow> handler_ok f \<Longrightarrow> ua_inv J up sec (run_final H f m now s)"
  by (cases f) (simp_all add: run_final_def inv_on_register_final inv_on_invite_final handler_ok_def)

lemma inv_on_reinvite:
  assumes inv: "ua_inv J up sec s" and c: "u_call s = Some c" and open': "c_state c \<noteq> Ringing"
  shows "ua_inv J up sec (on_reinvite H rq c s)"
proof (cases "m_body rq \<noteq> [] \<and> (\<exists>offer. parse_audio (m_body rq) = Some offer \<and> fst (acceptable (u_config s) offer))")
  case False
  then show ?thesis
    using inv by (auto simp: on_reinvite_def inv_respond split: list.split option.split prod.split bool.split)
next
  case True
  then obtain offer k x xs where offer: "parse_audio (m_body rq) = Some offer" "acceptable (u_config s) offer = (True, k)"
    and body: "m_body rq = x # xs"
    by (auto simp: neq_Nil_conv prod_eq_iff)
  note ok = inv_call [OF inv c]
  obtain answer c1 where a: "(if srtp (u_config s) then local_sdp_for (u_config s) c (Some offer) else (c_local_sdp c, c)) = (answer, c1)"
    by (cases "if srtp (u_config s) then local_sdp_for (u_config s) c (Some offer) else (c_local_sdp c, c)")
  have c1: "call_ok (u_config s) c1 \<and> call_ok (u_config s) (c1\<lparr>c_local_sdp := answer\<rparr>) \<and> c_media_open c1 = c_media_open c \<and>
      c_srtp_key c1 = c_srtp_key c"
    using a ok local_sdp_for_call [of "u_config s" c "Some offer"] by (auto simp: call_ok_def split: if_splits)
  let ?rm = "remote_media_for (u_config s) c1 offer k"
  let ?s = "(set_call c1 s)\<lparr>u_host := snd (start_media H ?rm (u_host s))\<rparr>"
  have sec: "srtp (u_config s) = sec" using inv by (simp add: ua_inv_def ua_base_def ua_pre_def)
  have "secured (srtp (u_config s)) ?rm"
    using acceptable_key [OF parse_audio_keys [OF offer(1)] offer(2)] ok open' c1
    by (intro secured_remote) (auto simp: call_ok_def)
  moreover have "ua_inv J up sec (set_call c1 s)" using inv c c1 by (intro inv_set_call) auto
  ultimately have inv1: "ua_inv J up sec ?s"
    using inv_host_start [of "set_call c1 s" c1 ?rm] ok open' c1 sec by (simp add: call_ok_def)
  moreover have "ua_inv J up sec (set_call (c1\<lparr>c_local_sdp := answer\<rparr>) ?s)"
    using inv1 c1 by (intro inv_set_call [of _ c1]) auto
  ultimately show ?thesis
    using offer body a by (simp add: on_reinvite_def effect_eqs Let_def inv_respond split: bool.split)
qed

lemma inv_on_new_invite:
  assumes inv: "ua_inv J up sec s"
  shows "ua_inv J up sec (on_new_invite H rq s)"
proof (cases "u_call s = None \<and> \<not> u_shutting_down s \<and> (\<exists>offer. parse_audio (m_body rq) = Some offer \<and> fst (acceptable (u_config s) offer))")
  case False
  then show ?thesis
    using inv by (auto simp: on_new_invite_def effect_eqs inv_respond inv_random split: option.split)
next
  case True
  then obtain offer where offer: "parse_audio (m_body rq) = Some offer" "fst (acceptable (u_config s) offer)" by blast
  define t where "t = fst (random_hex 6 (u_random s))"
  define s1 where "s1 = s\<lparr>u_random := snd (random_hex 6 (u_random s))\<rparr>"
  define i where "i = fst (allocate_call_id H (u_host s))"
  define s2 where "s2 = s1\<lparr>u_host := snd (allocate_call_id H (u_host s))\<rparr>"
  let ?c = "incoming_call (u_config s) rq offer i t"
  have "ua_pre J up sec False s2"
    using inv True by (simp add: s1_def s2_def ua_inv_def ua_base_def ua_pre_def media_open_of_def allocates)
  then have "ua_base J up sec (set_call ?c (send_raw H (c_last_response ?c) s2))"
    by (intro pre_set_call) (simp add: incoming_call_def new_call_def Let_def ua_pre_def send)
  moreover have "call_ok (u_config s) ?c"
    using offer parse_audio_keys [OF offer(1)]
    by (simp add: call_ok_def incoming_call_def new_call_def Let_def build_response_nonempty)
  ultimately have "ua_inv J up sec (set_call ?c (send_raw H (c_last_response ?c) s2))"
    by (simp add: ua_inv_def call_fine_def s1_def s2_def)
  then have "ua_inv J up sec (emit (incoming_event ?c) (set_call ?c (send_raw H (c_last_response ?c) s2)))"
    by (rule inv_emit)
  then show ?thesis
    using True offer by (simp add: on_new_invite_def effect_eqs Let_def s2_def s1_def i_def t_def)
qed

lemma inv_on_invite_request:
  assumes "ua_inv J up sec s"
  shows "ua_inv J up sec (on_invite_request H rq s)"
proof (cases "u_call s")
  case (Some c)
  have "c_outgoing c \<or> c_state c = Confirmed \<Longrightarrow> c_state c \<noteq> Ringing"
    using inv_call [OF assms Some] by (auto simp: call_ok_def)
  then show ?thesis
    using assms Some by (simp add: on_invite_request_def inv_on_new_invite inv_send_raw inv_on_reinvite)
qed (use assms in \<open>simp add: on_invite_request_def inv_on_new_invite\<close>)

lemma inv_fail_answer:
  "ua_pre J up sec (c_media_open c) s \<Longrightarrow> ua_inv J up sec (fail_answer H c s)"
  by (simp add: fail_answer_def base_end_call base_respond pre_set_call)

lemma inv_finish_answer:
  assumes pre: "ua_pre J up sec True s" and c: "call_ok (u_config s) (c\<lparr>c_state := Confirmed\<rparr>)"
    and open': "c_media_open c" "\<not> c_outgoing c"
  shows "ua_inv J up sec (finish_answer H c now s)"
proof -
  obtain sdp c1 where sdp: "local_sdp_for (u_config s) c (Some (c_offer c)) = (sdp, c1)"
    by (cases "local_sdp_for (u_config s) c (Some (c_offer c))")
  then have c1: "c1 = c\<lparr>c_sdp_version := c_sdp_version c + 1\<rparr>"
    using local_sdp_for_call [of "u_config s" c "Some (c_offer c)"] by simp
  let ?c = "c1\<lparr>c_local_sdp := sdp,
    c_last_response := build_response (u_config s) (the_invite c1) 200 (c_local_tag c1) sdp,
    c_state := Answering, c_resend_interval := kT1, c_resend_at := now + kT1, c_ack_deadline := now + kTransactionTimeout\<rparr>"
  have "ua_base J up sec (set_call ?c s)" using pre open' c1 pre_set_call [of ?c s] by simp
  moreover have "call_ok (u_config s) ?c"
    using c open' c1 by (auto simp: call_ok_def build_response_nonempty)
  ultimately have "ua_inv J up sec (set_call ?c s)" by (simp add: ua_inv_def call_fine_def)
  then show ?thesis using sdp by (simp add: finish_answer_def Let_def inv_send_raw)
qed

lemma inv_answer:
  assumes inv: "ua_inv J up sec s"
  shows "ua_inv J up sec (snd (answer H i now s))"
proof (cases "\<exists>c. u_call s = Some c \<and> c_id c = i \<and> \<not> c_outgoing c \<and> c_state c = Ringing")
  case False
  then show ?thesis using inv by (auto simp: answer_def split: option.split)
next
  case True
  then obtain c0 where c0: "u_call s = Some c0" "c_id c0 = i" "\<not> c_outgoing c0" "c_state c0 = Ringing" by blast
  note ok = inv_call [OF inv c0(1)]
  have down: "\<not> up (u_host s)" using inv ok c0
    by (simp add: ua_inv_def ua_base_def ua_pre_def media_open_of_def call_ok_def)
  define p where "p = fst (open_media H (u_host s))"
  define s1 where "s1 = s\<lparr>u_host := snd (open_media H (u_host s)), u_random := \<lambda>n. u_random s (Suc n)\<rparr>"
  define c where "c = c0\<lparr>c_media_open := p \<noteq> 0, c_media_port := p, c_sdp_session := ucast (u_random s 0)\<rparr>"
  have pre: "ua_pre J up sec (p \<noteq> 0) s1" and cfg: "u_config s1 = u_config s"
    using inv down by (auto simp: s1_def p_def ua_inv_def ua_base_def ua_pre_def opens)
  have c: "c_media_open c = (p \<noteq> 0)" "c_offer c = c_offer c0" by (simp_all add: c_def)
  obtain acc k where k: "acceptable (u_config s) (c_offer c0) = (acc, k)" by (cases "acceptable (u_config s) (c_offer c0)")
  then have "acc" using ok c0 by (simp add: call_ok_def)
  then have kk: "(srtp (u_config s) \<longrightarrow> k \<noteq> None) \<and> (\<forall>k'. k = Some k' \<longrightarrow> length (key k') = kSdesKeyLength)"
    using ok c0 k by (intro acceptable_key [of "c_offer c0"]) (simp_all add: call_ok_def)
  have eq: "answer H i now s = (Ok, if p = 0 then fail_answer H c s1
      else case new_srtp_key H c s1 of
        (False, c, s) \<Rightarrow> fail_answer H c s
      | (True, c, s) \<Rightarrow> (case host_start H (remote_media_for (u_config s) c (c_offer c) k) s of
           (False, s) \<Rightarrow> fail_answer H c s | (True, s) \<Rightarrow> finish_answer H c now s))"
    using c0 k by (simp add: answer_def effect_eqs Let_def p_def s1_def c_def split: prod.split bool.split)
  obtain b c2 s2 where key: "new_srtp_key H c s1 = (b, c2, s2)" by (cases "new_srtp_key H c s1")
  note eff = new_srtp_key_effect [OF pre key]
  then obtain kb where c2: "c2 = c\<lparr>c_srtp_key := kb\<rparr>" and kb: "b \<Longrightarrow> sec \<Longrightarrow> length kb = kSdesKeyLength" by blast
  have cfg2: "u_config s2 = u_config s" and pre2: "ua_pre J up sec (p \<noteq> 0) s2" using eff cfg by auto
  then have sec: "srtp (u_config s) = sec" by (simp add: ua_pre_def)
  let ?rm = "remote_media_for (u_config s2) c2 (c_offer c2) k"
  let ?s3 = "s2\<lparr>u_host := snd (start_media H ?rm (u_host s2))\<rparr>"
  show ?thesis
  proof (cases "p \<noteq> 0 \<and> b")
    case False
    have "ua_pre J up sec (c_media_open c) s1" "ua_pre J up sec (c_media_open c2) s2" using pre pre2 c c2 by auto
    then show ?thesis using False key unfolding eq by (cases b) (auto simp: inv_fail_answer)
  next
    case True
    have "secured (srtp (u_config s2)) ?rm"
      using kk kb True c2 cfg2 sec by (intro secured_remote) auto
    then have pre3: "ua_pre J up sec True ?s3" using pre2 True by (simp add: ua_pre_def starts)
    have "call_ok (u_config s) (c2\<lparr>c_state := Confirmed\<rparr>)"
      using ok c0 c2 True kb sec by (auto simp: call_ok_def c_def)
    then have "ua_inv J up sec (finish_answer H c2 now ?s3)"
      using pre3 cfg2 c c2 c0 True by (intro inv_finish_answer) (simp_all add: c_def)
    moreover have "ua_inv J up sec (fail_answer H c2 ?s3)"
      using pre3 c c2 True by (intro inv_fail_answer) simp
    ultimately show ?thesis
      using True key cfg2 unfolding eq by (simp add: effect_eqs split: bool.split)
  qed
qed

lemma inv_reject: "ua_inv J up sec s \<Longrightarrow> ua_inv J up sec (snd (reject H i st s))"
  by (auto simp: reject_def intro!: inv_intros split: option.split)

lemma inv_hangup:
  assumes inv: "ua_inv J up sec s"
  shows "ua_inv J up sec (snd (hangup H i now s))"
proof (cases "u_call s")
  case (Some c)
  have "call_ok (u_config s) (c\<lparr>c_cancel_requested := True\<rparr>)" using inv_call [OF inv Some] by (simp add: call_ok_def)
  then have "ua_inv J up sec (set_call (c\<lparr>c_cancel_requested := True\<rparr>) s)"
    using inv Some by (intro inv_set_call [of _ c]) auto
  then have "ua_inv J up sec (hangup_calling H c now s)"
    using inv by (simp add: hangup_calling_def Let_def inv_end_call inv_send_cancel)
  then show ?thesis
    using inv Some by (auto simp: hangup_def inv_intros inv_end_bye split: call_state.split)
qed (use inv in \<open>simp add: hangup_def\<close>)

lemma inv_shutting_down: "ua_inv J up sec s \<Longrightarrow> ua_inv J up sec (s\<lparr>u_shutting_down := b\<rparr>)"
  by (auto simp: ua_inv_def ua_base_def ua_pre_def call_fine_def split: option.splits)

lemma inv_start_registration: "ua_inv J up sec s \<Longrightarrow> ua_inv J up sec (start_registration H now s)"
  by (simp add: start_registration_def Let_def inv_intros)

lemma inv_stop_registration: "ua_inv J up sec s \<Longrightarrow> ua_inv J up sec (stop_registration H now s)"
  by (simp add: stop_registration_def Let_def inv_intros)

lemma inv_shutdown: "ua_inv J up sec s \<Longrightarrow> ua_inv J up sec (shutdown H now s)"
  by (auto simp: shutdown_def Let_def intro!: inv_stop_registration inv_hangup inv_shutting_down split: option.split)

lemma inv_transactions:
  "ua_inv J up sec s \<Longrightarrow> transactions_ok ts \<Longrightarrow> ua_inv J up sec (s\<lparr>u_transactions := ts\<rparr>)"
  by (auto simp: ua_inv_def ua_base_def ua_pre_def call_fine_def split: option.splits)

lemma inv_finals:
  "ua_inv J up sec s \<Longrightarrow> \<forall>(k, t) \<in> set ts. handler_ok (t_on_final t) \<Longrightarrow>
     ua_inv J up sec (fold (\<lambda>(k, t). run_final H (t_on_final t) None now) ts s)"
  by (induction ts arbitrary: s) (auto simp: inv_run_final)

lemma inv_transactions_ok: "ua_inv J up sec s \<Longrightarrow> transactions_ok (u_transactions s)"
  by (simp add: ua_inv_def ua_base_def ua_pre_def)

lemma inv_on_transport_down:
  assumes "ua_inv J up sec s"
  shows "ua_inv J up sec (on_transport_down H now s)"
proof -
  have "ua_inv J up sec (s\<lparr>u_transactions := []\<rparr>)"
    using assms by (rule inv_transactions) (simp add: transactions_ok_def)
  moreover have "\<forall>(k, t) \<in> set (u_transactions s). handler_ok (t_on_final t)"
    using inv_transactions_ok [OF assms] by (auto simp: transactions_ok_def)
  ultimately show ?thesis by (simp add: on_transport_down_def Let_def inv_finals inv_emit inv_registration)
qed

lemma inv_on_transport_up: "ua_inv J up sec s \<Longrightarrow> ua_inv J up sec (on_transport_up H now s)"
  by (simp add: on_transport_up_def inv_intros)

lemma inv_on_response:
  assumes inv: "ua_inv J up sec s"
  shows "ua_inv J up sec (on_response H m now s)"
proof (cases "parse_cseq (header_or_empty m ''cseq'')")
  case (Some q)
  define k where "k = transaction_key (branch_of m) (cseq_method q)"
  show ?thesis
  proof (cases "om_find (u_transactions s) k")
    case None
    then show ?thesis
      using Some inv by (simp add: on_response_def k_def resend_ack_def inv_send_raw split: option.split)
  next
    case t: (Some t)
    note ts = inv_transactions_ok [OF inv]
    note ok = transactions_ok_find [OF ts t]
    have "ua_inv J up sec (s\<lparr>u_transactions := om_assign k (note_provisional now t) (u_transactions s)\<rparr>)"
      using inv ok by (intro inv_transactions transactions_ok_assign ts) (auto simp: note_provisional_def)
    moreover have "ua_inv J up sec (s\<lparr>u_transactions := om_erase k (u_transactions s)\<rparr>)"
      using inv by (intro inv_transactions transactions_ok_erase ts)
    ultimately show ?thesis
      using Some t ok
      by (auto simp: on_response_def k_def [symmetric] Let_def run_provisional_def inv_run_final inv_on_invite_provisional
          split: provisional_handler.split)
  qed
qed (use inv in \<open>simp add: on_response_def\<close>)

lemma inv_on_ack:
  assumes inv: "ua_inv J up sec s"
  shows "ua_inv J up sec (on_ack rq s)"
proof (cases "u_call s")
  case (Some c)
  have "c_state c = Answering \<Longrightarrow> call_ok (u_config s) (c\<lparr>c_state := Confirmed\<rparr>)"
    using inv_call [OF inv Some] by (auto simp: call_ok_def)
  then show ?thesis
    using inv Some by (auto simp: on_ack_def inv_emit inv_set_call)
qed (use inv in \<open>simp add: on_ack_def\<close>)

lemma inv_on_request: "ua_inv J up sec s \<Longrightarrow> ua_inv J up sec (on_request H rq s)"
  by (auto simp: on_request_def effect_eqs on_bye_def on_cancel_def Let_def inv_on_ack inv_on_invite_request inv_random
      inv_respond inv_end_call split: option.split)

lemma inv_on_message: "ua_inv J up sec s \<Longrightarrow> ua_inv J up sec (on_message H d now s)"
  by (simp add: on_message_def inv_on_response inv_on_request split: option.split)

lemma inv_resend:
  "ua_inv J up sec s \<Longrightarrow>
     ua_inv J up sec (fold (\<lambda>(k, t) s. if retransmission_due now t then send_raw H (t_bytes t) s else s) ts s)"
  by (induction ts arbitrary: s) (auto simp: inv_send_raw)

lemma inv_expire: "ua_inv J up sec s \<Longrightarrow> ua_inv J up sec (expire H now k s)"
  using inv_transactions_ok [of s]
  by (auto simp: expire_def intro!: inv_run_final inv_transactions transactions_ok_erase
      dest: transactions_ok_find split: option.split)

lemma inv_expires: "ua_inv J up sec s \<Longrightarrow> ua_inv J up sec (fold (expire H now) ks s)"
  by (induction ks arbitrary: s) (auto simp: inv_expire)

lemma inv_tick_call:
  assumes inv: "ua_inv J up sec s"
  shows "ua_inv J up sec (tick_call H now s)"
proof (cases "u_call s")
  case (Some c)
  let ?i = "min (c_resend_interval c * 2) kT2"
  let ?c = "c\<lparr>c_resend_interval := ?i, c_resend_at := now + ?i\<rparr>"
  have "call_ok (u_config s) ?c" using inv_call [OF inv Some] by (simp add: call_ok_def)
  then have "ua_inv J up sec (set_call ?c (send_raw H (c_last_response c) s))"
    using inv Some by (intro inv_set_call [of _ c]) (simp_all add: inv_send_raw)
  then show ?thesis
    using inv Some by (simp add: tick_call_def Let_def inv_end_bye)
qed (use inv in \<open>simp add: tick_call_def\<close>)

lemma inv_tick_transactions:
  assumes inv: "ua_inv J up sec s"
  shows "ua_inv J up sec (tick_transactions H now s)"
proof -
  have "transactions_ok (map (\<lambda>(k, t). (k, tick_transaction now t)) (u_transactions s))"
    using inv_transactions_ok [OF inv]
    by (auto simp: transactions_ok_def om_ok_def tick_transaction_def next_interval_def comp_def case_prod_beta)
  then show ?thesis
    unfolding tick_transactions_def by (intro inv_transactions inv_resend inv)
qed

lemma inv_on_timer: "ua_inv J up sec s \<Longrightarrow> ua_inv J up sec (on_timer H now s)"
  by (auto simp: on_timer_def Let_def tick_registration_def
      intro!: inv_send_register inv_registration inv_tick_call inv_expires inv_tick_transactions split: option.split)

end

end
