(* ===== verification/User_Agent_Runs.thy ===== *)
theory User_Agent_Runs
  imports User_Agent_Contract
begin

text \<open>
  Runs of the user agent: any sequence of datagrams, timer calls, commands and transport changes, at
  any times. The invariant of the contract holds after every run, on any host that keeps the contract;
  the recording host, which answers in any way and remembers what it was asked, is one. On it the
  media calls of a run are shown to be bracketed and secured, the calls to be reported ended once each,
  a shutdown to be final, and the timer to leave nothing overdue.
\<close>

section \<open>Operations and runs\<close>

datatype ua_operation =
    OnMessage string | OnTimer | TakeEvents | StartRegistration | StopRegistration | MakeCall int string
  | Answer int | Reject int int | Hangup int | ShutDown | TransportDown | TransportUp

fun ua_step :: "'h ua_host \<Rightarrow> time \<times> ua_operation \<Rightarrow> 'h user_agent \<Rightarrow> 'h user_agent" where
  "ua_step H (now, OnMessage d) s = on_message H d now s"
| "ua_step H (now, OnTimer) s = on_timer H now s"
| "ua_step H (now, TakeEvents) s = snd (take_events s)"
| "ua_step H (now, StartRegistration) s = start_registration H now s"
| "ua_step H (now, StopRegistration) s = stop_registration H now s"
| "ua_step H (now, MakeCall i t) s = snd (make_call H i t now s)"
| "ua_step H (now, Answer i) s = snd (answer H i now s)"
| "ua_step H (now, Reject i st) s = snd (reject H i st s)"
| "ua_step H (now, Hangup i) s = snd (hangup H i now s)"
| "ua_step H (now, ShutDown) s = shutdown H now s"
| "ua_step H (now, TransportDown) s = on_transport_down H now s"
| "ua_step H (now, TransportUp) s = on_transport_up H now s"

definition ua_run :: "'h ua_host \<Rightarrow> (time \<times> ua_operation) list \<Rightarrow> 'h user_agent \<Rightarrow> 'h user_agent" where
  "ua_run H ops s = fold (ua_step H) ops s"

context ua_contract
begin

lemma inv_take_events: "ua_inv J up sec s \<Longrightarrow> ua_inv J up sec (snd (take_events s))"
  by (auto simp: take_events_def ua_inv_def ua_base_def ua_pre_def call_fine_def split: option.splits)

lemma inv_ua_step: "ua_inv J up sec s \<Longrightarrow> ua_inv J up sec (ua_step H (now, op') s)"
  by (cases op')
    (simp_all add: inv_on_message inv_on_timer inv_start_registration inv_stop_registration inv_make_call inv_answer
      inv_reject inv_hangup inv_shutdown inv_on_transport_down inv_on_transport_up inv_take_events)

lemma inv_ua_run: "ua_inv J up sec s \<Longrightarrow> ua_inv J up sec (ua_run H ops s)"
  unfolding ua_run_def by (induction ops arbitrary: s) (auto simp: inv_ua_step)

end

lemma new_user_agent_inv:
  "J h \<Longrightarrow> \<not> up h \<Longrightarrow> ua_inv J up (srtp cfg) (new_user_agent cfg h g)"
  by (simp add: new_user_agent_def Let_def case_prod_beta ua_inv_def ua_base_def ua_pre_def call_fine_def
      media_open_of_def transactions_ok_def)

section \<open>The recording host\<close>

datatype host_call =
    SendSip string | OpenMedia u16 | StartMedia remote_media bool | CloseMedia | AllocateId int | GetEntropy nat

text \<open>What a host answers may depend on everything it was asked before.\<close>

record host_answers =
  port_answer :: "host_call list \<Rightarrow> u16"
  start_answer :: "host_call list \<Rightarrow> remote_media \<Rightarrow> bool"
  id_answer :: "host_call list \<Rightarrow> int"
  entropy_answer :: "host_call list \<Rightarrow> (nat \<Rightarrow> byte) option"

definition recording_host :: "host_answers \<Rightarrow> host_call list ua_host" where
  "recording_host A =
     \<lparr>send_sip = (\<lambda>m h. h @ [SendSip m]),
      open_media = (\<lambda>h. (port_answer A h, h @ [OpenMedia (port_answer A h)])),
      start_media = (\<lambda>rm h. (start_answer A h rm, h @ [StartMedia rm (start_answer A h rm)])),
      close_media = (\<lambda>h. h @ [CloseMedia]),
      allocate_call_id = (\<lambda>h. (id_answer A h, h @ [AllocateId (id_answer A h)])),
      getentropy = (\<lambda>n h. (map_option (\<lambda>f. map f [0..<n]) (entropy_answer A h), h @ [GetEntropy n]))\<rparr>"

text \<open>Whether media are open after a sequence of calls, and whether the calls are bracketed.\<close>

definition media_up :: "host_call list \<Rightarrow> bool" where
  "media_up h = fold (\<lambda>c b. case c of OpenMedia p \<Rightarrow> p \<noteq> 0 | CloseMedia \<Rightarrow> False | _ \<Rightarrow> b) h False"

definition allowed_after :: "bool \<Rightarrow> host_call list \<Rightarrow> host_call \<Rightarrow> bool" where
  "allowed_after sec h c =
     (case c of
        OpenMedia p \<Rightarrow> \<not> media_up h
      | StartMedia rm ok \<Rightarrow> media_up h \<and> secured sec rm
      | CloseMedia \<Rightarrow> media_up h
      | _ \<Rightarrow> True)"

definition bracketed :: "bool \<Rightarrow> host_call list \<Rightarrow> bool" where
  "bracketed sec h \<longleftrightarrow> (\<forall>i < length h. allowed_after sec (take i h) (h ! i))"

lemma media_up_snoc [simp]:
  "media_up (h @ [c]) = (case c of OpenMedia p \<Rightarrow> p \<noteq> 0 | CloseMedia \<Rightarrow> False | _ \<Rightarrow> media_up h)"
  by (cases c) (simp_all add: media_up_def)

lemma bracketed_snoc [simp]: "bracketed sec (h @ [c]) \<longleftrightarrow> bracketed sec h \<and> allowed_after sec h c"
  unfolding bracketed_def length_append_singleton All_less_Suc by (auto simp: nth_append)

interpretation recorded: ua_contract "recording_host A" "bracketed sec" media_up sec for A sec
  by unfold_locales (auto simp: recording_host_def full_reads_def allowed_after_def)

section \<open>Properties of every run\<close>

lemma recorded_inv:
  "ua_inv (bracketed (srtp cfg)) media_up (srtp cfg) (ua_run (recording_host A) ops (new_user_agent cfg [] g))"
  by (rule recorded.inv_ua_run, rule new_user_agent_inv) (simp_all add: bracketed_def media_up_def)

text \<open>
  C4: in every run of a user agent, on a host that answers in any way, the calls for media are
  bracketed: media are opened only while closed, started and closed only while open; they are
  started with keys of both sides if the configuration asks for SRTP and never otherwise; and after
  the run they are open exactly if there is a call whose media are open.
\<close>

theorem media_calls_are_bracketed:
  "let s = ua_run (recording_host A) ops (new_user_agent cfg [] g)
   in bracketed (srtp cfg) (u_host s) \<and> media_up (u_host s) = media_open_of (u_call s) \<and> call_fine s"
  using recorded_inv [of cfg A ops g] by (simp add: ua_inv_def ua_base_def ua_pre_def Let_def)

section \<open>Accounting for calls\<close>

definition ids_of :: "event_kind \<Rightarrow> event list \<Rightarrow> int list" where
  "ids_of kind es = map ev_call_id (filter (\<lambda>e. ev_kind e = kind) es)"

definition current :: "'h user_agent \<Rightarrow> int list" where
  "current s = (case u_call s of None \<Rightarrow> [] | Some c \<Rightarrow> [c_id c])"

text \<open>
  The events a step adds account for the calls: the call there was and the calls that came in are,
  in this order, the calls that ended and the call there is.
\<close>

definition accounts :: "int list \<Rightarrow> 'h user_agent \<Rightarrow> 'h user_agent \<Rightarrow> bool" where
  "accounts made s s' \<longleftrightarrow> (\<exists>new. u_events s' = u_events s @ new \<and>
     current s @ made @ ids_of CallIncoming new = ids_of CallEnded new @ current s')"

lemma ids_of_append [simp]: "ids_of k (es @ fs) = ids_of k es @ ids_of k fs"
  by (simp add: ids_of_def)

lemma ids_of_Nil [simp]: "ids_of k [] = []"
  by (simp add: ids_of_def)

lemma accounts_same: "u_events s' = u_events s \<Longrightarrow> current s' = current s \<Longrightarrow> accounts [] s s'"
  by (simp add: accounts_def)

lemma accounts_refl: "accounts [] s s"
  by (simp add: accounts_same)

lemma accounts_trans:
  assumes "accounts made s s1" and "accounts [] s1 s2"
  shows "accounts made s s2"
proof -
  from assms(1) obtain n1 where n1: "u_events s1 = u_events s @ n1"
    "current s @ made @ ids_of CallIncoming n1 = ids_of CallEnded n1 @ current s1" by (auto simp: accounts_def)
  from assms(2) obtain n2 where n2: "u_events s2 = u_events s1 @ n2"
    "current s1 @ ids_of CallIncoming n2 = ids_of CallEnded n2 @ current s2" by (auto simp: accounts_def)
  have "current s @ made @ ids_of CallIncoming (n1 @ n2) = ids_of CallEnded (n1 @ n2) @ current s2"
    using n1(2) n2(2) by simp (metis append_assoc)
  then show ?thesis unfolding accounts_def using n1(1) n2(1) by (metis append_assoc)
qed

lemma accounts_emit:
  "ev_kind e \<noteq> CallEnded \<Longrightarrow> ev_kind e \<noteq> CallIncoming \<Longrightarrow> accounts made s s' \<Longrightarrow> accounts made s (emit e s')"
  by (rule accounts_trans) (auto simp: accounts_def current_def ids_of_def)

lemma accounts_end_call: "accounts [] s (end_call H r st s)"
  by (auto simp: accounts_def end_call_def host_close_def current_def ids_of_def new_event_def Let_def split: option.split)

lemma accounts_end: "current s' = current s \<Longrightarrow> u_events s' = u_events s \<Longrightarrow> accounts [] s (end_call H r st s')"
  using accounts_trans [OF accounts_same accounts_end_call] by metis

lemma current_simps [simp]:
  "current (send_raw H m s) = current s" "current (emit e s) = current s" "current (set_registration r s) = current s"
  "current (send_request H rq now f p b s) = current s" "current (respond H m' st t b s) = current s"
  "current (send_register H ex a now s) = current s" "current (set_call c s) = [c_id c]"
  "current (s\<lparr>u_random := g\<rparr>) = current s" "current (s\<lparr>u_host := h\<rparr>) = current s"
  "current (s\<lparr>u_transactions := ts\<rparr>) = current s" "current (s\<lparr>u_shutting_down := quit\<rparr>) = current s"
  "current (s\<lparr>u_events := es\<rparr>) = current s" "current (end_call H why st s) = []"
  "current (send_bye H now s) = current s" "current (send_cancel H now s) = current s"
  by (simp_all add: current_def option.case_eq_if map_option_case split: option.split)

lemma current_Some: "u_call s = Some c \<Longrightarrow> current s = [c_id c]"
  by (simp add: current_def)

lemma current_iff:
  "current s = [i] \<longleftrightarrow> (\<exists>c. u_call s = Some c \<and> c_id c = i)" "[i] = current s \<longleftrightarrow> (\<exists>c. u_call s = Some c \<and> c_id c = i)"
  by (auto simp: current_def split: option.split)

lemma send_invite_frame [simp]: "current (send_invite H a now s) = current s" "u_events (send_invite H a now s) = u_events s"
  by (simp_all add: send_invite_def effect_eqs Let_def current_def split: option.split)

lemma authorization_for_frame:
  assumes "authorization_for m mt uri s = (v, s')"
  shows "current s' = current s \<and> u_events s' = u_events s"
  using authorization_for_state [of m mt uri s] assms by auto

lemma accounts_settle: "accounts [] s (settle_register H m st e now s)"
  by (auto simp: settle_register_def finish_register_def Let_def new_event_def accounts_same
      intro!: accounts_emit)

lemma accounts_register: "accounts [] s (on_register_final H m e a now s)"
proof -
  let ?s = "set_registration ((u_registration s)\<lparr>r_in_flight := False\<rparr>) s"
  have s: "accounts [] s ?s" by (simp add: accounts_same)
  have settled: "accounts [] s t \<Longrightarrow> accounts [] s (settle_register H m st e now t)" for t st
    by (rule accounts_trans [OF _ accounts_settle])
  show ?thesis
  proof (cases m)
    case None
    then show ?thesis using settled [OF s] by (simp add: on_register_final_def Let_def)
  next
    case (Some r)
    obtain v s2 where v: "authorization_for r ''REGISTER'' (server_uri (u_config s)) ?s = (v, s2)"
      by (cases "authorization_for r ''REGISTER'' (server_uri (u_config s)) ?s")
    note fr = authorization_for_frame [OF v]
    have "accounts [] s s2" "accounts [] s (send_register H e x now s2)" for x
      using fr by (simp_all add: accounts_same)
    then show ?thesis using Some v settled s by (cases v) (simp_all add: on_register_final_def Let_def)
  qed
qed

lemma accounts_invite_success: "accounts [] s (on_invite_success H ctx m now s)"
proof -
  let ?s0 = "s\<lparr>u_random := snd (random_hex 10 (u_random s))\<rparr>"
  let ?ack = "build_request (u_config s) (success_ack ctx m) (''z9hG4bK'' @ fst (random_hex 10 (u_random s)))"
  let ?s = "send_raw H ?ack ?s0"
  have failed: "current t = current s \<Longrightarrow> u_events t = u_events s \<Longrightarrow> accounts [] s (fail_answered H now t)" for t
    unfolding fail_answered_def by (rule accounts_end) simp_all
  show ?thesis
  proof (cases "ours ctx s")
    case False
    then show ?thesis by (simp add: on_invite_success_def effect_eqs Let_def accounts_same)
  next
    case True
    then obtain c where c: "u_call s = Some c" by (auto simp: ours_def split: option.split_asm)
    let ?c = "c\<lparr>c_ack := ?ack, c_remote_header := header_or_empty m ''to'',
      c_remote_target := contact_or m (ic_uri ctx), c_state := Confirmed\<rparr>"
    let ?t = "set_call ?c ?s"
    have t: "current ?t = current s" "u_events ?t = u_events s" using c by (simp_all add: current_iff)
    have "accounts [] s (end_call H r 0 (send_bye H now ?t))" for r by (rule accounts_end) (simp_all add: c current_iff)
    moreover have "accounts [] s (start_answered H ?c m now ?t)"
      using t by (auto simp: start_answered_def effect_eqs answered_event_def new_event_def accounts_same
          intro!: failed accounts_emit split: option.split bool.split)
    ultimately show ?thesis using c True by (simp add: on_invite_success_def effect_eqs Let_def)
  qed
qed

lemma accounts_invite_final: "accounts [] s (on_invite_final H ctx m now s)"
proof (cases m)
  case None
  then show ?thesis by (simp add: on_invite_final_def accounts_end_call accounts_refl)
next
  case (Some r)
  let ?s = "send_ack_for_failure H ctx r s"
  have s: "current ?s = current s" "u_events ?s = u_events s" by (simp_all add: send_ack_for_failure_def)
  have rej: "current t = current s \<Longrightarrow> u_events t = u_events s \<Longrightarrow> accounts [] s (reject_invite H c st t)" for t c st
    by (simp add: reject_invite_def accounts_end)
  have inv: "accounts [] s (send_invite H x now (set_call (c\<lparr>c_authenticated := True\<rparr>) t))"
    if "u_call ?s = Some c" "current t = current s" "u_events t = u_events s" for x c t
    using that s current_Some [OF that(1)] by (intro accounts_same) simp_all
  show ?thesis
    using Some accounts_invite_success rej [OF s] s inv
    by (auto simp: on_invite_final_def Let_def accounts_same
        intro: rej dest!: authorization_for_frame split: option.split prod.split)
qed

lemma accounts_run_final: "accounts [] s (run_final H f m now s)"
  by (simp add: run_final_def accounts_register accounts_invite_final accounts_refl split: final_handler.split)

lemma accounts_provisional: "accounts [] s (run_provisional H p m now s)"
  by (auto simp: run_provisional_def on_invite_provisional_def progress_event_def new_event_def Let_def current_iff
      accounts_refl accounts_same intro!: accounts_emit split: provisional_handler.split option.split)

lemma accounts_then: "current t = current s \<Longrightarrow> u_events t = u_events s \<Longrightarrow> accounts [] t s' \<Longrightarrow> accounts [] s s'"
  using accounts_trans [OF accounts_same] by metis

lemma accounts_on_response: "accounts [] s (on_response H m now s)"
  by (auto simp: on_response_def resend_ack_def Let_def accounts_refl accounts_same
      intro: accounts_then [OF _ _ accounts_provisional] accounts_then [OF _ _ accounts_run_final] split: option.split)

lemma accounts_new_invite: "accounts [] s (on_new_invite H rq s)"
proof -
  have "accounts [] s (emit (incoming_event c) (set_call c t))"
    if "u_call s = None" "u_events t = u_events s" for c t
    using that by (simp add: accounts_def current_def ids_of_def incoming_event_def new_event_def)
  then show ?thesis
    by (auto simp: on_new_invite_def effect_eqs Let_def accounts_same split: option.split)
qed

lemma accounts_reinvite: "u_call s = Some c \<Longrightarrow> accounts [] s (on_reinvite H rq c s)"
  by (auto simp: on_reinvite_def effect_eqs Let_def local_sdp_for_def current_iff
      intro!: accounts_same split: list.split option.split prod.split bool.split)

lemma accounts_on_request: "accounts [] s (on_request H rq s)"
proof -
  have "accounts [] s (on_ack rq s)"
    by (auto simp: on_ack_def answered_event_def new_event_def current_iff accounts_same
        intro!: accounts_emit split: option.split)
  moreover have "accounts [] s (on_invite_request H rq s)"
    by (auto simp: on_invite_request_def accounts_reinvite accounts_new_invite accounts_same split: option.split)
  moreover have "accounts [] s (on_bye H rq s)" "accounts [] s (on_cancel H rq s)"
    by (auto simp: on_bye_def on_cancel_def Let_def accounts_same intro!: accounts_end split: option.split)
  ultimately show ?thesis by (simp add: on_request_def effect_eqs accounts_same)
qed

lemma accounts_folds:
  "(\<And>x t. accounts [] t (f x t)) \<Longrightarrow> accounts [] s (fold f xs s)"
  by (induction xs arbitrary: s) (auto intro: accounts_refl accounts_trans)

lemma accounts_timer: "accounts [] s (on_timer H now s)"
proof -
  have "accounts [] s (fold (\<lambda>(k, t) s. if retransmission_due now t then send_raw H (t_bytes t) s else s) ts s)" for ts
    by (rule accounts_folds) (auto intro: accounts_same accounts_refl)
  note resent = this
  have 1: "accounts [] s (tick_transactions H now s)"
    unfolding tick_transactions_def by (rule accounts_trans [OF resent accounts_same]) simp_all
  have 2: "accounts [] t (fold (expire H now) ks t)" for t ks
    by (rule accounts_folds) (auto simp: expire_def accounts_refl intro: accounts_then [OF _ _ accounts_run_final] split: option.split)
  have 3: "accounts [] t (tick_call H now t)" for t
    by (auto simp: tick_call_def Let_def current_iff accounts_refl accounts_same intro!: accounts_end split: option.split)
  have 4: "accounts [] t (tick_registration H now t)" for t
    by (simp add: tick_registration_def accounts_same split: option.split)
  show ?thesis
    unfolding on_timer_def Let_def by (rule accounts_trans [OF accounts_trans [OF accounts_trans [OF 1 2] 3] 4])
qed

lemma accounts_answer: "accounts [] s (snd (answer H i now s))"
proof -
  have key: "current s2 = current s1 \<and> u_events s2 = u_events s1 \<and> c_id c2 = c_id c1"
    if "new_srtp_key H c1 s1 = (b, c2, s2)" for b c1 c2 s1 s2
    using that by (auto simp: new_srtp_key_def split: if_splits prod.splits option.splits)
  have 1: "accounts [] s (fail_answer H c t)" if "current s = [c_id c]" "u_events t = u_events s" for c t
    unfolding fail_answer_def using that by (intro accounts_end) simp_all
  have 2: "accounts [] s (finish_answer H c now t)" if "current s = [c_id c]" "u_events t = u_events s" for c t
    using that by (simp add: finish_answer_def local_sdp_for_def Let_def accounts_same)
  show ?thesis
    using key by (auto simp: answer_def effect_eqs Let_def accounts_refl current_iff
        intro!: 1 2 split: option.split prod.split bool.split) (metis+)?
qed

lemma accounts_hangup: "accounts [] s (snd (hangup H i now s))"
  by (auto simp: hangup_def hangup_calling_def Let_def accounts_refl accounts_same current_iff
      intro!: accounts_end split: option.split call_state.split)

lemma accounts_reject: "accounts [] s (snd (reject H i st s))"
  by (auto simp: reject_def accounts_refl intro!: accounts_end split: option.split)

lemma accounts_stop: "accounts [] s (stop_registration H now s)"
  by (simp add: stop_registration_def Let_def accounts_same)

lemma accounts_shutdown: "accounts [] s (shutdown H now s)"
proof -
  let ?s = "s\<lparr>u_shutting_down := True\<rparr>"
  have "accounts [] s (case u_call ?s of None \<Rightarrow> ?s | Some c \<Rightarrow> snd (hangup H (c_id c) now ?s))"
    by (auto simp: accounts_same intro: accounts_then [OF _ _ accounts_hangup] split: option.split)
  then show ?thesis unfolding shutdown_def Let_def by (rule accounts_trans) (rule accounts_stop)
qed

lemma accounts_down: "accounts [] s (on_transport_down H now s)"
proof -
  let ?s = "s\<lparr>u_transactions := []\<rparr>"
  have "accounts [] ?s (fold (\<lambda>(k, t). run_final H (t_on_final t) None now) ts ?s)" for ts :: "(string, transaction) omap"
    by (rule accounts_folds) (auto simp: accounts_run_final)
  then have "accounts [] s (fold (\<lambda>(k, t). run_final H (t_on_final t) None now) ts ?s)" for ts :: "(string, transaction) omap"
    by (rule accounts_then [rotated 2]) simp_all
  note finals = this
  have "accounts [] s (set_registration r (fold (\<lambda>(k, t). run_final H (t_on_final t) None now) ts ?s))" for r and ts :: "(string, transaction) omap"
    by (rule accounts_trans [OF finals accounts_same]) simp_all
  then show ?thesis
    unfolding on_transport_down_def Let_def using finals by (simp add: accounts_emit new_event_def)
qed

lemma accounts_make_call:
  "accounts (if fst (make_call H i target now s) = Ok then [i] else []) s (snd (make_call H i target now s))"
proof (cases "target = [] \<or> find_first_of forbidden_in_target target \<noteq> None \<or> u_call s \<noteq> None \<or> u_shutting_down s")
  case True
  then show ?thesis by (auto simp: make_call_def accounts_refl)
next
  case False
  obtain p c s1 where start: "start_call H i target s = (p, c, s1)" by (cases "start_call H i target s")
  then have c: "c_id c = i" "u_events s1 = u_events s"
    by (auto simp: start_call_def effect_eqs outgoing_call_def Let_def)
  obtain b c2 s2 where key: "new_srtp_key H c s1 = (b, c2, s2)" by (cases "new_srtp_key H c s1")
  then have c2: "c_id c2 = i" "u_events s2 = u_events s"
    using c by (auto simp: new_srtp_key_def split: if_splits prod.splits option.splits)
  have set: "accounts [i] s (set_call d t)" if "c_id d = i" "u_events t = u_events s" for d t
    using that False by (simp add: accounts_def current_def)
  have ended: "accounts [i] s (end_call H MediaFailed 0 (set_call d t))" if "c_id d = i" "u_events t = u_events s" for d t
    using set [OF that] accounts_end_call by (rule accounts_trans)
  have sent: "accounts [i] s (send_invite H [] now (set_call d t))" if "c_id d = i" "u_events t = u_events s" for d t
    using set [OF that] by (rule accounts_trans) (simp add: accounts_same)
  show ?thesis
    using False start key c c2 ended sent by (cases b) (auto simp: make_call_def local_sdp_for_def Let_def)
qed

text \<open>
  A run with what it made and emitted: the ids of the calls made by a command and of those that came
  in, and all events, also those collected on the way.
\<close>

definition made_by :: "'h ua_host \<Rightarrow> time \<times> ua_operation \<Rightarrow> 'h user_agent \<Rightarrow> int list" where
  "made_by H x s = (case x of
     (now, MakeCall i t) \<Rightarrow> if fst (make_call H i t now s) = Ok then [i] else []
   | _ \<Rightarrow> [])"

fun ua_trace ::
  "'h ua_host \<Rightarrow> (time \<times> ua_operation) list \<Rightarrow> 'h user_agent \<Rightarrow> int list \<times> event list \<times> 'h user_agent" where
  "ua_trace H [] s = ([], [], s)"
| "ua_trace H (x # xs) s =
     (let s' = ua_step H x s;
          new = (if snd x = TakeEvents then [] else drop (length (u_events s)) (u_events s'));
          (made, es, s'') = ua_trace H xs s'
      in (made_by H x s @ ids_of CallIncoming new @ made, new @ es, s''))"

lemma accounts_step:
  assumes "op' \<noteq> TakeEvents"
  shows "accounts (made_by H (now, op') s) s (ua_step H (now, op') s)"
proof (cases op')
  case (OnMessage d)
  then show ?thesis
    by (simp add: made_by_def on_message_def accounts_refl accounts_on_response accounts_on_request split: option.split)
next
  case (MakeCall i t)
  then show ?thesis using accounts_make_call [of H i t now s] by (simp add: made_by_def)
qed (use assms in \<open>simp_all add: made_by_def accounts_timer accounts_stop accounts_answer accounts_reject accounts_hangup
    accounts_shutdown accounts_down start_registration_def on_transport_up_def accounts_same Let_def\<close>)

lemma trace_accounts:
  "ua_trace H xs s = (made, es, s') \<Longrightarrow> current s @ made = ids_of CallEnded es @ current s'"
proof (induction xs arbitrary: s made es)
  case (Cons x xs)
  obtain now op' where x: "x = (now, op')" by (cases x)
  let ?s = "ua_step H x s"
  obtain made1 es1 where rest: "ua_trace H xs ?s = (made1, es1, s')"
    using Cons.prems by (auto simp: Let_def split: prod.splits)
  note IH = Cons.IH [OF rest]
  show ?case
  proof (cases "op' = TakeEvents")
    case True
    then have "current ?s = current s" by (simp add: x take_events_def)
    then show ?thesis using Cons.prems rest IH True by (simp add: x made_by_def)
  next
    case False
    then obtain new where new: "u_events ?s = u_events s @ new"
      and cur: "current s @ made_by H x s @ ids_of CallIncoming new = ids_of CallEnded new @ current ?s"
      using accounts_step [of op' H now s] by (auto simp: accounts_def x)
    have "made = made_by H x s @ ids_of CallIncoming new @ made1" "es = new @ es1"
      using Cons.prems rest new False by (simp_all add: x Let_def)
    then show ?thesis using IH cur by simp (metis append_assoc)
  qed
qed simp

text \<open>
  C5: in every run, on any host, every call that a command made or that came in is reported ended
  exactly once, in the order in which they began, except the one that is still there.
\<close>

theorem calls_end_once_in_order:
  "case ua_trace H ops (new_user_agent cfg h g) of
     (made, es, s) \<Rightarrow> made = ids_of CallEnded es @ current s"
proof -
  have "current (new_user_agent cfg h g) = []" by (simp add: current_def new_user_agent_def Let_def case_prod_beta)
  then show ?thesis using trace_accounts [of H ops "new_user_agent cfg h g"] by (auto split: prod.split)
qed

end
