(* ===== verification/User_Agent_Liveness.thy ===== *)
theory User_Agent_Liveness
  imports User_Agent_Runs
begin

text \<open>
  What the user agent gets done: a shutdown is final and everything it waits for comes to an end,
  and a call of the timer leaves nothing overdue, so that the loop that sleeps until
  \<^verbatim>\<open>next_deadline()\<close> does not spin. The exception, a refresh that is due while another REGISTER is
  in flight, is part of the statement. The last section runs the one sequence of commands that
  loses a registration.
\<close>

section \<open>A final handler without a response\<close>

lemma final_timeout [simp]:
  "u_transactions (run_final H f None now s) = u_transactions s"
  "u_shutting_down (run_final H f None now s) = u_shutting_down s"
  "r_wanted (u_registration (run_final H f None now s)) = r_wanted (u_registration s)"
  by (simp_all add: run_final_def on_register_final_def on_invite_final_def settle_register_def finish_register_def
      success_def Let_def split: final_handler.split)

lemma expire_transactions: "u_transactions (expire H now k s) = om_erase k (u_transactions s)"
proof (cases "om_find (u_transactions s) k")
  case None
  then have "\<forall>e \<in> set (u_transactions s). fst e \<noteq> k" by (auto simp: map_of_eq_None_iff)
  then show ?thesis using None by (simp add: expire_def om_erase_def)
qed (simp add: expire_def)

lemma fold_expire_transactions:
  "u_transactions (fold (expire H now) ks s) = filter (\<lambda>e. fst e \<notin> set ks) (u_transactions s)"
  by (induction ks arbitrary: s) (simp_all add: expire_transactions om_erase_def conj_commute)

lemma tick_transactions_list:
  "u_transactions (tick_transactions H now s) = map (\<lambda>(k, t). (k, tick_transaction now t)) (u_transactions s)"
  by (simp add: tick_transactions_def)

section \<open>After a shutdown\<close>

definition quiet :: "'h user_agent \<Rightarrow> bool" where
  "quiet s \<longleftrightarrow> u_shutting_down s \<and> u_call s = None \<and> \<not> r_wanted (u_registration s) \<and> \<not> r_registered (u_registration s)"

lemma quiet_updates [simp]:
  "quiet (send_raw H m s) = quiet s" "quiet (emit e s) = quiet s" "quiet (respond H rq st t b s) = quiet s"
  "quiet (send_request H rq' now f p b s) = quiet s" "quiet (send_register H ex a now s) = quiet s"
  "quiet (s\<lparr>u_random := g\<rparr>) = quiet s" "quiet (s\<lparr>u_host := h\<rparr>) = quiet s" "quiet (s\<lparr>u_transactions := ts\<rparr>) = quiet s"
  "quiet (s\<lparr>u_events := es\<rparr>) = quiet s"
  by (simp_all add: quiet_def)

lemma quiet_in_flight: "quiet s \<Longrightarrow> quiet (set_registration ((u_registration s)\<lparr>r_in_flight := b\<rparr>) s)"
  by (simp add: quiet_def)

lemma quiet_no_call: "quiet s \<Longrightarrow> u_call s = None"
  by (simp add: quiet_def)

lemma quiet_settle: "quiet s \<Longrightarrow> quiet (settle_register H m st e now s)"
  by (auto simp: settle_register_def) (simp add: quiet_def)

lemma quiet_register:
  assumes "quiet s"
  shows "quiet (on_register_final H m e a now s)"
proof -
  let ?s = "set_registration ((u_registration s)\<lparr>r_in_flight := False\<rparr>) s"
  have q: "quiet ?s" using assms by (rule quiet_in_flight)
  show ?thesis
  proof (cases m)
    case (Some r)
    obtain v s2 where v: "authorization_for r ''REGISTER'' (server_uri (u_config s)) ?s = (v, s2)"
      by (cases "authorization_for r ''REGISTER'' (server_uri (u_config s)) ?s")
    moreover have "quiet s2"
      using authorization_for_state [of r "''REGISTER''" "server_uri (u_config s)" ?s] v q by auto
    ultimately show ?thesis
      using Some q by (cases v) (simp_all add: on_register_final_def Let_def quiet_settle)
  qed (use q in \<open>simp add: on_register_final_def Let_def quiet_settle\<close>)
qed

lemma quiet_final: "quiet s \<Longrightarrow> quiet (run_final H f m now s)"
proof -
  assume q: "quiet s"
  then have none: "u_call s = None" "\<not> ours ctx s" for ctx by (auto simp: quiet_def ours_def)
  have "quiet (on_invite_final H ctx m now s)" for ctx
    using q none
    by (auto simp: on_invite_final_def on_invite_success_def send_ack_for_failure_def effect_eqs Let_def split: option.split)
  then show ?thesis using q by (simp add: run_final_def quiet_register split: final_handler.split)
qed

lemma quiet_on_message: "quiet s \<Longrightarrow> quiet (on_message H d now s)"
proof -
  assume q: "quiet s"
  note none = quiet_no_call [OF q]
  have down: "u_shutting_down s" using q by (simp add: quiet_def)
  have "quiet (on_response H m now s)" for m
    using q none
    by (auto simp: on_response_def resend_ack_def run_provisional_def on_invite_provisional_def Let_def quiet_final
        split: option.split provisional_handler.split)
  moreover have "quiet (on_request H rq s)" for rq
    using q none down
    by (auto simp: on_request_def on_ack_def on_invite_request_def on_new_invite_def on_bye_def on_cancel_def same_call_def
        effect_eqs Let_def split: option.split)
  ultimately show ?thesis using q by (simp add: on_message_def split: option.split)
qed

lemma quiet_fold: "(\<And>x t. quiet t \<Longrightarrow> quiet (f x t)) \<Longrightarrow> quiet s \<Longrightarrow> quiet (fold f xs s)"
  by (induction xs arbitrary: s) auto

lemma quiet_on_timer:
  assumes q: "quiet s"
  shows "quiet (on_timer H now s)"
proof -
  have "quiet (tick_transactions H now s)"
    unfolding tick_transactions_def by (simp, rule quiet_fold) (auto simp: q)
  then have q2: "quiet (fold (expire H now) (expired now s) (tick_transactions H now s))"
    by (rule quiet_fold [rotated]) (simp add: expire_def quiet_final split: option.split)
  then have "tick_registration H now (fold (expire H now) (expired now s) (tick_transactions H now s)) =
      fold (expire H now) (expired now s) (tick_transactions H now s)"
    by (simp add: tick_registration_def quiet_def split: option.split)
  with q2 quiet_no_call [OF q2] show ?thesis by (simp add: on_timer_def tick_call_def Let_def)
qed

lemma quiet_ua_step:
  assumes q: "quiet s"
  shows "quiet (ua_step H (now, op') s)"
proof -
  note none = quiet_no_call [OF q]
  have flags: "u_shutting_down s" "\<not> r_wanted (u_registration s)" "\<not> r_registered (u_registration s)"
    using q by (simp_all add: quiet_def)
  have stop: "quiet (stop_registration H now t)" if "quiet t" for t
    using that by (simp add: stop_registration_def quiet_def Let_def)
  have down: "quiet (fold (\<lambda>(k, t). run_final H (t_on_final t) None now) ts s)"
    if "quiet s" for s :: "'a user_agent" and ts :: "(string, transaction) omap"
    using that by (rule quiet_fold [rotated]) (auto simp: quiet_final)
  have "\<not> r_registered (u_registration t)" if "quiet t" for t :: "'a user_agent" using that by (simp add: quiet_def)
  then have lost: "quiet (on_transport_down H now s)"
    using down [of "s\<lparr>u_transactions := []\<rparr>" "u_transactions s"] q by (simp add: on_transport_down_def Let_def)
  have again: "quiet (stop_registration H now (s\<lparr>u_shutting_down := True\<rparr>))"
    by (rule stop) (use q in \<open>simp add: quiet_def\<close>)
  show ?thesis
    using q none flags stop [OF q] lost again
    by (cases op')
      (simp_all add: quiet_on_message quiet_on_timer take_events_def start_registration_def make_call_def answer_def
        reject_def hangup_def shutdown_def on_transport_up_def Let_def)
qed

lemma quiet_ua_run: "quiet s \<Longrightarrow> quiet (ua_run H ops s)"
  unfolding ua_run_def by (rule quiet_fold) (auto simp: quiet_ua_step)

lemma hangup_ends:
  "u_shutting_down s \<Longrightarrow> u_call s = Some c \<Longrightarrow>
     u_call (snd (hangup H (c_id c) now s)) = None \<and> u_shutting_down (snd (hangup H (c_id c) now s))"
  by (cases "c_state c"; simp add: hangup_def hangup_calling_def Let_def)

lemma quiet_stop: "u_call s = None \<Longrightarrow> u_shutting_down s \<Longrightarrow> quiet (stop_registration H now s)"
  by (simp add: quiet_def stop_registration_def Let_def)

lemma quiet_shutdown: "quiet (shutdown H now s)"
proof (cases "u_call s")
  case None
  then show ?thesis by (simp add: shutdown_def quiet_stop)
next
  case (Some c)
  then show ?thesis using hangup_ends [of "s\<lparr>u_shutting_down := True\<rparr>" c] by (simp add: shutdown_def quiet_stop)
qed

definition last_deadline :: "'h user_agent \<Rightarrow> time \<Rightarrow> time" where
  "last_deadline s now = fold max (map (\<lambda>(k, t). t_deadline t) (u_transactions s)) now"

lemma fold_max_ge: "x \<in> set xs \<or> x \<le> a \<Longrightarrow> x \<le> fold max xs (a :: int)"
proof (induction xs arbitrary: a)
  case (Cons y xs)
  have "x \<in> set xs \<or> x \<le> max y a" using Cons.prems by auto
  then show ?case using Cons.IH [of "max y a"] by simp
qed simp

lemma quiet_idle: "quiet s \<Longrightarrow> idle (on_timer H (last_deadline s now) s)"
proof -
  assume q: "quiet s"
  let ?T = "last_deadline s now"
  have "t_deadline t \<le> ?T" if "(k, t) \<in> set (u_transactions s)" for k t
  proof -
    have "t_deadline t \<in> set (map (\<lambda>(k, t). t_deadline t) (u_transactions s))" using that by force
    then show ?thesis unfolding last_deadline_def by (intro fold_max_ge disjI1)
  qed
  then have "filter (\<lambda>(k, t). t_deadline t \<le> ?T) (u_transactions s) = u_transactions s"
    by (intro filter_True) auto
  then have all: "set (expired ?T s) = fst ` set (u_transactions s)"
    by (simp add: expired_def)
  let ?s = "fold (expire H ?T) (expired ?T s) (tick_transactions H ?T s)"
  have empty: "u_transactions ?s = []"
    unfolding fold_expire_transactions tick_transactions_list all by (force simp: filter_empty_conv)
  have q1: "quiet (tick_transactions H ?T s)"
    unfolding tick_transactions_def by (simp, rule quiet_fold) (auto simp: q)
  have "quiet ?s"
    using q1 by (rule quiet_fold [rotated]) (simp add: expire_def quiet_final split: option.split)
  then show ?thesis
    using empty by (simp add: on_timer_def tick_call_def tick_registration_def quiet_def idle_def Let_def split: option.split)
qed

text \<open>
  C13: a shutdown is final and comes to an end. Whatever happens after it, there is no call, no
  registration and no wish for one; and at any later point, once the last deadline of the requests in
  flight has come without an answer, the timer leaves the user agent idle.
\<close>

theorem shutdown_is_final:
  "let s' = ua_run H ops (shutdown H now s)
   in u_call s' = None \<and> \<not> registered s' \<and> \<not> r_wanted (u_registration s') \<and>
      idle (on_timer H (last_deadline s' later) s')"
  using quiet_ua_run [OF quiet_shutdown, of H ops H now s] quiet_idle
  by (auto simp: quiet_def registered_def Let_def)

section \<open>The timer\<close>

definition fresh :: "time \<Rightarrow> transaction \<Rightarrow> bool" where
  "fresh now t \<longleftrightarrow> now < t_deadline t \<and> (t_retransmitting t \<longrightarrow> now < t_retransmit_at t)"

definition all_fresh :: "time \<Rightarrow> 'h user_agent \<Rightarrow> bool" where
  "all_fresh now s \<longleftrightarrow> (\<forall>(k, t) \<in> set (u_transactions s). fresh now t)"

lemma tick_fresh: "0 < t_interval t \<Longrightarrow> now < t_deadline t \<Longrightarrow> fresh now (tick_transaction now t)"
  by (auto simp: fresh_def tick_transaction_def retransmission_due_def next_interval_def)

lemma expired_fresh:
  assumes "transactions_ok (u_transactions s)"
  shows "all_fresh now (fold (expire H now) (expired now s) (tick_transactions H now s))"
proof -
  have "fresh now (tick_transaction now t)" if t: "(k, t) \<in> set (u_transactions s)" "k \<notin> set (expired now s)" for k t
  proof (rule tick_fresh)
    show "0 < t_interval t" using assms t by (auto simp: transactions_ok_def)
    show "now < t_deadline t" using t by (force simp: expired_def)
  qed
  then show ?thesis
    by (auto simp: all_fresh_def fold_expire_transactions tick_transactions_list)
qed

lemma all_fresh_simps [simp]:
  "all_fresh now (send_raw H m s) = all_fresh now s" "all_fresh now (end_call H r st s) = all_fresh now s"
  "all_fresh now (set_call c s) = all_fresh now s" "all_fresh now (set_registration rg s) = all_fresh now s"
  by (simp_all add: all_fresh_def)

lemma all_fresh_request: "all_fresh now s \<Longrightarrow> all_fresh now (send_request H rq now f p b s)"
proof -
  assume "all_fresh now s"
  moreover obtain branch where "u_transactions (send_request H rq now f p b s) =
      om_assign (transaction_key branch (rq_method rq)) (new_transaction (u_config s) rq branch now f p) (u_transactions s)"
    using send_request_transactions by blast
  ultimately show ?thesis
    using set_om_assign [of "transaction_key branch (rq_method rq)"]
    by (fastforce simp: all_fresh_def fresh_def new_transaction_def)
qed

lemma all_fresh_bye: "all_fresh now s \<Longrightarrow> all_fresh now (send_bye H now s)"
  by (simp add: send_bye_def all_fresh_request split: option.split)

lemma all_fresh_register: "all_fresh now s \<Longrightarrow> all_fresh now (send_register H e a now s)"
  by (simp add: send_register_def Let_def all_fresh_request)

text \<open>The call and the registration have nothing overdue either.\<close>

definition call_times :: "'h user_agent \<Rightarrow> time list" where
  "call_times s = (case u_call s of
     None \<Rightarrow> []
   | Some c \<Rightarrow> if c_state c = Answering then [c_resend_at c, c_ack_deadline c] else [])"

lemma tick_call_times:
  assumes "call_fine s"
  shows "list_all (\<lambda>at. now < at) (call_times (tick_call H now s))"
proof (cases "u_call s")
  case None
  then show ?thesis by (simp add: tick_call_def call_times_def)
next
  case (Some c)
  then have "c_state c = Answering \<Longrightarrow> 0 < c_resend_interval c" using assms by (simp add: call_fine_def call_ok_def)
  then show ?thesis using Some by (auto simp: tick_call_def call_times_def Let_def)
qed

lemma tick_registration_call: "u_call (tick_registration H now s) = u_call s"
  by (simp add: tick_registration_def split: option.split)

lemma next_deadline_min:
  "next_deadline s = (if deadlines s = [] then None else Some (Min (set (deadlines s))))"
proof -
  have "fold (\<lambda>at next. case next of None \<Rightarrow> Some at | Some n \<Rightarrow> Some (if at < n then at else n)) xs (Some m) =
      Some (Min (insert m (set xs)))" for xs and m :: time
  proof (induction xs arbitrary: m)
    case (Cons x xs)
    have "(if x < m then x else m) = min x m" by (simp add: min_def)
    moreover have "Min (insert (min x m) (set xs)) = Min (insert m (insert x (set xs)))"
      by (cases "xs = []") (simp_all add: ac_simps)
    ultimately show ?case using Cons by simp
  qed simp
  then show ?thesis by (cases "deadlines s") (simp_all add: next_deadline_def)
qed

lemma deadlines_split:
  "set (deadlines s) \<subseteq> {at. (\<exists>(k, t) \<in> set (u_transactions s). at = t_deadline t \<or> t_retransmitting t \<and> at = t_retransmit_at t)} \<union>
     set (call_times s) \<union>
     {at. r_wanted (u_registration s) \<and> r_next_attempt (u_registration s) = Some at}"
  by (auto simp: deadlines_def call_times_def split: option.splits if_splits)

lemma timer_deadlines:
  assumes inv: "ua_inv (bracketed sec) media_up sec s" and at: "at \<in> set (deadlines (on_timer (recording_host A) now s))"
  shows "now < at \<or> r_in_flight (u_registration (on_timer (recording_host A) now s)) \<and>
    r_next_attempt (u_registration (on_timer (recording_host A) now s)) = Some at"
proof -
  let ?H = "recording_host A"
  let ?s1 = "fold (expire ?H now) (expired now s) (tick_transactions ?H now s)"
  let ?s2 = "tick_call ?H now ?s1" and ?s3 = "on_timer ?H now s"
  have s3: "?s3 = tick_registration ?H now ?s2" by (simp add: on_timer_def Let_def)
  have "ua_inv (bracketed sec) media_up sec ?s1" using inv by (intro recorded.inv_expires recorded.inv_tick_transactions)
  then have fine: "call_fine ?s1" by (simp add: ua_inv_def)
  have "all_fresh now ?s1" using inv by (intro expired_fresh) (simp add: ua_inv_def ua_base_def ua_pre_def)
  then have "all_fresh now ?s2"
    by (auto simp: tick_call_def Let_def all_fresh_bye split: option.split)
  then have f3: "all_fresh now ?s3"
    unfolding s3 by (simp add: tick_registration_def all_fresh_register split: option.split)
  have c3: "list_all (\<lambda>at. now < at) (call_times ?s3)"
    using tick_call_times [OF fine] unfolding s3 by (simp add: call_times_def tick_registration_call)
  have r3: "now < at \<or> r_in_flight (u_registration ?s3)"
    if "r_wanted (u_registration ?s3)" "r_next_attempt (u_registration ?s3) = Some at"
    using that unfolding s3 by (auto simp: tick_registration_def split: option.splits if_splits)
  show ?thesis
    using at deadlines_split [of ?s3] f3 c3 r3 by (fastforce simp: all_fresh_def fresh_def list_all_iff)
qed

text \<open>
  C34: after a call of the timer, in any state a run can reach, \<^verbatim>\<open>next_deadline()\<close> lies after the
  time the timer was called with, so that a loop sleeping until then makes progress. The one
  exception is the refresh of a registration that came due while another REGISTER is in flight.
\<close>

theorem timer_leaves_nothing_overdue:
  "let s = on_timer (recording_host A) now (ua_run (recording_host A) ops (new_user_agent cfg [] g))
   in case next_deadline s of
        None \<Rightarrow> deadlines s = []
      | Some at \<Rightarrow> at \<in> set (deadlines s) \<and> list_all (\<lambda>d. at \<le> d) (deadlines s) \<and>
          (now < at \<or> r_in_flight (u_registration s) \<and> r_next_attempt (u_registration s) = Some at)"
proof -
  define s where "s = on_timer (recording_host A) now (ua_run (recording_host A) ops (new_user_agent cfg [] g))"
  have "now < at \<or> r_in_flight (u_registration s) \<and> r_next_attempt (u_registration s) = Some at"
    if "at \<in> set (deadlines s)" for at
    using timer_deadlines [OF recorded_inv] that unfolding s_def by blast
  note due = this
  show ?thesis
  proof (cases "deadlines s = []")
    case True
    then show ?thesis unfolding s_def [symmetric] by (simp add: next_deadline_min)
  next
    case False
    define m where "m = Min (set (deadlines s))"
    have "next_deadline s = Some m" using False by (simp add: next_deadline_min m_def)
    moreover have "m \<in> set (deadlines s)" unfolding m_def using False by (intro Min_in) auto
    moreover have "list_all (\<lambda>d. m \<le> d) (deadlines s)" by (simp add: list_all_iff m_def)
    ultimately show ?thesis unfolding s_def [symmetric] using due [of m] by simp
  qed
qed

section \<open>A lost registration\<close>

text \<open>
  A registration asked for while an unregister is in flight is not carried out when the unregister
  is answered: it stays wanted, nothing is in flight and nothing is due.
\<close>

definition demo_config :: ua_config where
  "demo_config = \<lparr>domain = ''h'', extension = ''1'', ua_password = ''p'', local_address = ''192.0.2.1'',
     local_port = 5060, transport = ''UDP'', srtp = False, register_expires = 300, user_agent_name = ''k'',
     correlation_header = []\<rparr>"

definition demo_host :: "host_call list ua_host" where
  "demo_host = recording_host \<lparr>port_answer = (\<lambda>_. 4000), start_answer = (\<lambda>_ _. True), id_answer = (\<lambda>_. 1),
     entropy_answer = (\<lambda>_. None)\<rparr>"

definition register_ok :: string where
  "register_ok = join_lines [''SIP/2.0 200 OK'', ''Via: SIP/2.0/UDP h;branch=z9hG4bK00000000000000000000'',
     ''CSeq: 1 REGISTER''] @ CRLF"

definition lost_run :: "host_call list user_agent" where
  "lost_run = ua_run demo_host
     [(0, StartRegistration), (1, OnMessage register_ok), (2, StopRegistration), (3, StartRegistration),
      (4, OnMessage register_ok)] (new_user_agent demo_config [] (\<lambda>_. 0))"

lemma registration_is_lost:
  "r_wanted (u_registration lost_run) \<and> \<not> registered lost_run \<and> \<not> r_in_flight (u_registration lost_run) \<and>
   idle lost_run \<and> next_deadline lost_run = None"
  by code_simp

end
