(* ===== verification/User_Agent_Dialogs.thy ===== *)
theory User_Agent_Dialogs
  imports User_Agent_Runs
begin

text \<open>
  What the far end gets to see: the offer and the answer of two user agents agree on addresses,
  ports and keys; every request is answered, by a response that mirrors it; every final response to
  an INVITE is acknowledged.
\<close>

section \<open>Offer and answer\<close>

definition sdp_ready :: "ua_config \<Rightarrow> call \<Rightarrow> bool" where
  "sdp_ready cfg c \<longleftrightarrow> address_ok (local_address cfg) \<and> c_media_port c \<noteq> 0 \<and> length (c_srtp_key c) = kSdesKeyLength"

lemma local_sdp_parsed:
  assumes "sdp_ready cfg c" and "keying_ok (local_crypto_for cfg c answering)"
  shows "parse_audio (fst (local_sdp_for cfg c answering)) =
    Some \<lparr>address = local_address cfg, port = unat (c_media_port c), payload_types = [8, 101], remote_sends = True,
      savp = (case local_crypto_for cfg c answering of None \<Rightarrow> False | Some k \<Rightarrow> lc_savp k),
      crypto = (case local_crypto_for cfg c answering of None \<Rightarrow> [] | Some k \<Rightarrow> [\<lparr>tag = lc_tag k, key = lc_key k\<rparr>])\<rparr>"
proof -
  have "0 < unat (c_media_port c)" using assms(1) by (simp add: sdp_ready_def unat_gt_0)
  moreover have "unat (c_media_port c) < 2 ^ 16" using unat_less [of "c_media_port c"] by simp
  ultimately show ?thesis
    using assms by (simp add: local_sdp_for_def parse_audio_built sdp_ready_def)
qed

text \<open>
  C11: when a user agent answers the offer of another one, with SRTP on both sides or on neither,
  each accepts what the other wrote, and each starts its media towards the address and port of
  the other, with its own key and the key of the other.
\<close>

theorem offer_and_answer_agree:
  assumes "sdp_ready cfgA a" and "sdp_ready cfgB b" and "srtp cfgA = srtp cfgB"
  shows "\<exists>offer kA reply kB.
    parse_audio (fst (local_sdp_for cfgA a None)) = Some offer \<and> acceptable cfgB offer = (True, kA) \<and>
    usable_answer cfgA (fst (local_sdp_for cfgB b (Some offer))) = Some (reply, kB) \<and>
    remote_media_for cfgB b offer kA =
      \<lparr>rm_address = local_address cfgA, rm_port = unat (c_media_port a),
       rm_srtp = (if srtp cfgA then Some \<lparr>mk_local = c_srtp_key b, mk_remote = c_srtp_key a\<rparr> else None)\<rparr> \<and>
    remote_media_for cfgA a reply kB =
      \<lparr>rm_address = local_address cfgB, rm_port = unat (c_media_port b),
       rm_srtp = (if srtp cfgA then Some \<lparr>mk_local = c_srtp_key a, mk_remote = c_srtp_key b\<rparr> else None)\<rparr>"
proof -
  define offer where "offer = \<lparr>address = local_address cfgA, port = unat (c_media_port a), payload_types = [8, 101],
    remote_sends = True, savp = srtp cfgA,
    crypto = (if srtp cfgA then [\<lparr>tag = 1, key = c_srtp_key a\<rparr>] else [])\<rparr>"
  define reply where "reply = \<lparr>address = local_address cfgB, port = unat (c_media_port b), payload_types = [8, 101],
    remote_sends = True, savp = srtp cfgA,
    crypto = (if srtp cfgA then [\<lparr>tag = 1, key = c_srtp_key b\<rparr>] else [])\<rparr>"
  have offered: "parse_audio (fst (local_sdp_for cfgA a None)) = Some offer"
    using assms(1) by (subst local_sdp_parsed) (auto simp: local_crypto_for_def keying_ok_def sdp_ready_def offer_def)
  have pcma: "offers_pcma offer" "offers_pcma reply" by (simp_all add: offers_pcma_def offer_def reply_def)
  have acc: "acceptable cfgB offer = (True, if srtp cfgA then Some \<lparr>tag = 1, key = c_srtp_key a\<rparr> else None)"
    using pcma assms(3) by (simp add: acceptable_def offer_def)
  have "local_crypto_for cfgB b (Some offer) =
      (if srtp cfgA then Some \<lparr>lc_savp = True, lc_tag = 1, lc_key = c_srtp_key b\<rparr> else None)"
    using acc assms(3) by (simp add: local_crypto_for_def) (simp add: offer_def)
  then have answered: "parse_audio (fst (local_sdp_for cfgB b (Some offer))) = Some reply"
    using assms(2) by (subst local_sdp_parsed) (auto simp: keying_ok_def sdp_ready_def reply_def)
  have "usable_answer cfgA (fst (local_sdp_for cfgB b (Some offer))) =
      Some (reply, if srtp cfgA then Some \<lparr>tag = 1, key = c_srtp_key b\<rparr> else None)"
    using answered pcma by (simp add: usable_answer_def acceptable_def) (simp add: reply_def)
  then show ?thesis
    using offered acc assms(3)
    by (intro exI [of _ offer] exI [of _ reply] exI conjI) (auto simp: remote_media_for_def offer_def reply_def)
qed

definition demo_ua_config :: "string \<Rightarrow> ua_config" where
  "demo_ua_config addr = \<lparr>domain = ''h'', extension = ''1'', ua_password = ''p'', local_address = addr, local_port = 0,
     transport = ''TLS'', srtp = True, register_expires = 300, user_agent_name = ''k'', correlation_header = []\<rparr>"

theorem offer_and_answer_agree_witness:
  "\<exists>offer kA. parse_audio (fst (local_sdp_for (demo_ua_config ''192.0.2.1'')
      (new_call\<lparr>c_media_port := 4000, c_srtp_key := replicate 30 1\<rparr>) None)) = Some offer \<and>
    remote_media_for (demo_ua_config ''fd00::2'') (new_call\<lparr>c_media_port := 5000, c_srtp_key := replicate 30 2\<rparr>) offer kA =
      \<lparr>rm_address = ''192.0.2.1'', rm_port = 4000,
       rm_srtp = Some \<lparr>mk_local = replicate 30 2, mk_remote = replicate 30 1\<rparr>\<rparr>"
proof -
  have "sdp_ready (demo_ua_config ''192.0.2.1'') (new_call\<lparr>c_media_port := 4000, c_srtp_key := replicate 30 1\<rparr>)"
    "sdp_ready (demo_ua_config ''fd00::2'') (new_call\<lparr>c_media_port := 5000, c_srtp_key := replicate 30 2\<rparr>)"
    by (simp_all add: sdp_ready_def demo_ua_config_def address_ok_def)
  from offer_and_answer_agree [OF this] show ?thesis by (auto simp: demo_ua_config_def)
qed

section \<open>Responses\<close>

text \<open>Header values that go onto one line, as they came off one.\<close>

definition line_value :: "string \<Rightarrow> bool" where
  "line_value v \<longleftrightarrow> plain_line v \<and> trimmed v"

definition mirrorable :: "message \<Rightarrow> bool" where
  "mirrorable rq \<longleftrightarrow> list_all line_value (header_all rq ''via'') \<and> line_value (header_or_empty rq ''from'') \<and>
     line_value (header_or_empty rq ''to'') \<and> line_value (header_or_empty rq ''call-id'') \<and>
     line_value (header_or_empty rq ''cseq'')"

definition plain_config :: "ua_config \<Rightarrow> bool" where
  "plain_config cfg \<longleftrightarrow> line_value (user_agent_name cfg) \<and> plain_line (contact cfg)"

lemma add_all_headers [simp]:
  "b_headers (add_all hs b) = b_headers b @ hs" "start_line (add_all hs b) = start_line b"
  "b_body (add_all hs b) = b_body b" "content_type (add_all hs b) = content_type b"
  by (induction hs arbitrary: b; simp add: add_all_def add_def case_prod_beta)+

lemma add_fields [simp]:
  "b_headers (add n v b) = b_headers b @ [(n, v)]" "start_line (add n v b) = start_line b"
  "b_body (add n v b) = b_body b" "content_type (add n v b) = content_type b"
  "b_headers (add_if c n v b) = b_headers b @ (if c then [(n, v)] else [])" "start_line (add_if c n v b) = start_line b"
  "b_body (add_if c n v b) = b_body b" "content_type (add_if c n v b) = content_type b"
  "b_headers (body_if t b) = b_headers b" "start_line (body_if t b) = start_line b"
  by (simp_all add: add_def add_if_def body_if_def set_body_def)

lemma body_if_fields: "b_body b = [] \<Longrightarrow> b_body (body_if t b) = t"
  "t \<noteq> [] \<Longrightarrow> content_type (body_if t b) = ''application/sdp''"
  by (simp_all add: body_if_def set_body_def)

definition response_headers :: "ua_config \<Rightarrow> message \<Rightarrow> int \<Rightarrow> string \<Rightarrow> (string \<times> string) list" where
  "response_headers cfg rq st t =
     map (\<lambda>v. (''Via'', v)) (header_all rq ''via'') @
     [(''From'', header_or_empty rq ''from''), (''To'', to_header rq st t), (''Call-ID'', header_or_empty rq ''call-id''),
      (''CSeq'', header_or_empty rq ''cseq'')] @
     (if m_method rq = ''INVITE'' \<and> st < 300 then [(''Contact'', contact cfg)] else []) @
     (if m_method rq = ''OPTIONS'' \<or> st = 501 then [(''Allow'', kAllow)] else []) @
     [(''User-Agent'', user_agent_name cfg)]"

lemma response_builder_fields:
  "b_headers (response_builder cfg rq st t body) = response_headers cfg rq st t"
  "start_line (response_builder cfg rq st t body) = ''SIP/2.0 '' @ to_string (nat st) @ '' '' @ reason_phrase st"
  "b_body (response_builder cfg rq st t body) = body"
  "body \<noteq> [] \<Longrightarrow> content_type (response_builder cfg rq st t body) = ''application/sdp''"
  by (simp_all add: response_builder_def response_headers_def Let_def new_builder_def body_if_fields)

lemma header_names:
  "full_header_name ''Via'' = ''via''" "full_header_name ''From'' = ''from''" "full_header_name ''To'' = ''to''"
  "full_header_name ''Call-ID'' = ''call-id''" "full_header_name ''CSeq'' = ''cseq''"
  "full_header_name ''Contact'' = ''contact''" "full_header_name ''Allow'' = ''allow''"
  "full_header_name ''User-Agent'' = ''user-agent''" "full_header_name ''Content-Type'' = ''content-type''"
  "full_header_name ''Content-Length'' = ''content-length''"
  by code_simp+

lemma reason_phrase_ok: "plain_line (reason_phrase st) \<and> trimmed (reason_phrase st)"
proof -
  let ?ps = "[''Trying'', ''Ringing'', ''Session Progress'', ''OK'', ''Bad Request'', ''Request Timeout'',
    ''Temporarily Unavailable'', ''Call/Transaction Does Not Exist'', ''Busy Here'', ''Request Terminated'',
    ''Not Acceptable Here'', ''Server Internal Error'', ''Not Implemented'', ''Decline'', ''Error'']"
  have "list_all (\<lambda>p. plain_line p \<and> trimmed p) ?ps" by code_simp
  moreover have "reason_phrase st \<in> set ?ps" unfolding reason_phrase_def by simp
  ultimately show ?thesis unfolding list_all_iff by blast
qed

lemma is_hex_plain: "is_hex t \<Longrightarrow> plain_line t \<and> (\<forall>c \<in> set t. \<not> is_trail c)"
  by (auto simp: is_hex_def kHex_def plain_line_def is_trail_def)

lemma contact_line: "plain_line (contact cfg) \<Longrightarrow> line_value (contact cfg)"
  by (simp add: line_value_def contact_def trimmed_def is_lead_def is_trail_def)

lemma tagged_line:
  assumes "line_value v" and "is_hex t" and "t \<noteq> []"
  shows "line_value (tagged v t)"
proof (cases "param_of v ''tag'' = None")
  case True
  have t: "plain_line t" "\<not> is_trail (last t)" using is_hex_plain [OF assms(2)] assms(3) by auto
  have "\<not> is_lead (hd (v @ '';tag='' @ t))"
    using assms(1) by (cases v) (simp_all add: line_value_def trimmed_def is_lead_def)
  moreover have "last (v @ '';tag='' @ t) = last t" using assms(3) by simp
  ultimately have "trimmed (v @ '';tag='' @ t)" using t(2) unfolding trimmed_def by simp
  then show ?thesis using True assms(1) t(1) by (simp add: tagged_def line_value_def)
qed (use assms(1) in \<open>simp add: tagged_def\<close>)

lemma valid_response_header:
  "valid_header (''Via'', v) = line_value v" "valid_header (''From'', v) = line_value v"
  "valid_header (''To'', v) = line_value v" "valid_header (''Call-ID'', v) = line_value v"
  "valid_header (''CSeq'', v) = line_value v" "valid_header (''Contact'', v) = line_value v"
  "valid_header (''Allow'', v) = line_value v" "valid_header (''User-Agent'', v) = line_value v"
  by (simp_all add: valid_header_def line_value_def is_lead_def)

lemma response_headers_valid:
  assumes "mirrorable rq" and "plain_config cfg" and "is_hex t"
  shows "list_all valid_header (response_headers cfg rq st t)"
    "list_all (\<lambda>h. full_header_name (fst h) \<noteq> ''content-length'') (response_headers cfg rq st t)"
proof -
  have "line_value (to_header rq st t)"
    using assms tagged_line by (simp add: to_header_def mirrorable_def Let_def)
  moreover have "line_value kAllow" by code_simp
  moreover have "list_all valid_header (map (\<lambda>v. (''Via'', v)) (header_all rq ''via''))"
    using assms(1) by (simp add: mirrorable_def list_all_iff valid_response_header)
  moreover have "line_value (contact cfg)" using assms(2) contact_line by (simp add: plain_config_def)
  ultimately show "list_all valid_header (response_headers cfg rq st t)"
    using assms by (simp add: response_headers_def mirrorable_def plain_config_def valid_response_header)
  have "list_all (\<lambda>h. full_header_name (fst h) \<noteq> ''content-length'') (map (\<lambda>v. (''Via'', v)) (header_all rq ''via''))"
    by (simp add: list_all_iff header_names)
  then show "list_all (\<lambda>h. full_header_name (fst h) \<noteq> ''content-length'') (response_headers cfg rq st t)"
    by (simp add: response_headers_def header_names)
qed

lemma response_builder_valid:
  assumes "mirrorable rq" and "plain_config cfg" and "is_hex t" and "length body < 2 ^ 64"
  shows "valid_builder (response_builder cfg rq st t body)"
proof -
  have "plain_line ''application/sdp'' \<and> trimmed ''application/sdp''" by code_simp
  then show ?thesis
    using response_headers_valid [OF assms(1-3)] assms(4) reason_phrase_ok [of st]
    by (simp add: valid_builder_def response_builder_fields)
qed

text \<open>The headers of the parsed response.\<close>

definition parsed_response :: "ua_config \<Rightarrow> message \<Rightarrow> int \<Rightarrow> string \<Rightarrow> string \<Rightarrow> message" where
  "parsed_response cfg rq st t body =
     \<lparr>is_response = True, m_status = st, m_reason = reason_phrase st, m_method = [], m_uri = [],
      m_headers = map (\<lambda>(n, v). (full_header_name n, v)) (built_headers (response_builder cfg rq st t body)),
      m_body = body\<rparr>"

lemma parse_response:
  assumes "mirrorable rq" "plain_config cfg" "is_hex t" "length body < 2 ^ 64" "100 \<le> st" "st \<le> 699"
  shows "parse_message (build_response cfg rq st t body) = Some (parsed_response cfg rq st t body)"
proof -
  let ?b = "response_builder cfg rq st t body"
  have "parse_start_line (start_line ?b) =
      Some (empty_message\<lparr>is_response := True, m_status := st, m_reason := reason_phrase st\<rparr>)"
    unfolding response_builder_fields
    using assms(5,6) reason_phrase_ok [of st] by (subst parse_response_start) auto
  from parse_message_build [OF response_builder_valid [OF assms(1-4)] this]
  show ?thesis
    by (simp add: build_response_def parsed_response_def empty_message_def response_builder_fields)
qed

lemma header_all_map:
  "filter (\<lambda>(k, v). k = name) (map (\<lambda>(n, v). (full_header_name n, v)) hs) =
     map (\<lambda>(n, v). (full_header_name n, v)) (filter (\<lambda>(n, v). full_header_name n = name) hs)"
  by (induction hs) auto

lemma parsed_via: "header_all (parsed_response cfg rq st t body) ''via'' = header_all rq ''via''"
proof -
  have "filter (\<lambda>(n, v). full_header_name n = ''via'') (map (\<lambda>v. (''Via'', v)) vs) = map (\<lambda>v. (''Via'', v)) vs" for vs :: "string list"
    by (induction vs) (auto simp: header_names)
  then show ?thesis
    by (simp add: header_all_def parsed_response_def header_all_map built_headers_def response_builder_fields
        response_headers_def header_names comp_def)
qed

lemma parsed_headers:
  "header (parsed_response cfg rq st t body) ''from'' = Some (header_or_empty rq ''from'')"
  "header (parsed_response cfg rq st t body) ''to'' = Some (to_header rq st t)"
  "header (parsed_response cfg rq st t body) ''call-id'' = Some (header_or_empty rq ''call-id'')"
  "header (parsed_response cfg rq st t body) ''cseq'' = Some (header_or_empty rq ''cseq'')"
proof -
  have skip: "map_of (map (\<lambda>(n, v). (full_header_name n, v)) (map (\<lambda>v. (''Via'', v)) vs @ hs)) name =
      map_of (map (\<lambda>(n, v). (full_header_name n, v)) hs) name" if "name \<noteq> ''via''" for vs :: "string list" and hs name
    using that by (induction vs) (auto simp: header_names)
  show "header (parsed_response cfg rq st t body) ''from'' = Some (header_or_empty rq ''from'')"
    "header (parsed_response cfg rq st t body) ''to'' = Some (to_header rq st t)"
    "header (parsed_response cfg rq st t body) ''call-id'' = Some (header_or_empty rq ''call-id'')"
    "header (parsed_response cfg rq st t body) ''cseq'' = Some (header_or_empty rq ''cseq'')"
    by (simp_all add: header_def parsed_response_def built_headers_def response_builder_fields response_headers_def
        skip header_names del: map_append)
qed

text \<open>
  A response the user agent builds is read back by the far end as a response with this status
  and body that mirrors the request: the same Via headers in the same order, the same From, Call-ID
  and CSeq, and the To of the request, with a tag where one was given and the To had none.
\<close>

theorem responses_mirror_requests:
  assumes "mirrorable rq" "plain_config cfg" "is_hex t" "length body < 2 ^ 64" "100 \<le> st" "st \<le> 699"
  shows "\<exists>r. parse_message (build_response cfg rq st t body) = Some r \<and>
    is_response r \<and> m_status r = st \<and> m_body r = body \<and> header_all r ''via'' = header_all rq ''via'' \<and>
    header r ''from'' = Some (header_or_empty rq ''from'') \<and> header r ''call-id'' = Some (header_or_empty rq ''call-id'') \<and>
    header r ''cseq'' = Some (header_or_empty rq ''cseq'') \<and>
    header r ''to'' = Some (if t \<noteq> [] \<and> 100 < st then tagged (header_or_empty rq ''to'') t else header_or_empty rq ''to'')"
  using parse_response [OF assms] parsed_via parsed_headers [of cfg rq st t body]
  by (intro exI [of _ "parsed_response cfg rq st t body"]) (auto simp: to_header_def Let_def parsed_response_def)

definition demo_bye :: message where
  "demo_bye = empty_message\<lparr>m_method := ''BYE'', m_uri := ''sip:1@h'',
     m_headers := [(''via'', ''SIP/2.0/UDP a;branch=x''), (''via'', ''SIP/2.0/UDP b''), (''from'', ''<sip:2@h>;tag=1''),
       (''to'', ''<sip:1@h>''), (''call-id'', ''c''), (''cseq'', ''2 BYE'')]\<rparr>"

theorem responses_mirror_requests_witness:
  "\<exists>r. parse_message (build_response (demo_ua_config ''192.0.2.1'') demo_bye 481 ''ab'' []) = Some r \<and>
    m_status r = 481 \<and> header_all r ''via'' = [''SIP/2.0/UDP a;branch=x'', ''SIP/2.0/UDP b''] \<and>
    header r ''to'' = Some ''<sip:1@h>;tag=ab''"
proof -
  have "mirrorable demo_bye" "plain_config (demo_ua_config ''192.0.2.1'')" "is_hex ''ab''" by code_simp+
  from responses_mirror_requests [OF this, of "[]" 481]
  have "\<exists>r. parse_message (build_response (demo_ua_config ''192.0.2.1'') demo_bye 481 ''ab'' []) = Some r \<and>
    m_status r = 481 \<and> header_all r ''via'' = header_all demo_bye ''via'' \<and>
    header r ''to'' = Some (tagged (header_or_empty demo_bye ''to'') ''ab'')" by auto
  moreover have "header_all demo_bye ''via'' = [''SIP/2.0/UDP a;branch=x'', ''SIP/2.0/UDP b'']" by code_simp
  moreover have "tagged (header_or_empty demo_bye ''to'') ''ab'' = ''<sip:1@h>;tag=ab''" by code_simp
  ultimately show ?thesis by simp
qed

section \<open>Every request is answered\<close>

definition sends :: "host_call list \<Rightarrow> string list" where
  "sends h = concat (map (\<lambda>c. case c of SendSip m \<Rightarrow> [m] | _ \<Rightarrow> []) h)"

lemma sends_append [simp]: "sends (g @ h) = sends g @ sends h"
  by (simp add: sends_def)

lemma recording_simps [simp]:
  "send_sip (recording_host A) m h = h @ [SendSip m]"
  "open_media (recording_host A) h = (port_answer A h, h @ [OpenMedia (port_answer A h)])"
  "start_media (recording_host A) rm h = (start_answer A h rm, h @ [StartMedia rm (start_answer A h rm)])"
  "close_media (recording_host A) h = h @ [CloseMedia]"
  "allocate_call_id (recording_host A) h = (id_answer A h, h @ [AllocateId (id_answer A h)])"
  by (simp_all add: recording_host_def)

lemma sends_simps [simp]:
  "sends [] = []" "sends (SendSip m # h) = m # sends h" "sends (OpenMedia p # h) = sends h"
  "sends (StartMedia rm b # h) = sends h" "sends (CloseMedia # h) = sends h" "sends (AllocateId i # h) = sends h"
  by (simp_all add: sends_def)

text \<open>A response to the request, or the response to the INVITE it repeats.\<close>

definition answers_request :: "'h user_agent \<Rightarrow> message \<Rightarrow> string \<Rightarrow> bool" where
  "answers_request s rq m \<longleftrightarrow>
     (\<exists>st t b. 100 \<le> st \<and> st \<le> 699 \<and> m = build_response (u_config s) rq st t b) \<or>
     m_method rq = ''INVITE'' \<and>
       (\<exists>c. u_call s = Some c \<and> c_sip_call_id c = header_or_empty rq ''call-id'' \<and> m = c_last_response c)"

definition answered :: "message \<Rightarrow> host_call list user_agent \<Rightarrow> host_call list user_agent \<Rightarrow> bool" where
  "answered rq s s' \<longleftrightarrow> (\<exists>m rest. sends (u_host s') = sends (u_host s) @ m # rest \<and> answers_request s rq m)"

lemma answers_response: "100 \<le> st \<Longrightarrow> st \<le> 699 \<Longrightarrow> answers_request s rq (build_response (u_config s) rq st t b)"
  by (auto simp: answers_request_def)

lemma answered_respond:
  "sends (u_host t) = sends (u_host s) \<Longrightarrow> u_config t = u_config s \<Longrightarrow> 100 \<le> st \<Longrightarrow> st \<le> 699 \<Longrightarrow>
     answered rq s (respond (recording_host A) rq st tg b t)"
  using answers_response [of st s rq tg b] by (auto simp: answered_def)

lemma answered_more: "answered rq s t \<Longrightarrow> \<exists>more. sends (u_host t') = sends (u_host t) @ more \<Longrightarrow> answered rq s t'"
  by (auto simp: answered_def)

lemma sends_end_call: "sends (u_host (end_call (recording_host A) r st s)) = sends (u_host s)"
  by (simp add: end_call_def host_close_def Let_def split: option.split)

lemma answered_new_invite: "answered rq s (on_new_invite (recording_host A) rq s)"
proof (cases "u_call s = None \<and> \<not> u_shutting_down s \<and> (\<exists>offer. parse_audio (m_body rq) = Some offer \<and> fst (acceptable (u_config s) offer))")
  case False
  then show ?thesis
    by (auto simp: on_new_invite_def effect_eqs intro!: answered_respond split: option.split)
next
  case True
  then obtain offer where offer: "parse_audio (m_body rq) = Some offer" "fst (acceptable (u_config s) offer)" by blast
  have "c_last_response (incoming_call (u_config s) rq offer i t) = build_response (u_config s) rq 180 t []" for i t
    by (simp add: incoming_call_def new_call_def Let_def)
  then show ?thesis
    using True offer answers_response [of 180 s rq]
    by (auto simp: on_new_invite_def effect_eqs Let_def answered_def)
qed

lemma answered_reinvite: "answered rq s (on_reinvite (recording_host A) rq c s)"
  by (auto simp: on_reinvite_def effect_eqs Let_def intro!: answered_respond split: list.split option.split prod.split bool.split)

lemma answered_invite:
  assumes "call_fine s" and "m_method rq = ''INVITE''"
  shows "answered rq s (on_invite_request (recording_host A) rq s)"
proof (cases "u_call s")
  case None
  then show ?thesis by (simp add: on_invite_request_def answered_new_invite)
next
  case (Some c)
  then have "\<not> c_outgoing c \<Longrightarrow> c_last_response c \<noteq> []" using assms(1) by (simp add: call_fine_def call_ok_def)
  moreover have "c_sip_call_id c = header_or_empty rq ''call-id'' \<Longrightarrow> answered rq s (send_raw (recording_host A) (c_last_response c) s)"
    using Some assms(2) by (simp add: answered_def answers_request_def)
  ultimately show ?thesis
    using Some by (simp add: on_invite_request_def answered_new_invite answered_reinvite)
qed

lemma answered_then_end:
  "answered rq s t \<Longrightarrow> \<exists>more. sends (u_host t') = sends (u_host t) @ more \<Longrightarrow>
     answered rq s (end_call (recording_host A) r st t')"
  by (rule answered_more) (auto simp: sends_end_call)

lemma answered_cancel: "answered rq s (on_cancel (recording_host A) rq s)"
  by (auto simp: on_cancel_def Let_def
      intro!: answered_respond answered_then_end [of rq s "respond (recording_host A) rq 200 t [] s" for t] split: option.split)

lemma answered_bye: "answered rq s (on_bye (recording_host A) rq s)"
  by (auto simp: on_bye_def
      intro!: answered_respond answered_then_end [of rq s "respond (recording_host A) rq 200 t [] s" for t])

text \<open>
  C17: every request but an ACK is answered. In any state a run can reach, the first thing sent
  when a request is handled is a response to it, or, for an INVITE that repeats that of the call, the
  response to it again.
\<close>

theorem every_request_is_answered:
  "let s = ua_run (recording_host A) ops (new_user_agent cfg [] g)
   in m_method rq = ''ACK'' \<or> answered rq s (on_request (recording_host A) rq s)"
proof -
  define s where "s = ua_run (recording_host A) ops (new_user_agent cfg [] g)"
  have fine: "call_fine s" using recorded_inv [of cfg A ops g] by (simp add: s_def ua_inv_def)
  have "m_method rq \<noteq> ''ACK'' \<Longrightarrow> answered rq s (on_request (recording_host A) rq s)"
    using answered_invite [OF fine] answered_cancel answered_bye
    by (simp add: on_request_def effect_eqs answered_respond)
  then show ?thesis by (auto simp: s_def [symmetric])
qed

section \<open>Acknowledging\<close>

definition extends :: "host_call list user_agent \<Rightarrow> host_call list user_agent \<Rightarrow> bool" where
  "extends s s' \<longleftrightarrow> prefix (u_host s) (u_host s')"

lemma extends_trans: "extends s t \<Longrightarrow> extends t u \<Longrightarrow> extends s u"
  by (simp add: extends_def)

lemma extends_refl [simp]: "extends s s"
  by (simp add: extends_def)

lemma extends_end_call: "extends s (end_call (recording_host A) r st s)"
  by (simp add: extends_def end_call_def host_close_def Let_def split: option.split)

lemma extends_request: "extends s t \<Longrightarrow> extends s (send_request (recording_host A) rq now f p b t)"
  using send_request_host [of "recording_host A" rq now f p b t] by (auto simp: extends_def)

lemma extends_bye: "extends s t \<Longrightarrow> extends s (send_bye (recording_host A) now t)"
  unfolding send_bye_def by (auto simp: extends_def split: option.split intro!: extends_request [unfolded extends_def])

lemma extends_end: "extends s t \<Longrightarrow> extends s (end_call (recording_host A) r st t)"
  using extends_trans extends_end_call by blast

lemma extends_invite: "extends s t \<Longrightarrow> extends s (send_invite (recording_host A) a now t)"
  unfolding send_invite_def
  by (auto simp: effect_eqs extends_def Let_def split: option.split intro!: extends_request [unfolded extends_def])

lemma extends_answered: "extends s t \<Longrightarrow> extends s (start_answered (recording_host A) c m now t)"
proof -
  assume st: "extends s t"
  then have "extends s (t\<lparr>u_host := u_host t @ [x]\<rparr>)" for x by (auto simp: extends_def)
  then show ?thesis
    using st by (auto simp: start_answered_def fail_answered_def effect_eqs extends_end extends_bye
        split: option.split bool.split) (simp add: extends_def)
qed


end
