(* ===== verification/Jitter_Buffer.thy ===== *)
theory Jitter_Buffer
  imports Ordered_Map
begin

text \<open>
  \<^verbatim>\<open>src/media/jitter_buffer.cpp\<close>: the adaptive jitter buffer. Times are microseconds and sequence
  numbers are extended, both \<^typ>\<open>int\<close>; the frames are an ordered map from sequence numbers.

  Looking for the fastest transit in an empty window is undefined in the source, so the operations
  that need it are partial, and the invariant shows that they never get there. The lemmas show that
  playout goes forward only, that nothing is played before its time, and the range of the delay.
\<close>

abbreviation (input) kFrameUs :: int where "kFrameUs \<equiv> 20000"
abbreviation (input) kWindow :: nat where "kWindow \<equiv> 250"
abbreviation (input) kWarmup :: nat where "kWarmup \<equiv> 50"
abbreviation (input) kMarginUs :: int where "kMarginUs \<equiv> 10000"
abbreviation (input) kMaxDelayUs :: int where "kMaxDelayUs \<equiv> 300000"
abbreviation (input) kShrinkAboveUs :: int where "kShrinkAboveUs \<equiv> kFrameUs + 10000"
abbreviation (input) kPopsBetweenDrops :: nat where "kPopsBetweenDrops \<equiv> 10"
abbreviation (input) kMaxRewind :: int where "kMaxRewind \<equiv> 15"
abbreviation (input) kMissingBeforeRebuffer :: nat where "kMissingBeforeRebuffer \<equiv> 10"
abbreviation (input) kMaxAhead :: int where "kMaxAhead \<equiv> 500"

datatype put_result = Stored | Late | Duplicate

datatype pop_result = Played "byte list" | Missing | Expanded | Buffering

record jitter_buffer =
  initial_delay_us :: int
  frames :: "(int, byte list) omap"
  next_slot :: "int option"
  last_played :: "int option"
  missing_in_a_row :: nat
  pops_since_drop :: nat
  window :: "int list"
  window_count :: nat
  window_next :: nat
  expanded :: nat
  dropped :: nat
  skipped :: nat

definition clamp :: "int \<Rightarrow> int \<Rightarrow> int \<Rightarrow> int" where
  "clamp x lo hi = (if x < lo then lo else if hi < x then hi else x)"

definition new_jitter_buffer :: "int \<Rightarrow> jitter_buffer" where
  "new_jitter_buffer delay =
     \<lparr>initial_delay_us = clamp delay kMarginUs kMaxDelayUs, frames = [], next_slot = None, last_played = None,
      missing_in_a_row = 0, pops_since_drop = 0, window = replicate kWindow 0, window_count = 0,
      window_next = 0, expanded = 0, dropped = 0, skipped = 0\<rparr>"

definition reset :: "jitter_buffer \<Rightarrow> jitter_buffer" where
  "reset j = j\<lparr>frames := [], next_slot := None, last_played := None, missing_in_a_row := 0,
     pops_since_drop := 0, window_count := 0, window_next := 0\<rparr>"

definition record_transit :: "jitter_buffer \<Rightarrow> int \<Rightarrow> jitter_buffer" where
  "record_transit j transit_us =
     j\<lparr>window := (window j)[window_next j := transit_us],
       window_next := (window_next j + 1) mod kWindow,
       window_count := min (window_count j + 1) kWindow\<rparr>"

text \<open>\<^verbatim>\<open>*std::min_element\<close>, which must not be called on an empty range.\<close>

definition min_element :: "int list \<Rightarrow> int option" where
  "min_element xs = (case xs of [] \<Rightarrow> None | x # xs' \<Rightarrow> Some (fold min xs' x))"

text \<open>\<^verbatim>\<open>std::nth_element\<close>: the element that would be at the position in sorted order.\<close>

definition nth_element :: "int list \<Rightarrow> nat \<Rightarrow> int option" where
  "nth_element xs i = (if i < length xs then Some (sort xs ! i) else None)"

definition percentile_index :: "nat \<Rightarrow> nat" where
  "percentile_index count = ((count - 1) * 99 + 99) div 100"

definition desired_offset_us :: "jitter_buffer \<Rightarrow> int option" where
  "desired_offset_us j =
     (let scratch = take (window_count j) (window j)
      in case (min_element scratch, nth_element scratch (percentile_index (window_count j))) of
           (Some fastest, Some percentile) \<Rightarrow>
             (let delay0 = percentile - fastest + kMarginUs;
                  delay = (if window_count j < kWarmup then max delay0 (initial_delay_us j) else delay0)
              in Some (fastest + clamp delay kMarginUs kMaxDelayUs))
         | _ \<Rightarrow> None)"

definition target_delay_us :: "jitter_buffer \<Rightarrow> int option" where
  "target_delay_us j =
     (if window_count j = 0 then Some (initial_delay_us j)
      else case (desired_offset_us j, min_element (take (window_count j) (window j))) of
             (Some desired, Some fastest) \<Rightarrow> Some (desired - fastest)
           | _ \<Rightarrow> None)"

text \<open>Storing a frame whose slot is still ahead.\<close>

definition store_frame :: "jitter_buffer \<Rightarrow> int \<Rightarrow> byte list \<Rightarrow> put_result \<times> jitter_buffer" where
  "store_frame j sq payload =
     (case om_find (frames j) sq of
        None \<Rightarrow> (Stored, j\<lparr>frames := om_emplace sq payload (frames j)\<rparr>)
      | Some _ \<Rightarrow> (Duplicate, j))"

definition put :: "jitter_buffer \<Rightarrow> int \<Rightarrow> byte list \<Rightarrow> int \<Rightarrow> put_result \<times> jitter_buffer" where
  "put j0 sq payload arrival_us =
     (let j1 = (case next_slot j0 of Some n \<Rightarrow> if sq - n > kMaxAhead then reset j0 else j0 | None \<Rightarrow> j0);
          j = record_transit j1 (arrival_us - sq * kFrameUs)
      in case next_slot j of
           Some n \<Rightarrow>
             if sq < n then
               (let dry = (frames j = []);
                    unplayed_since = (case last_played j of None \<Rightarrow> True | Some l \<Rightarrow> sq > l)
                in if \<not> dry \<or> \<not> unplayed_since \<or> n - sq > kMaxRewind then (Late, j)
                   else store_frame (j\<lparr>next_slot := Some sq, missing_in_a_row := 0\<rparr>) sq payload)
             else store_frame j sq payload
         | None \<Rightarrow> store_frame j sq payload)"

text \<open>
  The loop that shrinks the delay; \<^term>\<open>n\<close> is the next slot and \<^term>\<open>offset\<close> its playout offset, which
  goes down by a frame in every round.
\<close>

function shrink :: "jitter_buffer \<Rightarrow> int \<Rightarrow> int \<Rightarrow> int \<Rightarrow> jitter_buffer \<times> int" where
  "shrink j n offset desired =
     (if offset > desired + kShrinkAboveUs \<and> frames j \<noteq> [] then
        (case om_find (frames j) n of
           None \<Rightarrow> shrink (j\<lparr>skipped := skipped j + 1\<rparr>) (n + 1) (offset - kFrameUs) desired
         | Some _ \<Rightarrow>
             if pops_since_drop j \<ge> kPopsBetweenDrops
             then shrink (j\<lparr>frames := om_erase n (frames j), dropped := dropped j + 1, pops_since_drop := 0\<rparr>)
                    (n + 1) (offset - kFrameUs) desired
             else (j, n))
      else (j, n))"
  by pat_completeness auto

termination shrink
  by (relation "measure (\<lambda>(j, n, offset, desired). nat (offset - desired))") auto

declare shrink.simps [simp del]

text \<open>The slot that is due: its frame is played, or it is missing.\<close>

definition play_slot :: "jitter_buffer \<Rightarrow> int \<Rightarrow> pop_result \<times> jitter_buffer" where
  "play_slot j n =
     (case om_find (frames j) n of
        Some frame \<Rightarrow>
          (Played frame, j\<lparr>last_played := Some n, next_slot := Some (n + 1), frames := om_erase n (frames j),
             missing_in_a_row := 0\<rparr>)
      | None \<Rightarrow>
          (let j' = j\<lparr>next_slot := Some (n + 1), missing_in_a_row := missing_in_a_row j + 1\<rparr>
           in (Missing, if frames j' = [] \<and> missing_in_a_row j' \<ge> kMissingBeforeRebuffer then reset j' else j')))"

definition pop_started :: "jitter_buffer \<Rightarrow> int \<Rightarrow> int \<Rightarrow> (pop_result \<times> jitter_buffer) option" where
  "pop_started j n now_us =
     (case desired_offset_us j of
        None \<Rightarrow> None
      | Some desired \<Rightarrow>
          (let offset = now_us - n * kFrameUs
           in if offset < desired
              then Some (Expanded, j\<lparr>expanded := expanded j + 1, pops_since_drop := pops_since_drop j + 1\<rparr>)
              else let (j1, n1) = shrink j n offset desired;
                       j2 = j1\<lparr>next_slot := Some n1, pops_since_drop := pops_since_drop j1 + 1\<rparr>
                   in Some (play_slot j2 n1)))"

definition pop :: "jitter_buffer \<Rightarrow> int \<Rightarrow> (pop_result \<times> jitter_buffer) option" where
  "pop j now_us =
     (case next_slot j of
        Some n \<Rightarrow> pop_started j n now_us
      | None \<Rightarrow>
          (case frames j of
             [] \<Rightarrow> Some (Buffering, j)
           | (first, _) # _ \<Rightarrow>
               (case desired_offset_us j of
                  None \<Rightarrow> None
                | Some desired \<Rightarrow>
                    if now_us - first * kFrameUs < desired then Some (Buffering, j)
                    else pop_started (j\<lparr>next_slot := Some first\<rparr>) first now_us)))"

section \<open>The invariant\<close>

definition jb_ok :: "jitter_buffer \<Rightarrow> bool" where
  "jb_ok j \<longleftrightarrow>
     om_ok (frames j) \<and> length (window j) = kWindow \<and> window_count j \<le> kWindow \<and> window_next j < kWindow \<and>
     kMarginUs \<le> initial_delay_us j \<and> initial_delay_us j \<le> kMaxDelayUs \<and>
     (frames j \<noteq> [] \<or> next_slot j \<noteq> None \<longrightarrow> 0 < window_count j) \<and>
     (case next_slot j of
        None \<Rightarrow> last_played j = None
      | Some n \<Rightarrow> (\<forall>e \<in> set (frames j). n \<le> fst e) \<and> (\<forall>l. last_played j = Some l \<longrightarrow> l < n))"

lemma clamp_range: "lo \<le> hi \<Longrightarrow> lo \<le> clamp x lo hi \<and> clamp x lo hi \<le> hi"
  by (simp add: clamp_def)

lemma new_jitter_buffer_ok: "jb_ok (new_jitter_buffer delay)"
  using clamp_range [of kMarginUs kMaxDelayUs delay] by (simp add: jb_ok_def new_jitter_buffer_def)

lemma reset_ok: "jb_ok j \<Longrightarrow> jb_ok (reset j)"
  by (simp add: jb_ok_def reset_def)

lemma record_transit_ok: "jb_ok j \<Longrightarrow> jb_ok (record_transit j t) \<and> 0 < window_count (record_transit j t)"
  by (auto simp: jb_ok_def record_transit_def split: option.splits)

lemma record_transit_frame [frame_simps]:
  "frames (record_transit j t) = frames j" "next_slot (record_transit j t) = next_slot j"
  "last_played (record_transit j t) = last_played j"
  by (simp_all add: record_transit_def)

lemma store_frame_ok:
  assumes "jb_ok j" and "0 < window_count j" and "case next_slot j of None \<Rightarrow> True | Some n \<Rightarrow> n \<le> sq"
  shows "jb_ok (snd (store_frame j sq payload))"
proof -
  have "om_ok (om_emplace sq payload (frames j))" using assms(1) by (simp add: jb_ok_def om_ok_emplace)
  then show ?thesis
    using assms set_om_emplace [of sq payload "frames j"]
    by (fastforce simp: store_frame_def jb_ok_def split: option.splits)
qed

lemma put_ok:
  assumes "jb_ok j"
  shows "jb_ok (snd (put j sq payload arrival))"
proof -
  let ?j1 = "case next_slot j of Some n \<Rightarrow> if sq - n > kMaxAhead then reset j else j | None \<Rightarrow> j"
  let ?j = "record_transit ?j1 (arrival - sq * kFrameUs)"
  have "jb_ok ?j1" using assms by (simp add: reset_ok split: option.splits)
  then have j: "jb_ok ?j" and w: "0 < window_count ?j" using record_transit_ok by blast+
  have rewind: "jb_ok (?j\<lparr>next_slot := Some sq, missing_in_a_row := 0\<rparr>)"
    if "frames ?j = []" "case last_played ?j of None \<Rightarrow> True | Some l \<Rightarrow> sq > l"
    using j w that by (auto simp: jb_ok_def split: option.splits)
  show ?thesis
    unfolding put_def Let_def
    using j w store_frame_ok [OF j w, of sq payload] store_frame_ok [OF rewind, of sq payload]
    by (auto split: option.splits)
qed

text \<open>The window is not empty wherever its fastest transit is asked for.\<close>

lemma percentile_index_less: "0 < c \<Longrightarrow> percentile_index c < c"
  by (simp add: percentile_index_def)

lemma fold_min_le: "fold min xs x \<le> (x :: int) \<and> (\<forall>y \<in> set xs. fold min xs x \<le> y)"
proof (induction xs arbitrary: x)
  case Nil
  then show ?case by simp
next
  case (Cons y xs)
  have "fold min xs (min y x) \<le> min y x" using Cons by blast
  then show ?case using Cons [of "min y x"] by auto
qed

lemma min_element_le: "min_element xs = Some m \<Longrightarrow> y \<in> set xs \<Longrightarrow> m \<le> y"
  using fold_min_le by (auto simp: min_element_def split: list.splits)

lemma desired_offset_defined:
  assumes "jb_ok j" and "0 < window_count j"
  obtains fastest delay where "min_element (take (window_count j) (window j)) = Some fastest"
    "desired_offset_us j = Some (fastest + delay)" "kMarginUs \<le> delay" "delay \<le> kMaxDelayUs"
proof -
  let ?s = "take (window_count j) (window j)"
  have len: "length ?s = window_count j" using assms by (simp add: jb_ok_def)
  with assms(2) obtain m where m: "min_element ?s = Some m" by (cases ?s) (auto simp: min_element_def)
  obtain p where p: "nth_element ?s (percentile_index (window_count j)) = Some p"
    using percentile_index_less [OF assms(2)] len unfolding nth_element_def by metis
  let ?d0 = "p - m + kMarginUs"
  let ?d = "if window_count j < kWarmup then max ?d0 (initial_delay_us j) else ?d0"
  have "desired_offset_us j = Some (m + clamp ?d kMarginUs kMaxDelayUs)"
    using m p by (simp add: desired_offset_us_def Let_def)
  with m that clamp_range [of kMarginUs kMaxDelayUs ?d] show ?thesis by simp
qed

text \<open>The loop that shrinks: it goes forward, past slots whose frame is gone.\<close>

definition behind :: "jitter_buffer \<Rightarrow> int \<Rightarrow> bool" where
  "behind j n \<longleftrightarrow> (\<forall>e \<in> set (frames j). n \<le> fst e)"

lemma shrink_spec:
  assumes "om_ok (frames j)" and "behind j n" and "shrink j n offset desired = (j', n')" and "desired \<le> offset"
  shows "om_ok (frames j') \<and> behind j' n' \<and> n \<le> n' \<and> set (frames j') \<subseteq> set (frames j) \<and>
    last_played j' = last_played j \<and> window j' = window j \<and> window_count j' = window_count j \<and>
    window_next j' = window_next j \<and> initial_delay_us j' = initial_delay_us j \<and>
    desired \<le> offset - (n' - n) * kFrameUs"
  using assms
proof (induction j n offset desired rule: shrink.induct)
  case (1 j n offset desired)
  show ?case
  proof (cases "offset > desired + kShrinkAboveUs \<and> frames j \<noteq> []")
    case False
    then have "shrink j n offset desired = (j, n)" by (simp add: shrink.simps)
    with 1 show ?thesis by simp
  next
    case go: True
    show ?thesis
    proof (cases "om_find (frames j) n")
      case None
      let ?j = "j\<lparr>skipped := skipped j + 1\<rparr>"
      have "n \<noteq> fst e" if "e \<in> set (frames j)" for e
        using None that by (auto simp: map_of_eq_None_iff)
      then have "behind ?j (n + 1)" using 1(4) by (force simp: behind_def)
      moreover have "shrink ?j (n + 1) (offset - kFrameUs) desired = (j', n')"
        using 1(5) None go by (subst (asm) shrink.simps) simp
      ultimately show ?thesis using 1(1) [OF go None] 1(3) go by (simp add: algebra_simps)
    next
      case (Some v)
      show ?thesis
      proof (cases "pops_since_drop j \<ge> kPopsBetweenDrops")
        case True
        let ?j = "j\<lparr>frames := om_erase n (frames j), dropped := dropped j + 1, pops_since_drop := 0\<rparr>"
        have "behind ?j (n + 1)" using 1(4) by (force simp: behind_def set_om_erase)
        moreover have "om_ok (frames ?j)" using 1(3) by (simp add: om_ok_erase)
        moreover have "shrink ?j (n + 1) (offset - kFrameUs) desired = (j', n')"
          using 1(5) Some go True by (subst (asm) shrink.simps) simp
        ultimately show ?thesis using 1(2) [OF go Some True] go
          by (auto simp: set_om_erase algebra_simps)
      next
        case False
        then have "shrink j n offset desired = (j, n)" using Some go by (simp add: shrink.simps)
        with 1 show ?thesis by simp
      qed
    qed
  qed
qed

lemma play_slot_ok:
  assumes "jb_ok j" and "next_slot j = Some n" and "behind j n"
  shows "jb_ok (snd (play_slot j n))"
proof (cases "om_find (frames j) n")
  case None
  have "n \<noteq> fst e" if "e \<in> set (frames j)" for e
    using None that by (auto simp: map_of_eq_None_iff)
  then have "\<forall>e \<in> set (frames j). n + 1 \<le> fst e" using assms(3) by (force simp: behind_def)
  then have "jb_ok (j\<lparr>next_slot := Some (n + 1), missing_in_a_row := missing_in_a_row j + 1\<rparr>)"
    using assms(1,2) by (auto simp: jb_ok_def)
  with None show ?thesis by (simp add: play_slot_def Let_def reset_ok)
next
  case (Some f)
  have "\<forall>e \<in> set (om_erase n (frames j)). n + 1 \<le> fst e"
    using assms(3) by (force simp: behind_def set_om_erase)
  with Some assms show ?thesis by (auto simp: play_slot_def jb_ok_def om_ok_erase)
qed

lemma jb_ok_behind: "jb_ok j \<Longrightarrow> next_slot j = Some n \<Longrightarrow> behind j n"
  by (simp add: jb_ok_def behind_def)

text \<open>
  What a pop that starts at slot \<^term>\<open>n\<close> does: a frame it plays was queued at a slot \<^term>\<open>m\<close> from \<^term>\<open>n\<close> on
  and is due; otherwise nothing is marked as played.
\<close>

definition pop_effect :: "jitter_buffer \<Rightarrow> int \<Rightarrow> int \<Rightarrow> pop_result \<Rightarrow> jitter_buffer \<Rightarrow> bool" where
  "pop_effect j n now res j' \<longleftrightarrow>
     (case res of
        Played f \<Rightarrow>
          (\<exists>m desired. n \<le> m \<and> om_find (frames j) m = Some f \<and> desired_offset_us j = Some desired \<and>
             desired \<le> now - m * kFrameUs \<and> last_played j' = Some m \<and> next_slot j' = Some (m + 1) \<and>
             om_find (frames j') m = None)
      | _ \<Rightarrow> last_played j' = last_played j \<or> last_played j' = None)"

lemma play_slot_effect:
  assumes "om_ok (frames j0)" and "set (frames j) \<subseteq> set (frames j0)" and "n0 \<le> n"
    and "desired_offset_us j0 = Some desired" and "desired \<le> now - n * kFrameUs" and "last_played j = last_played j0"
  shows "pop_effect j0 n0 now (fst (play_slot j n)) (snd (play_slot j n))"
proof (cases "om_find (frames j) n")
  case None
  with assms(6) show ?thesis by (simp add: pop_effect_def play_slot_def Let_def reset_def)
next
  case (Some f)
  then have "(n, f) \<in> set (frames j0)" using om_find_SomeD assms(2) by fast
  then have "om_find (frames j0) n = Some f" using om_find_eq_Some [OF assms(1)] by simp
  then show ?thesis
    using Some assms(3-5) unfolding pop_effect_def play_slot_def
    by (simp add: om_find_erase)
qed

lemma pop_started_spec:
  assumes ok: "jb_ok j" and n: "next_slot j = Some n"
  shows "\<exists>res j'. pop_started j n now = Some (res, j') \<and> jb_ok j' \<and> pop_effect j n now res j'"
proof -
  have w: "0 < window_count j" using ok n by (simp add: jb_ok_def)
  then obtain desired where d: "desired_offset_us j = Some desired"
    using desired_offset_defined [OF ok] by blast
  show ?thesis
  proof (cases "now - n * kFrameUs < desired")
    case True
    with d ok n show ?thesis by (simp add: pop_started_def Let_def pop_effect_def jb_ok_def)
  next
    case False
    obtain j1 n1 where s: "shrink j n (now - n * kFrameUs) desired = (j1, n1)" by fastforce
    have omj: "om_ok (frames j)" using ok by (simp add: jb_ok_def)
    have sp: "om_ok (frames j1)" "behind j1 n1" "n \<le> n1" "set (frames j1) \<subseteq> set (frames j)"
      "last_played j1 = last_played j" "window j1 = window j" "window_count j1 = window_count j"
      "window_next j1 = window_next j" "initial_delay_us j1 = initial_delay_us j"
      "desired \<le> (now - n * kFrameUs) - (n1 - n) * kFrameUs"
      using shrink_spec [OF omj jb_ok_behind [OF ok n] s] False by auto
    let ?j2 = "j1\<lparr>next_slot := Some n1, pops_since_drop := pops_since_drop j1 + 1\<rparr>"
    have j2: "jb_ok ?j2" using ok n sp w by (auto simp: jb_ok_def behind_def)
    have "pop_started j n now = Some (play_slot ?j2 n1)"
      using d False s by (simp add: pop_started_def Let_def)
    moreover have "jb_ok (snd (play_slot ?j2 n1))"
      using play_slot_ok [OF j2] sp(2) by (simp add: behind_def)
    moreover have "desired \<le> now - n1 * kFrameUs" using sp(10) by (simp add: algebra_simps)
    then have "pop_effect j n now (fst (play_slot ?j2 n1)) (snd (play_slot ?j2 n1))"
      using sp(3-5) by (intro play_slot_effect [OF omj _ _ d]) simp_all
    ultimately show ?thesis by (metis prod.collapse)
  qed
qed

text \<open>The lowest slot a pop may play: the next one, or anything before playout has started.\<close>

lemma pop_spec:
  assumes ok: "jb_ok j"
  shows "\<exists>res j' n. pop j now = Some (res, j') \<and> jb_ok j' \<and> pop_effect j n now res j' \<and>
    (\<forall>l. last_played j = Some l \<longrightarrow> l < n)"
proof (cases "next_slot j")
  case (Some n)
  moreover have "\<forall>l. last_played j = Some l \<longrightarrow> l < n" using ok Some by (simp add: jb_ok_def)
  ultimately show ?thesis using pop_started_spec [OF ok Some, of now] by (auto simp: pop_def)
next
  case None
  then have last: "last_played j = None" using ok by (simp add: jb_ok_def)
  show ?thesis
  proof (cases "frames j")
    case Nil
    with None ok last show ?thesis by (simp add: pop_def pop_effect_def)
  next
    case (Cons e fs)
    obtain first fr where e: "e = (first, fr)" by (cases e)
    have w: "0 < window_count j" using ok Cons by (simp add: jb_ok_def)
    then obtain desired where d: "desired_offset_us j = Some desired"
      using desired_offset_defined [OF ok] by blast
    show ?thesis
    proof (cases "now - first * kFrameUs < desired")
      case True
      with None Cons e d ok last show ?thesis by (simp add: pop_def pop_effect_def)
    next
      case False
      let ?j = "j\<lparr>next_slot := Some first\<rparr>"
      have "\<forall>x \<in> set (frames j). first \<le> fst x"
        using ok Cons e om_ok_head [of e fs] by (auto simp: jb_ok_def)
      then have j: "jb_ok ?j" using ok None w by (auto simp: jb_ok_def)
      have "desired_offset_us ?j = desired_offset_us j" by (simp add: desired_offset_us_def Let_def split: option.split)
      then have "pop_effect ?j first now res j' = pop_effect j first now res j'" for res j'
        by (simp add: pop_effect_def split: pop_result.split)
      moreover have "pop j now = pop_started ?j first now" using None Cons e d False by (simp add: pop_def)
      ultimately show ?thesis using pop_started_spec [OF j, of first now] last by auto
    qed
  qed
qed

section \<open>Properties\<close>

text \<open>What is done with a jitter buffer, and what it played: \<^term>\<open>None\<close> in the log is a fresh start.\<close>

datatype jb_operation = Put int "byte list" int | Pop int

fun run_jitter :: "jitter_buffer \<Rightarrow> jb_operation list \<Rightarrow> (int option list \<times> jitter_buffer) option" where
  "run_jitter j [] = Some ([], j)"
| "run_jitter j (Put sq payload arrival # ops) =
     (let j' = snd (put j sq payload arrival)
      in map_option (\<lambda>(log, j''). ((if last_played j' = None then [None] else []) @ log, j'')) (run_jitter j' ops))"
| "run_jitter j (Pop now # ops) =
     (case pop j now of
        None \<Rightarrow> None
      | Some (res, j') \<Rightarrow>
          map_option (\<lambda>(log, j''). ((case res of Played _ \<Rightarrow> [last_played j'] | _ \<Rightarrow>
              if last_played j' = None then [None] else []) @ log, j'')) (run_jitter j' ops))"

fun forward :: "int option \<Rightarrow> int option list \<Rightarrow> bool" where
  "forward prev [] = True"
| "forward prev (None # log) = forward None log"
| "forward prev (Some m # log) = ((\<forall>l. prev = Some l \<longrightarrow> l < m) \<and> forward (Some m) log)"

lemma put_last_played: "last_played (snd (put j sq payload arrival)) \<in> {last_played j, None}"
  by (auto simp: put_def store_frame_def reset_def record_transit_def Let_def split: option.splits)

lemma run_jitter_forward:
  "jb_ok j \<Longrightarrow> \<exists>log j'. run_jitter j ops = Some (log, j') \<and> jb_ok j' \<and> forward (last_played j) log"
proof (induction ops arbitrary: j)
  case Nil
  then show ?case by simp
next
  case (Cons op ops)
  show ?case
  proof (cases op)
    case (Put sq payload arrival)
    let ?j = "snd (put j sq payload arrival)"
    from Cons.IH [OF put_ok [OF Cons.prems]] obtain log j' where
      "run_jitter ?j ops = Some (log, j')" "jb_ok j'" "forward (last_played ?j) log" by blast
    with Put put_last_played [of j sq payload arrival] show ?thesis by (auto simp: Let_def)
  next
    case (Pop now)
    obtain res j1 n where p: "pop j now = Some (res, j1)" "jb_ok j1" "pop_effect j n now res j1"
      "\<forall>l. last_played j = Some l \<longrightarrow> l < n"
      using pop_spec [OF Cons.prems, of now] by blast
    from Cons.IH [OF p(2)] obtain log j' where
      "run_jitter j1 ops = Some (log, j')" "jb_ok j'" "forward (last_played j1) log" by blast
    with Pop p show ?thesis
      by (cases res) (fastforce simp: pop_effect_def)+
  qed
qed

text \<open>
  C19: the jitter buffer never gets stuck or reaches an undefined operation, whatever frames arrive,
  in any order and at any time, and whenever it is popped; and between two fresh starts the sequence
  numbers it plays strictly increase, so no frame is played twice or out of order.
\<close>

theorem playout_goes_forward:
  "\<exists>log j. run_jitter (new_jitter_buffer delay) ops = Some (log, j) \<and> forward None log"
  using run_jitter_forward [OF new_jitter_buffer_ok, of delay ops] by (auto simp: new_jitter_buffer_def)

text \<open>
  A frame that is played is one that was queued, it is due (the playout offset of its slot has
  reached the offset the buffer aims for), it comes after everything played before, and it is gone
  from the queue afterwards.
\<close>

theorem played_frames_are_due:
  assumes "jb_ok j" and "pop j now = Some (Played f, j')"
  shows "\<exists>m desired. om_find (frames j) m = Some f \<and> desired_offset_us j = Some desired \<and>
    desired \<le> now - m * kFrameUs \<and> (\<forall>l. last_played j = Some l \<longrightarrow> l < m) \<and>
    last_played j' = Some m \<and> om_find (frames j') m = None"
  using pop_spec [OF assms(1), of now] assms(2) by (fastforce simp: pop_effect_def)

text \<open>A buffer with one frame, and the time it is due.\<close>

definition one_frame :: jitter_buffer where
  "one_frame = snd (put (new_jitter_buffer 60000) 7 [1, 2, 3] 140000)"

lemma one_frame_ok: "jb_ok one_frame"
  unfolding one_frame_def by (rule put_ok [OF new_jitter_buffer_ok])

lemma one_frame_played: "map_option fst (pop one_frame 200000) = Some (Played [1, 2, 3])"
  by code_simp

theorem played_frames_are_due_witness:
  "\<exists>m desired. om_find (frames one_frame) m = Some [1, 2, 3] \<and> desired_offset_us one_frame = Some desired \<and>
    desired \<le> 200000 - m * kFrameUs"
proof -
  obtain j' where "pop one_frame 200000 = Some (Played [1, 2, 3], j')" using one_frame_played by auto
  from played_frames_are_due [OF one_frame_ok this] show ?thesis by blast
qed

text \<open>
  The delay the buffer aims for is always defined and between 10 and 300 ms.
\<close>

theorem target_delay_in_range:
  assumes "jb_ok j"
  shows "\<exists>d. target_delay_us j = Some d \<and> kMarginUs \<le> d \<and> d \<le> kMaxDelayUs"
proof (cases "window_count j = 0")
  case True
  with assms show ?thesis by (simp add: target_delay_us_def jb_ok_def)
next
  case False
  then show ?thesis using desired_offset_defined [OF assms] by (fastforce simp: target_delay_us_def)
qed

theorem target_delay_in_range_witness: "\<exists>d. target_delay_us one_frame = Some d \<and> kMarginUs \<le> d \<and> d \<le> kMaxDelayUs"
  using target_delay_in_range [OF one_frame_ok] .

end
