(* ===== verification/Rtp.thy ===== *)
theory Rtp
  imports Prelude Complex_Main
begin

text \<open>
  \<^verbatim>\<open>src/media/rtp.cpp\<close>: writing and parsing RTP packets, and the receiver statistics that extend
  16-bit sequence numbers. A datagram is a list of bytes. Reading a byte is partial, so that the
  model shows where the parser looks: the outer \<^typ>\<open>'a option\<close> of a result is \<^term>\<open>None\<close> when a byte
  or a subspan outside the datagram was asked for, and the lemmas show exactly when that is. Sizes are
  natural numbers; the subtractions of \<^verbatim>\<open>size_t\<close> that can go below zero are written with their
  wrap-around.
  The interarrival jitter, a \<^verbatim>\<open>double\<close>, is a real number.
\<close>

abbreviation (input) kRtpHeaderSize :: nat where "kRtpHeaderSize \<equiv> 12"
abbreviation (input) kMaxDropout :: int where "kMaxDropout \<equiv> 3000"

record rtp_header =
  payload_type :: byte
  marker :: bool
  sequence :: u16
  timestamp :: u32
  ssrc :: u32

record rtp_packet =
  header :: rtp_header
  payload :: "byte list"

section \<open>Writing\<close>

definition rtp_bytes :: "rtp_header \<Rightarrow> byte list" where
  "rtp_bytes h =
     [0x80,
      (if marker h then 0x80 else 0) OR (payload_type h AND 0x7f),
      ucast (drop_bit 8 (sequence h)), ucast (sequence h)] @
     map (\<lambda>i. ucast (drop_bit (24 - 8 * i) (timestamp h))) [0..<4] @
     map (\<lambda>i. ucast (drop_bit (24 - 8 * i) (ssrc h))) [0..<4]"

text \<open>The size returned and the buffer afterwards; bytes behind the packet stay.\<close>

definition write_rtp :: "byte list \<Rightarrow> rtp_header \<Rightarrow> byte list \<Rightarrow> nat \<times> byte list" where
  "write_rtp out h body =
     (let size = kRtpHeaderSize + length body
      in if length out < size then (0, out) else (size, rtp_bytes h @ body @ drop size out))"

section \<open>Parsing\<close>

definition byte_at :: "byte list \<Rightarrow> nat \<Rightarrow> byte option" where
  "byte_at d i = (if i < length d then Some (d ! i) else None)"

definition read16 :: "byte list \<Rightarrow> nat \<Rightarrow> u16 option" where
  "read16 d i =
     (case (byte_at d i, byte_at d (i + 1)) of
        (Some a, Some b) \<Rightarrow> Some (push_bit 8 (ucast a) OR ucast b)
      | _ \<Rightarrow> None)"

definition read32 :: "byte list \<Rightarrow> nat \<Rightarrow> u32 option" where
  "read32 d i =
     (case (byte_at d i, byte_at d (i + 1), byte_at d (i + 2), byte_at d (i + 3)) of
        (Some a, Some b, Some c, Some e) \<Rightarrow>
          Some (push_bit 24 (ucast a) OR push_bit 16 (ucast b) OR push_bit 8 (ucast c) OR ucast e)
      | _ \<Rightarrow> None)"

definition subspan :: "byte list \<Rightarrow> nat \<Rightarrow> nat \<Rightarrow> byte list option" where
  "subspan d offset count = (if offset + count \<le> length d then Some (take count (drop offset d)) else None)"

text \<open>Subtraction of \<^verbatim>\<open>size_t\<close>.\<close>

definition minus_size :: "nat \<Rightarrow> nat \<Rightarrow> nat" where
  "minus_size a b = (if b \<le> a then a - b else a + 2 ^ 64 - b)"

text \<open>The offset of the payload: behind the CSRCs and the extension, if any.\<close>

definition payload_offset :: "byte list \<Rightarrow> byte \<Rightarrow> nat option option" where
  "payload_offset d first =
     (let offset = kRtpHeaderSize + 4 * unat (first AND 0x0f)
      in if first AND 0x10 \<noteq> 0
         then if length d < offset + 4 then Some None
              else case read16 d (offset + 2) of
                     None \<Rightarrow> None
                   | Some words \<Rightarrow> Some (Some (offset + 4 + 4 * unat words))
         else Some (Some offset))"

text \<open>The end of the payload: before the padding, if any.\<close>

definition payload_end :: "byte list \<Rightarrow> byte \<Rightarrow> nat \<Rightarrow> nat option option" where
  "payload_end d first offset =
     (let e = length d
      in if first AND 0x20 \<noteq> 0
         then case byte_at d (e - 1) of
                None \<Rightarrow> None
              | Some padding \<Rightarrow>
                  if padding = 0 \<or> minus_size e offset < unat padding then Some None
                  else Some (Some (minus_size e (unat padding)))
         else Some (Some e))"

definition parse_rtp_fields :: "byte list \<Rightarrow> byte \<Rightarrow> nat \<Rightarrow> nat \<Rightarrow> rtp_packet option" where
  "parse_rtp_fields d second offset e =
     (case (read16 d 2, read32 d 4, read32 d 8, subspan d offset (minus_size e offset)) of
        (Some sq, Some ts, Some src, Some body) \<Rightarrow>
          Some \<lparr>header = \<lparr>payload_type = second AND 0x7f, marker = (second AND 0x80 \<noteq> 0),
                  sequence = sq, timestamp = ts, ssrc = src\<rparr>, payload = body\<rparr>
      | _ \<Rightarrow> None)"

definition parse_rtp :: "byte list \<Rightarrow> rtp_packet option option" where
  "parse_rtp d =
     (if length d < kRtpHeaderSize then Some None
      else case (byte_at d 0, byte_at d 1) of
        (Some first, Some second) \<Rightarrow>
          if drop_bit 6 first \<noteq> 2 then Some None
          else if 200 \<le> second \<and> second \<le> 204 then Some None
          else (case payload_offset d first of
                  None \<Rightarrow> None
                | Some None \<Rightarrow> Some None
                | Some (Some offset) \<Rightarrow>
                    (case payload_end d first offset of
                       None \<Rightarrow> None
                     | Some None \<Rightarrow> Some None
                     | Some (Some e) \<Rightarrow>
                         if e < offset then Some None
                         else map_option Some (parse_rtp_fields d second offset e)))
      | _ \<Rightarrow> None)"

section \<open>Receiver statistics\<close>

record receive_statistics =
  started :: bool
  base :: int
  highest :: int
  received :: nat
  last_transit :: u32
  jitter :: real

definition new_statistics :: receive_statistics where
  "new_statistics = \<lparr>started = False, base = 0, highest = 0, received = 0, last_transit = 0, jitter = 0\<rparr>"

text \<open>\<^verbatim>\<open>highest_ & ~0xffff\<close> on a signed number rounds down to a multiple of 65536.\<close>

definition extend_sequence :: "int \<Rightarrow> u16 \<Rightarrow> int" where
  "extend_sequence high sq =
     (let cycle = high AND NOT 0xffff;
          e0 = cycle + uint sq;
          e1 = (if e0 - high > 32768 then e0 - 65536 else e0)
      in if high - e1 > 32768 then e1 + 65536 else e1)"

definition track_sequence :: "receive_statistics \<Rightarrow> u16 \<Rightarrow> int \<times> receive_statistics" where
  "track_sequence r sq =
     (if \<not> started r then (uint sq, r\<lparr>started := True, base := uint sq, highest := uint sq\<rparr>)
      else let e = extend_sequence (highest r) sq
           in if \<bar>e - highest r\<bar> > kMaxDropout then (e, r\<lparr>base := e, highest := e, received := 0\<rparr>)
              else if e > highest r then (e, r\<lparr>highest := e\<rparr>)
              else (e, r))"

definition track_jitter :: "receive_statistics \<Rightarrow> u32 \<Rightarrow> u32 \<Rightarrow> receive_statistics" where
  "track_jitter r ts arrival =
     (let transit = arrival - ts;
          delta = sint (transit - last_transit r);
          r' = (if 1 < received r then r\<lparr>jitter := jitter r + (\<bar>real_of_int delta\<bar> - jitter r) / 16\<rparr> else r)
      in r'\<lparr>last_transit := transit\<rparr>)"

definition on_packet :: "receive_statistics \<Rightarrow> u16 \<Rightarrow> u32 \<Rightarrow> u32 \<Rightarrow> int \<times> receive_statistics" where
  "on_packet r sq ts arrival =
     (let (e, r1) = track_sequence r sq
      in (e, track_jitter (r1\<lparr>received := received r1 + 1\<rparr>) ts arrival))"

definition lost :: "receive_statistics \<Rightarrow> nat" where
  "lost r =
     (if \<not> started r then 0
      else let expected = highest r - base r + 1
           in if expected > int (received r) then nat (expected - int (received r)) else 0)"

section \<open>The parser stays inside the datagram\<close>

lemma byte_at_Some [simp]: "i < length d \<Longrightarrow> byte_at d i = Some (d ! i)"
  by (simp add: byte_at_def)

lemma read16_in: "i + 1 < length d \<Longrightarrow> read16 d i \<noteq> None"
  by (simp add: read16_def)

lemma read32_in: "i + 3 < length d \<Longrightarrow> read32 d i \<noteq> None"
  by (simp add: read32_def)

lemma payload_offset_cases:
  obtains "payload_offset d first = Some None"
  | offset where "payload_offset d first = Some (Some offset)" "kRtpHeaderSize \<le> offset" "offset < 2 ^ 20"
proof -
  let ?o = "kRtpHeaderSize + 4 * unat (first AND 0x0f)"
  have "unat (first AND 0x0f) < 256" using unat_less [of "first AND 0x0f"] by simp
  then have small: "?o + 4 + 4 * unat (w :: u16) < 2 ^ 20" for w using unat_less [of w] by simp
  show ?thesis
  proof (cases "first AND 0x10 \<noteq> 0")
    case False
    with small [of 0] that(2) show ?thesis by (simp add: payload_offset_def Let_def)
  next
    case True
    show ?thesis
    proof (cases "length d < ?o + 4")
      case True
      with \<open>first AND 0x10 \<noteq> 0\<close> that(1) show ?thesis by (simp add: payload_offset_def Let_def)
    next
      case False
      then have "read16 d (?o + 2) \<noteq> None" by (intro read16_in) simp
      then obtain w where "read16 d (?o + 2) = Some w" by blast
      with True False small [of w] that(2) show ?thesis by (simp add: payload_offset_def Let_def)
    qed
  qed
qed

text \<open>
  The input on which the check of the padding fails to protect: the header announces more than the
  datagram holds, and the padding is longer than the whole datagram, so that both subtractions wrap.
\<close>

definition overruns :: "byte list \<Rightarrow> bool" where
  "overruns d \<longleftrightarrow>
     kRtpHeaderSize \<le> length d \<and> drop_bit 6 (d ! 0) = 2 \<and> \<not> (200 \<le> d ! 1 \<and> d ! 1 \<le> 204) \<and>
     d ! 0 AND 0x20 \<noteq> 0 \<and> length d < unat (last d) \<and>
     (case payload_offset d (d ! 0) of Some (Some offset) \<Rightarrow> length d < offset | _ \<Rightarrow> False)"

lemma byte_at_last: "kRtpHeaderSize \<le> length d \<Longrightarrow> byte_at d (length d - 1) = Some (last d)"
  by (cases "d = []") (simp_all add: byte_at_def last_conv_nth)

lemma parse_rtp_fields_in:
  assumes "kRtpHeaderSize \<le> length d" and "offset \<le> e"
  shows "parse_rtp_fields d second offset e = None \<longleftrightarrow> length d < e"
    and "parse_rtp_fields d second offset e = Some p \<Longrightarrow> payload p = take (e - offset) (drop offset d)"
proof -
  have "read16 d 2 \<noteq> None" "read32 d 4 \<noteq> None" "read32 d 8 \<noteq> None"
    using assms(1) by (simp_all add: read16_in read32_in)
  then obtain a b c where "read16 d 2 = Some a" "read32 d 4 = Some b" "read32 d 8 = Some c" by blast
  then show "parse_rtp_fields d second offset e = None \<longleftrightarrow> length d < e"
    and "parse_rtp_fields d second offset e = Some p \<Longrightarrow> payload p = take (e - offset) (drop offset d)"
    using assms(2) by (auto simp: parse_rtp_fields_def subspan_def minus_size_def split: if_splits)
qed

lemma payload_end_eq:
  assumes "kRtpHeaderSize \<le> length d"
  shows "payload_end d first offset =
    (if first AND 0x20 = 0 then Some (Some (length d))
     else if last d = 0 \<or> minus_size (length d) offset < unat (last d) then Some None
     else Some (Some (minus_size (length d) (unat (last d)))))"
  unfolding payload_end_def Let_def byte_at_last [OF assms] by simp

lemma payload_end_cases:
  assumes len: "kRtpHeaderSize \<le> length d" and small: "offset < 2 ^ 20"
  obtains "payload_end d first offset = Some None"
  | e where "payload_end d first offset = Some (Some e)"
      "offset \<le> e \<Longrightarrow> length d < e \<longleftrightarrow> first AND 0x20 \<noteq> 0 \<and> length d < unat (last d) \<and> length d < offset"
      "\<not> offset \<le> e \<Longrightarrow> \<not> (first AND 0x20 \<noteq> 0 \<and> length d < unat (last d) \<and> length d < offset)"
proof (cases "first AND 0x20 = 0")
  case True
  with that(2) [of "length d"] show ?thesis by (auto simp: payload_end_def)
next
  case False
  let ?p = "unat (last d)"
  have p: "?p < 256" using unat_less [of "last d"] by simp
  show ?thesis
  proof (cases "last d = 0 \<or> minus_size (length d) offset < ?p")
    case True
    with False len that(1) show ?thesis by (simp add: payload_end_eq)
  next
    case nz: False
    then have "0 < ?p" using unsigned_eq_0_iff [of "last d", where ?'a = nat] by (cases ?p) auto
    show ?thesis
    proof (rule that(2))
      show "payload_end d first offset = Some (Some (minus_size (length d) ?p))"
        using False nz len by (simp add: payload_end_eq)
    qed (use nz p small False \<open>0 < ?p\<close> in \<open>auto simp: minus_size_def split: if_splits\<close>)
  qed
qed

lemma parse_rtp_unfold:
  assumes "kRtpHeaderSize \<le> length d"
  shows "parse_rtp d =
    (if drop_bit 6 (d ! 0) \<noteq> 2 \<or> 200 \<le> d ! 1 \<and> d ! 1 \<le> 204 then Some None
     else case payload_offset d (d ! 0) of
            None \<Rightarrow> None
          | Some None \<Rightarrow> Some None
          | Some (Some offset) \<Rightarrow>
              (case payload_end d (d ! 0) offset of
                 None \<Rightarrow> None
               | Some None \<Rightarrow> Some None
               | Some (Some e) \<Rightarrow>
                   if e < offset then Some None
                   else map_option Some (parse_rtp_fields d (d ! 1) offset e)))"
proof -
  have "0 < length d" and "1 < length d" using assms by linarith+
  then have "byte_at d 0 = Some (d ! 0)" and "byte_at d 1 = Some (d ! 1)" by (simp_all only: byte_at_Some)
  then show ?thesis using assms by (auto simp del: One_nat_def simp: parse_rtp_def split: option.splits)
qed

lemma parse_rtp_None_iff: "parse_rtp d = None \<longleftrightarrow> overruns d"
proof (cases "kRtpHeaderSize \<le> length d \<and> drop_bit 6 (d ! 0) = 2 \<and> \<not> (200 \<le> d ! 1 \<and> d ! 1 \<le> 204)")
  case False
  then show ?thesis
    by (cases "kRtpHeaderSize \<le> length d") (auto simp: parse_rtp_unfold overruns_def, simp add: parse_rtp_def)
next
  case True
  then have len: "kRtpHeaderSize \<le> length d" by blast
  show ?thesis
  proof (cases rule: payload_offset_cases [of d "d ! 0"])
    case 1
    with True show ?thesis by (simp add: parse_rtp_unfold overruns_def)
  next
    case (2 offset)
    from len 2(3) show ?thesis
    proof (cases rule: payload_end_cases [of d offset "d ! 0"])
      case 1
      have "\<not> (d ! 0 AND 0x20 \<noteq> 0 \<and> length d < unat (last d) \<and> length d < offset)"
        using 1 len 2(3) unat_less [of "last d"]
        by (auto simp: payload_end_eq minus_size_def split: if_splits)
      with True 1 2(1) show ?thesis by (simp add: parse_rtp_unfold overruns_def)
    next
      case (2 e)
      with True \<open>payload_offset d (d ! 0) = Some (Some offset)\<close> show ?thesis
        by (cases "offset \<le> e") (auto simp: parse_rtp_unfold parse_rtp_fields_in overruns_def)
    qed
  qed
qed

lemma parse_rtp_payload:
  assumes "parse_rtp d = Some (Some p)"
  shows "\<exists>offset e. kRtpHeaderSize \<le> offset \<and> offset \<le> e \<and> e \<le> length d \<and>
    payload p = take (e - offset) (drop offset d)"
proof -
  from assms have len: "kRtpHeaderSize \<le> length d"
    by (auto simp: parse_rtp_def split: if_splits)
  with assms obtain offset e where o: "payload_offset d (d ! 0) = Some (Some offset)"
    and e: "offset \<le> e" "parse_rtp_fields d (d ! 1) offset e = Some p"
    by (auto simp del: One_nat_def simp: parse_rtp_unfold not_less split: if_splits option.splits)
  moreover from e have "e \<le> length d"
    using parse_rtp_fields_in(1) [OF len e(1), of "d ! 1"] by simp
  moreover from o have "kRtpHeaderSize \<le> offset"
    by (cases rule: payload_offset_cases [of d "d ! 0"]) simp_all
  ultimately show ?thesis using parse_rtp_fields_in(2) [OF len e(1)] by blast
qed

section \<open>What is written is read back\<close>

lemma bit_byte_field:
  fixes w :: "'a :: len word"
  assumes "n < LENGTH('a)"
  shows "bit (push_bit k (ucast (ucast (drop_bit k w) :: byte)) :: 'a word) n \<longleftrightarrow> k \<le> n \<and> n < k + 8 \<and> bit w n"
  using assms by (auto simp: bit_simps)

lemma bit_byte_low:
  fixes w :: "'a :: len word"
  assumes "n < LENGTH('a)"
  shows "bit (ucast (ucast w :: byte) :: 'a word) n \<longleftrightarrow> n < 8 \<and> bit w n"
  using assms by (auto simp: bit_simps)

lemma join16: "push_bit 8 (ucast (ucast (drop_bit 8 w) :: byte)) OR ucast (ucast w :: byte) = (w :: u16)"
  by (rule bit_word_eqI) (auto simp: bit_or_iff bit_byte_field bit_byte_low)

lemma join32:
  "push_bit 24 (ucast (ucast (drop_bit 24 w) :: byte)) OR push_bit 16 (ucast (ucast (drop_bit 16 w) :: byte)) OR
   push_bit 8 (ucast (ucast (drop_bit 8 w) :: byte)) OR ucast (ucast w :: byte) = (w :: u32)"
  by (rule bit_word_eqI) (auto simp: bit_or_iff bit_byte_field bit_byte_low)

text \<open>A header that fits its fields and cannot be taken for RTCP.\<close>

definition valid_rtp_header :: "rtp_header \<Rightarrow> bool" where
  "valid_rtp_header h \<longleftrightarrow>
     payload_type h < 128 \<and> \<not> (marker h \<and> 72 \<le> payload_type h \<and> payload_type h \<le> 76)"

lemma and_7f: "w < 128 \<Longrightarrow> w AND 0x7f = (w :: byte)"
proof -
  assume "w < 128"
  then have "unat w < 2 ^ 7" by (simp add: word_less_nat_alt)
  then have "take_bit 7 w = w"
    by (intro unsigned_word_eqI [where ?'a = nat]) (simp add: unsigned_take_bit_eq take_bit_nat_eq_self)
  then show ?thesis using take_bit_eq_mask [of 7 w] by (simp add: mask_eq_exp_minus_1)
qed

lemma second_byte:
  assumes "valid_rtp_header h"
  defines "b \<equiv> (if marker h then 0x80 else 0) OR (payload_type h AND 0x7f)"
  shows "b AND 0x7f = payload_type h" and "b AND 0x80 \<noteq> 0 \<longleftrightarrow> marker h" and "\<not> (200 \<le> b \<and> b \<le> 204)"
proof -
  let ?t = "payload_type h"
  have t: "?t AND 0x7f = ?t" using assms(1) by (simp add: and_7f valid_rtp_header_def)
  have t0: "?t AND 0x80 = 0"
    using and.assoc [of ?t "0x7f" "0x80"] unfolding t by simp
  show "b AND 0x7f = ?t" and "b AND 0x80 \<noteq> 0 \<longleftrightarrow> marker h"
    unfolding b_def t by (simp_all add: bit.conj_disj_distrib2 t t0)
  have "0x80 AND ?t = 0" using t0 by (simp add: and.commute)
  then have "0x80 OR ?t = 0x80 + ?t" by (simp add: disjunctive_add_eq_or)
  moreover have "unat (0x80 + ?t) = 128 + unat ?t"
    using assms(1) by (subst unat_add_lem [THEN iffD1]) (auto simp: valid_rtp_header_def word_less_nat_alt)
  ultimately show "\<not> (200 \<le> b \<and> b \<le> 204)"
    using assms(1) unfolding b_def t
    by (auto simp: valid_rtp_header_def word_less_nat_alt word_le_nat_alt)
qed

lemma length_rtp_bytes [simp]: "length (rtp_bytes h) = kRtpHeaderSize"
  by (simp add: rtp_bytes_def)

lemma rtp_bytes_list:
  "rtp_bytes h =
     [0x80, (if marker h then 0x80 else 0) OR (payload_type h AND 0x7f),
      ucast (drop_bit 8 (sequence h)), ucast (sequence h),
      ucast (drop_bit 24 (timestamp h)), ucast (drop_bit 16 (timestamp h)),
      ucast (drop_bit 8 (timestamp h)), ucast (timestamp h),
      ucast (drop_bit 24 (ssrc h)), ucast (drop_bit 16 (ssrc h)), ucast (drop_bit 8 (ssrc h)), ucast (ssrc h)]"
  by (simp add: rtp_bytes_def upt_rec)

lemma parse_rtp_bytes:
  assumes "valid_rtp_header h"
  shows "parse_rtp (rtp_bytes h @ body) = Some (Some \<lparr>header = h, payload = body\<rparr>)"
proof -
  let ?d = "rtp_bytes h @ body"
  note d = rtp_bytes_list [of h]
  have first: "?d ! 0 = 0x80" and second: "?d ! 1 = (if marker h then 0x80 else 0) OR (payload_type h AND 0x7f)"
    by (simp_all add: d)
  have "read16 ?d 2 = Some (sequence h)" and "read32 ?d 4 = Some (timestamp h)" and "read32 ?d 8 = Some (ssrc h)"
    by (simp_all add: d read16_def read32_def byte_at_def join16 join32)
  moreover have "subspan ?d 12 (minus_size (length ?d) 12) = Some body"
    by (simp add: subspan_def minus_size_def)
  ultimately have "parse_rtp_fields ?d (?d ! 1) 12 (length ?d) = Some \<lparr>header = h, payload = body\<rparr>"
    unfolding parse_rtp_fields_def second using second_byte [OF assms] by simp
  moreover have "payload_offset ?d 0x80 = Some (Some 12)" by (simp add: payload_offset_def)
  moreover have "payload_end ?d 0x80 12 = Some (Some (length ?d))" by (simp add: payload_end_def)
  ultimately show ?thesis
    using parse_rtp_unfold [of ?d, unfolded first] second second_byte(3) [OF assms] by simp
qed

lemma write_rtp_fits:
  assumes "length out = kRtpHeaderSize + length body"
  shows "write_rtp out h body = (kRtpHeaderSize + length body, rtp_bytes h @ body)"
  using assms by (simp add: write_rtp_def)

interpretation rtp: round_trip
  "\<lambda>p. snd (write_rtp (replicate (kRtpHeaderSize + length (payload p)) 0) (header p) (payload p))"
  "\<lambda>d. Option.bind (parse_rtp d) id" "\<lambda>p. valid_rtp_header (header p)"
  by unfold_locales (simp add: write_rtp_fits parse_rtp_bytes)

section \<open>Extended sequence numbers\<close>

lemma cycle_eq: "x AND NOT 0xffff = x - x mod (65536 :: int)"
proof -
  have "(x AND NOT 0xffff) + (x AND 0xffff) = (x AND NOT 0xffff) OR (x AND 0xffff)"
    by (rule disjunctive_add) (auto simp: bit_simps)
  also have "\<dots> = x" by (rule bit_eqI) (auto simp: bit_simps)
  finally show ?thesis
    using take_bit_eq_mask [of 16 x] by (simp add: take_bit_eq_mod mask_eq_exp_minus_1)
qed

lemma extend_eq:
  "extend_sequence high sq =
     (let e0 = high - high mod 65536 + uint sq;
          e1 = (if e0 - high > 32768 then e0 - 65536 else e0)
      in if high - e1 > 32768 then e1 + 65536 else e1)"
  unfolding extend_sequence_def cycle_eq Let_def ..

lemma extend_nearest:
  shows "extend_sequence high sq mod 65536 = uint sq" and "\<bar>extend_sequence high sq - high\<bar> \<le> 32768"
proof -
  define m where "m = high mod 65536"
  have m: "0 \<le> m" "m < 65536" by (simp_all add: m_def)
  have u: "0 \<le> uint sq" "uint sq < 65536" using uint_lt2p [of sq] by simp_all
  obtain k where k: "extend_sequence high sq = high - m + uint sq + 65536 * k"
    and near: "\<bar>extend_sequence high sq - high\<bar> \<le> 32768"
  proof -
    consider "uint sq - m > 32768" | "m - uint sq > 32768" | "uint sq - m \<le> 32768" "m - uint sq \<le> 32768"
      by linarith
    then show ?thesis
    proof cases
      case 1
      then show ?thesis using that [of "- 1"] m u by (auto simp: extend_eq m_def [symmetric] Let_def)
    next
      case 2
      then show ?thesis using that [of 1] m u by (auto simp: extend_eq m_def [symmetric] Let_def)
    next
      case 3
      then show ?thesis using that [of 0] m u by (auto simp: extend_eq m_def [symmetric] Let_def)
    qed
  qed
  have "(high - m) mod 65536 = 0" by (simp add: m_def minus_mod_eq_mult_div)
  with k u show "extend_sequence high sq mod 65536 = uint sq"
    by (metis add.commute add.left_neutral mod_add_left_eq mod_mult_self2 mod_pos_pos_trivial)
  show "\<bar>extend_sequence high sq - high\<bar> \<le> 32768" by (rule near)
qed

lemma extend_unique:
  assumes "\<bar>i - high\<bar> < 32768"
  shows "extend_sequence high (word_of_int i) = i"
proof -
  let ?e = "extend_sequence high (word_of_int i)"
  have "?e mod 65536 = i mod 65536" using extend_nearest(1) [of high "word_of_int i"] by (simp add: uint_word_of_int)
  then have "65536 dvd ?e - i" by (simp add: mod_eq_dvd_iff)
  moreover have "\<bar>?e - i\<bar> < 65536" using assms extend_nearest(2) [of high "word_of_int i"] by linarith
  ultimately have "?e - i = 0" using zdvd_imp_le [of 65536 "\<bar>?e - i\<bar>"] by (cases "?e - i = 0") auto
  then show ?thesis by simp
qed

text \<open>
  The sender's packets are numbered without wrap-around; the receiver sees the low 16 bits. \<^term>\<open>hi\<close> is
  the highest number received so far, and every next one is within \<^verbatim>\<open>kMaxDropout\<close> of it.
\<close>

fun steady :: "int \<Rightarrow> int list \<Rightarrow> bool" where
  "steady hi [] = True"
| "steady hi (i # is) = (\<bar>i - hi\<bar> \<le> kMaxDropout \<and> steady (max hi i) is)"

fun run_statistics :: "receive_statistics \<Rightarrow> (u16 \<times> u32 \<times> u32) list \<Rightarrow> int list \<times> receive_statistics" where
  "run_statistics r [] = ([], r)"
| "run_statistics r ((sq, ts, arrival) # ps) =
     (let (e, r1) = on_packet r sq ts arrival; (es, r2) = run_statistics r1 ps in (e # es, r2))"

definition tracks :: "receive_statistics \<Rightarrow> int \<Rightarrow> int \<Rightarrow> int \<Rightarrow> nat \<Rightarrow> bool" where
  "tracks r c first hi n \<longleftrightarrow>
     started r \<and> base r = c + first \<and> highest r = c + hi \<and> received r = n \<and> c mod 65536 = 0"

lemma track_jitter_frame [frame_simps]:
  "started (track_jitter r ts a) = started r" "base (track_jitter r ts a) = base r"
  "highest (track_jitter r ts a) = highest r" "received (track_jitter r ts a) = received r"
  by (simp_all add: track_jitter_def Let_def)

lemma word_of_int_shift: "c mod 65536 = 0 \<Longrightarrow> (word_of_int i :: u16) = word_of_int (c + i)"
proof -
  assume "c mod 65536 = 0"
  then have "(c + i) mod 65536 = i mod 65536" using mod_add_left_eq [of c 65536 i] by simp
  then have "take_bit 16 i = take_bit 16 (c + i)" by (simp only: take_bit_eq_mod) simp
  then show ?thesis by (simp only: word_of_int_eq_iff) simp
qed

lemma on_packet_tracks:
  assumes "tracks r c first hi n" and "\<bar>i - hi\<bar> \<le> kMaxDropout"
  shows "fst (on_packet r (word_of_int i) ts arrival) = c + i"
    and "tracks (snd (on_packet r (word_of_int i) ts arrival)) c first (max hi i) (Suc n)"
proof -
  have "extend_sequence (highest r) (word_of_int (c + i)) = c + i"
    by (rule extend_unique) (use assms in \<open>simp add: tracks_def\<close>)
  moreover have "(word_of_int i :: u16) = word_of_int (c + i)"
    using assms(1) by (intro word_of_int_shift) (simp add: tracks_def)
  ultimately have "extend_sequence (highest r) (word_of_int i) = c + i" by (simp only:)
  then show "fst (on_packet r (word_of_int i) ts arrival) = c + i"
    and "tracks (snd (on_packet r (word_of_int i) ts arrival)) c first (max hi i) (Suc n)"
    using assms
    by (auto simp: on_packet_def track_sequence_def tracks_def frame_simps Let_def split: if_splits)
qed

lemma run_statistics_tracks:
  assumes "tracks r c first hi n" and "steady hi (map fst ps)"
  shows "fst (run_statistics r (map (\<lambda>(i, ts, a). (word_of_int i, ts, a)) ps)) = map (\<lambda>p. c + fst p) ps"
    and "tracks (snd (run_statistics r (map (\<lambda>(i, ts, a). (word_of_int i, ts, a)) ps))) c first
      (fold max (map fst ps) hi) (n + length ps)"
  using assms
proof (induction ps arbitrary: r hi n)
  case Nil
  { case 1 then show ?case by simp next case 2 then show ?case by simp }
next
  case (Cons p ps)
  obtain i ts a where p: "p = (i, ts, a)" by (cases p)
  { case 1
    with Cons.IH(1) p on_packet_tracks [of r c first hi n i ts a] show ?case
      by (simp add: case_prod_unfold Let_def)
  next
    case 2
    with Cons.IH(2) [of _ "max hi i" "Suc n"] p on_packet_tracks [of r c first hi n i ts a] show ?case
      by (simp add: case_prod_unfold Let_def max.commute) }
qed

lemma first_packet_tracks:
  "fst (on_packet new_statistics (word_of_int i) ts a) = i mod 65536"
  "tracks (snd (on_packet new_statistics (word_of_int i) ts a)) (i mod 65536 - i) i i 1"
proof -
  have "(i mod 65536 - i) mod 65536 = 0" by (simp add: mod_diff_left_eq)
  then show "fst (on_packet new_statistics (word_of_int i) ts a) = i mod 65536"
    and "tracks (snd (on_packet new_statistics (word_of_int i) ts a)) (i mod 65536 - i) i i 1"
    by (simp_all add: on_packet_def track_sequence_def new_statistics_def tracks_def frame_simps uint_word_of_int)
qed

section \<open>Properties\<close>

text \<open>
  C29: a packet that fits its buffer is written so that the parser gives back the header and the
  payload, for every header the sender can use: a 7-bit payload type that does not look like RTCP.
\<close>

theorem parse_written_rtp:
  assumes "valid_rtp_header h" and "kRtpHeaderSize + length body \<le> length out"
  shows "fst (write_rtp out h body) = kRtpHeaderSize + length body \<and>
    parse_rtp (take (fst (write_rtp out h body)) (snd (write_rtp out h body))) =
      Some (Some \<lparr>header = h, payload = body\<rparr>)"
  using assms by (simp add: write_rtp_def parse_rtp_bytes Let_def)

theorem parse_written_rtp_witness:
  "parse_rtp (take 15 (snd (write_rtp (replicate 20 0)
     \<lparr>payload_type = 8, marker = True, sequence = 0xffff, timestamp = 1, ssrc = 0xdeadbeef\<rparr> [1, 2, 3]))) =
   Some (Some \<lparr>header = \<lparr>payload_type = 8, marker = True, sequence = 0xffff, timestamp = 1, ssrc = 0xdeadbeef\<rparr>,
     payload = [1, 2, 3]\<rparr>)"
  using parse_written_rtp [of "\<lparr>payload_type = 8, marker = True, sequence = 0xffff, timestamp = 1, ssrc = 0xdeadbeef\<rparr>"
      "[1, 2, 3]" "replicate 20 0"]
  by (auto simp: valid_rtp_header_def)

text \<open>
  C30: where the parser reads. It stays inside the datagram on every input but one kind, and then a
  packet it returns has as its payload a part of the datagram behind the fixed header. The exception
  is a datagram with the padding bit whose CSRCs or extension reach past its end and whose last byte
  is larger than its size: the subtractions of sizes wrap around and the check does not catch it.
\<close>

theorem parse_rtp_reads:
  "(parse_rtp d = None \<longleftrightarrow> overruns d) \<and>
   (case parse_rtp d of
      Some (Some p) \<Rightarrow> \<exists>offset e. kRtpHeaderSize \<le> offset \<and> offset \<le> e \<and> e \<le> length d \<and>
        payload p = take (e - offset) (drop offset d)
    | _ \<Rightarrow> True)"
  using parse_rtp_None_iff [of d] parse_rtp_payload [of d] by (auto split: option.splits)

text \<open>
  The exception exists. This datagram of twelve bytes, PCMA with fifteen CSRCs announced and none
  present, makes the parser form a payload outside the datagram instead of refusing it.
\<close>

theorem parse_rtp_overrun: "parse_rtp [0xaf, 0x08, 0, 0, 0, 0, 0, 0, 0, 0, 0, 0xff] = None"
proof -
  have "overruns [0xaf, 0x08, 0, 0, 0, 0, 0, 0, 0, 0, 0, 0xff]"
    by (simp add: overruns_def payload_offset_def)
  then show ?thesis by (simp add: parse_rtp_None_iff)
qed

text \<open>
  Extended sequence numbers. Let the sender number its packets without wrap-around, starting
  anywhere, and let packets be lost, repeated or reordered, each within 3000 of the highest number
  received before it. Then the extended numbers the receiver computes from the low 16 bits differ from
  the sender's by a constant, across any number of wraps, and \<^verbatim>\<open>lost()\<close> is the number expected minus the
  number received.
\<close>

theorem extended_sequence_tracks:
  assumes "steady i (map fst ps)"
  shows "case run_statistics new_statistics (map (\<lambda>(i, ts, a). (word_of_int i, ts, a)) ((i, ts, a) # ps)) of
    (extended, r) \<Rightarrow>
      extended = map (\<lambda>p. fst p + (i mod 65536 - i)) ((i, ts, a) # ps) \<and>
      lost r = nat (fold max (map fst ps) i - i + 1 - int (length ps + 1))"
proof -
  let ?r = "snd (on_packet new_statistics (word_of_int i) ts a)" and ?c = "i mod 65536 - i"
  let ?ws = "map (\<lambda>(i, ts, a). (word_of_int i, ts, a)) ps"
  have t: "tracks (snd (run_statistics ?r ?ws)) ?c i (fold max (map fst ps) i) (1 + length ps)"
    by (rule run_statistics_tracks(2) [OF first_packet_tracks(2) assms])
  then have "lost (snd (run_statistics ?r ?ws)) = nat (fold max (map fst ps) i - i + 1 - int (length ps + 1))"
    by (auto simp: lost_def tracks_def Let_def)
  then show ?thesis
    using run_statistics_tracks(1) [OF first_packet_tracks(2) assms, of ts a] first_packet_tracks(1) [of i ts a]
    by (simp add: case_prod_unfold Let_def add.commute)
qed

theorem extended_sequence_tracks_witness:
  "fst (run_statistics new_statistics (map (\<lambda>(i, ts, a). (word_of_int i, ts, a))
     [(65535, 0, 0), (65537, 320, 320), (65536, 160, 330)])) = [65535, 65537, 65536]"
  using extended_sequence_tracks [of 65535 "[(65537, 320, 320), (65536, 160, 330)]" 0 0]
  by (simp add: case_prod_unfold)

end
