(* ===== verification/Spsc_Ring.thy ===== *)
theory Spsc_Ring
  imports Prelude
begin

text \<open>
  \<^verbatim>\<open>src/media/spsc_ring.hpp\<close>: the ring of samples between the network thread and the audio thread.
  The indices are 64-bit words that grow without bound and wrap around.

  First the operations as functions, which the media session uses, shown to be those of a bounded
  queue (the locale \<^verbatim>\<open>bounded_fifo\<close>). Then the two threads as a step relation: each load, each access
  to a cell and each store of an index is a step, and the steps of the producer and of the consumer
  interleave in any way. The invariant gives that no cell is ever accessed by both sides at once and
  that the consumer gets what the producer wrote, in order.
\<close>

section \<open>The operations\<close>

record 'a ring =
  cells :: "'a list"
  mask_bits :: u64
  write_ix :: u64
  read_ix :: u64

text \<open>The capacity, as the exponent of the power of two the constructor's loop arrives at.\<close>

function capacity_exponent :: "nat \<Rightarrow> nat \<Rightarrow> nat" where
  "capacity_exponent k minimum = (if 2 ^ k < minimum + 1 then capacity_exponent (k + 1) minimum else k)"
  by pat_completeness auto

termination capacity_exponent
proof (relation "measure (\<lambda>(k, minimum). minimum + 1 - 2 ^ k)")
  fix k minimum :: nat
  assume "2 ^ k < minimum + 1"
  moreover have "(2 :: nat) ^ k < 2 ^ (k + 1)" by simp
  ultimately show "((k + 1, minimum), k, minimum) \<in> measure (\<lambda>(k, minimum). minimum + 1 - 2 ^ k)"
    by (simp del: power_Suc add: diff_less_mono2)
qed simp

declare capacity_exponent.simps [simp del]

definition new_ring :: "'a \<Rightarrow> nat \<Rightarrow> 'a ring" where
  "new_ring zero minimum =
     (let k = capacity_exponent 0 minimum
      in \<lparr>cells = replicate (2 ^ k) zero, mask_bits = 2 ^ k - 1, write_ix = 0, read_ix = 0\<rparr>)"

definition ring_capacity :: "'a ring \<Rightarrow> nat" where
  "ring_capacity r = unat (mask_bits r)"

definition ring_size :: "'a ring \<Rightarrow> nat" where
  "ring_size r = unat ((write_ix r - read_ix r) AND mask_bits r)"

text \<open>The cell an index stands for.\<close>

definition slot :: "'a ring \<Rightarrow> u64 \<Rightarrow> nat \<Rightarrow> nat" where
  "slot r index i = unat ((index + of_nat i) AND mask_bits r)"

fun write_cells :: "'a ring \<Rightarrow> u64 \<Rightarrow> nat \<Rightarrow> 'a list \<Rightarrow> 'a list \<Rightarrow> 'a list" where
  "write_cells r index i [] cs = cs"
| "write_cells r index i (v # vs) cs = write_cells r index (Suc i) vs (cs[slot r index i := v])"

definition push :: "'a ring \<Rightarrow> 'a list \<Rightarrow> nat \<times> 'a ring" where
  "push r values =
     (let space = unat (mask_bits r - ((write_ix r - read_ix r) AND mask_bits r));
          n = min (length values) space
      in (n, r\<lparr>cells := write_cells r (write_ix r) 0 (take n values) (cells r),
               write_ix := write_ix r + of_nat n\<rparr>))"

definition pop :: "'a ring \<Rightarrow> nat \<Rightarrow> 'a list \<times> 'a ring" where
  "pop r count =
     (let n = min count (unat ((write_ix r - read_ix r) AND mask_bits r))
      in (map (\<lambda>i. cells r ! slot r (read_ix r) i) [0..<n], r\<lparr>read_ix := read_ix r + of_nat n\<rparr>))"

definition discard :: "'a ring \<Rightarrow> 'a ring" where
  "discard r = r\<lparr>read_ix := write_ix r\<rparr>"

section \<open>Bounded queues\<close>

text \<open>
  The contract the media session relies on: a queue of bounded capacity, of which \<^term>\<open>put\<close> takes as
  much as fits, \<^term>\<open>get\<close> gives as much as there is, in order, and \<^term>\<open>clear\<close> drops everything.
\<close>

locale bounded_fifo =
  fixes inv :: "'s \<Rightarrow> bool" and contents :: "'s \<Rightarrow> 'a list" and cap :: "'s \<Rightarrow> nat"
    and put :: "'s \<Rightarrow> 'a list \<Rightarrow> nat \<times> 's" and get :: "'s \<Rightarrow> nat \<Rightarrow> 'a list \<times> 's" and clear :: "'s \<Rightarrow> 's"
  assumes bounded: "inv s \<Longrightarrow> length (contents s) \<le> cap s"
    and put: "inv s \<Longrightarrow> fst (put s vs) = min (length vs) (cap s - length (contents s)) \<and>
      inv (snd (put s vs)) \<and> cap (snd (put s vs)) = cap s \<and>
      contents (snd (put s vs)) = contents s @ take (fst (put s vs)) vs"
    and get: "inv s \<Longrightarrow> fst (get s n) = take n (contents s) \<and> inv (snd (get s n)) \<and>
      cap (snd (get s n)) = cap s \<and> contents (snd (get s n)) = drop n (contents s)"
    and clear: "inv s \<Longrightarrow> inv (clear s) \<and> cap (clear s) = cap s \<and> contents (clear s) = []"
begin

lemma put_fits:
  "inv s \<Longrightarrow> length (contents s) + length vs \<le> cap s \<Longrightarrow> contents (snd (put s vs)) = contents s @ vs"
  using put [of s vs] by simp

lemma get_all: "inv s \<Longrightarrow> length (contents s) \<le> n \<Longrightarrow> fst (get s n) = contents s \<and> contents (snd (get s n)) = []"
  using get [of s n] by simp

lemma put_get:
  "inv s \<Longrightarrow> contents s = [] \<Longrightarrow> length vs \<le> cap s \<Longrightarrow> fst (get (snd (put s vs)) (length vs)) = vs"
  using put [of s vs] get [of "snd (put s vs)" "length vs"] by simp

end

section \<open>The ring is a bounded queue\<close>

lemma unat_and_mask:
  fixes w :: u64
  assumes "k \<le> 63"
  shows "unat (w AND (2 ^ k - 1)) = unat w mod 2 ^ k"
proof -
  have "w AND (2 ^ k - 1) = take_bit k w" by (simp only: take_bit_eq_mask mask_eq_exp_minus_1)
  moreover have "unat (take_bit k w) = unat w mod 2 ^ k"
    by (simp only: unsigned_take_bit_eq) (simp only: take_bit_eq_mod)
  ultimately show ?thesis by (simp only:)
qed

lemma mod_pow2_cancel: "k \<le> 63 \<Longrightarrow> (n mod 2 ^ 64) mod 2 ^ k = n mod (2 :: nat) ^ k"
  by (rule mod_mod_cancel, rule le_imp_power_dvd) simp

text \<open>
  The indices of a ring as counters that do not wrap: \<^term>\<open>R\<close> values were taken and \<^term>\<open>W\<close> written.
\<close>

definition ring_at :: "'a ring \<Rightarrow> nat \<Rightarrow> nat \<Rightarrow> nat \<Rightarrow> bool" where
  "ring_at r k R W \<longleftrightarrow>
     k \<le> 63 \<and> length (cells r) = 2 ^ k \<and> mask_bits r = 2 ^ k - 1 \<and>
     write_ix r = of_nat W \<and> read_ix r = of_nat R \<and> R \<le> W \<and> W - R < 2 ^ k"

definition ring_ok :: "'a ring \<Rightarrow> bool" where
  "ring_ok r \<longleftrightarrow>
     (\<exists>k \<le> 63. length (cells r) = 2 ^ k \<and> mask_bits r = 2 ^ k - 1 \<and>
       unat (write_ix r - read_ix r) < 2 ^ k)"

definition ring_contents :: "'a ring \<Rightarrow> 'a list" where
  "ring_contents r = map (\<lambda>i. cells r ! slot r (read_ix r) i) [0..<unat (write_ix r - read_ix r)]"

lemma ring_ok_at:
  assumes "ring_ok r"
  obtains k R W where "ring_at r k R W"
proof -
  from assms obtain k where k: "k \<le> 63" "length (cells r) = 2 ^ k" "mask_bits r = 2 ^ k - 1"
    "unat (write_ix r - read_ix r) < 2 ^ k" by (auto simp: ring_ok_def)
  then have "ring_at r k (unat (read_ix r)) (unat (read_ix r) + unat (write_ix r - read_ix r))"
    by (simp add: ring_at_def)
  then show ?thesis by (rule that)
qed

lemma ring_at_distance:
  assumes "ring_at r k R W"
  shows "unat (write_ix r - read_ix r) = W - R"
proof -
  have "write_ix r - read_ix r = of_nat (W - R)" using assms by (simp add: ring_at_def of_nat_diff)
  moreover have "(2 :: nat) ^ k \<le> 2 ^ 63" using assms by (intro power_increasing) (auto simp: ring_at_def)
  then have "W - R < 2 ^ 64" using assms by (simp add: ring_at_def)
  ultimately show ?thesis by (simp add: unsigned_of_nat take_bit_nat_eq_self)
qed

lemma ring_at_ok: "ring_at r k R W \<Longrightarrow> ring_ok r"
  using ring_at_distance [of r k R W] by (auto simp: ring_at_def ring_ok_def)

lemma ring_at_size: "ring_at r k R W \<Longrightarrow> ring_size r = W - R"
proof -
  assume r: "ring_at r k R W"
  then have "ring_size r = unat (write_ix r - read_ix r) mod 2 ^ k"
    by (simp only: ring_size_def ring_at_def unat_and_mask)
  then show ?thesis unfolding ring_at_distance [OF r] using r by (simp add: ring_at_def)
qed

lemma ring_at_slot: "ring_at r k R W \<Longrightarrow> slot r (of_nat j) i = (j + i) mod 2 ^ k"
proof -
  assume r: "ring_at r k R W"
  have "of_nat j + of_nat i = (of_nat (j + i) :: u64)" by simp
  then have "slot r (of_nat j) i = unat (of_nat (j + i) :: u64) mod 2 ^ k"
    using r by (simp only: slot_def ring_at_def unat_and_mask)
  also have "\<dots> = ((j + i) mod 2 ^ 64) mod 2 ^ k" by (simp only: unsigned_of_nat take_bit_eq_mod) simp
  finally show ?thesis using r mod_pow2_cancel [of k "j + i"] by (simp add: ring_at_def)
qed

lemma ring_at_contents: "ring_at r k R W \<Longrightarrow> ring_contents r = map (\<lambda>j. cells r ! (j mod 2 ^ k)) [R..<W]"
proof -
  assume r: "ring_at r k R W"
  then have "ring_contents r = map (\<lambda>i. cells r ! ((R + i) mod 2 ^ k)) [0..<W - R]"
    using ring_at_distance [OF r] ring_at_slot [OF r, of R] by (simp add: ring_contents_def ring_at_def)
  also have "\<dots> = map (\<lambda>j. cells r ! (j mod 2 ^ k)) (map (\<lambda>i. i + R) [0..<W - R])"
    by (simp add: add.commute)
  also have "map (\<lambda>i. i + R) [0..<W - R] = [R..<W]"
    using r map_add_upt [of R "W - R"] by (simp add: ring_at_def)
  finally show ?thesis .
qed

lemma ring_at_capacity: "ring_at r k R W \<Longrightarrow> ring_capacity r = 2 ^ k - 1"
proof -
  assume r: "ring_at r k R W"
  then have "(2 :: nat) ^ k \<le> 2 ^ 63" by (intro power_increasing) (auto simp: ring_at_def)
  moreover have "(2 ^ k - 1 :: u64) = of_nat (2 ^ k - 1)" by (simp add: of_nat_diff)
  then have "ring_capacity r = take_bit 64 (2 ^ k - 1 :: nat)"
    using r by (simp only: ring_capacity_def ring_at_def unsigned_of_nat) simp
  ultimately show ?thesis by (simp add: take_bit_nat_eq_self)
qed

lemma mod_apart: "a < b \<Longrightarrow> b - a < M \<Longrightarrow> a mod M \<noteq> b mod (M :: nat)"
  by (metis less_imp_le mod_eq_dvd_iff_nat nat_dvd_not_less zero_less_diff)

lemma length_write_cells [simp]: "length (write_cells r index i vs cs) = length cs"
  by (induction r index i vs cs rule: write_cells.induct) simp_all

lemma write_cells_other:
  assumes "ring_at r k R W" and "\<And>j. j < length vs \<Longrightarrow> p \<noteq> (W + i + j) mod 2 ^ k"
  shows "write_cells r (of_nat W) i vs cs ! p = cs ! p"
  using assms(2)
proof (induction vs arbitrary: i cs)
  case Nil
  then show ?case by simp
next
  case (Cons v vs)
  have "p \<noteq> (W + i) mod 2 ^ k" using Cons.prems [of 0] by simp
  moreover have "p \<noteq> (W + Suc i + j) mod 2 ^ k" if "j < length vs" for j
    using Cons.prems [of "Suc j"] that by simp
  ultimately show ?case using Cons.IH ring_at_slot [OF assms(1)] by simp
qed

lemma write_cells_at:
  assumes "ring_at r k R W" and "length cs = 2 ^ k" and "length vs < 2 ^ k" and "j < length vs"
  shows "write_cells r (of_nat W) i vs cs ! ((W + i + j) mod 2 ^ k) = vs ! j"
  using assms(2-)
proof (induction vs arbitrary: i j cs)
  case Nil
  then show ?case by simp
next
  case (Cons v vs)
  note sl = ring_at_slot [OF assms(1), of W i]
  show ?case
  proof (cases j)
    case 0
    have "(W + i) mod 2 ^ k \<noteq> (W + Suc i + j') mod 2 ^ k" if "j' < length vs" for j'
      using that Cons.prems by (intro mod_apart) auto
    then have "write_cells r (of_nat W) (Suc i) vs (cs[(W + i) mod 2 ^ k := v]) ! ((W + i) mod 2 ^ k) =
        cs[(W + i) mod 2 ^ k := v] ! ((W + i) mod 2 ^ k)"
      by (intro write_cells_other [OF assms(1)]) blast
    with 0 Cons.prems sl show ?thesis by simp
  next
    case (Suc j')
    with Cons.IH [of "cs[(W + i) mod 2 ^ k := v]" j' "Suc i"] Cons.prems sl show ?thesis by simp
  qed
qed

lemma ring_at_room: "ring_at r k R W \<Longrightarrow> W - R \<le> 2 ^ k - 1"
proof -
  assume "ring_at r k R W"
  then have "W - R < 2 ^ k" by (simp add: ring_at_def)
  then show ?thesis by linarith
qed

lemma ring_at_space:
  assumes "ring_at r k R W"
  shows "unat (mask_bits r - ((write_ix r - read_ix r) AND mask_bits r)) = 2 ^ k - 1 - (W - R)"
proof -
  let ?u = "(write_ix r - read_ix r) AND mask_bits r"
  have u: "unat ?u = W - R" using ring_at_size [OF assms] by (simp add: ring_size_def)
  have m: "unat (mask_bits r) = 2 ^ k - 1" using ring_at_capacity [OF assms] by (simp add: ring_capacity_def)
  have "?u \<le> mask_bits r" using ring_at_room [OF assms] u m by (simp only: word_le_nat_alt)
  then show ?thesis using u m by (simp add: unat_sub)
qed

lemma push_at:
  assumes "ring_at r k R W" and "n = min (length vs) (2 ^ k - 1 - (W - R))"
  shows "fst (push r vs) = n" and "ring_at (snd (push r vs)) k R (W + n)"
    and "ring_contents (snd (push r vs)) = ring_contents r @ take n vs"
proof -
  let ?r = "snd (push r vs)"
  have w: "write_ix r = of_nat W" and len: "length (cells r) = 2 ^ k" and RW: "R \<le> W" "W - R < 2 ^ k"
    using assms(1) by (simp_all add: ring_at_def)
  have p: "push r vs = (n, r\<lparr>cells := write_cells r (of_nat W) 0 (take n vs) (cells r), write_ix := of_nat W + of_nat n\<rparr>)"
    using ring_at_space [OF assms(1)] assms(2) w by (simp add: push_def Let_def)
  then show "fst (push r vs) = n" by simp
  have "n \<le> 2 ^ k - 1 - (W - R)" and "n \<le> length vs" using assms(2) by simp_all
  then have n: "W + n - R < 2 ^ k" "length (take n vs) = n" "n < 2 ^ k" using RW by simp_all
  with p assms(1) show at: "ring_at ?r k R (W + n)" by (simp add: ring_at_def)
  have "ring_contents ?r = map (\<lambda>j. cells ?r ! (j mod 2 ^ k)) ([R..<W] @ [W..<W + n])"
    using ring_at_contents [OF at] upt_add_eq_append [OF RW(1), of n] by simp
  also have "map (\<lambda>j. cells ?r ! (j mod 2 ^ k)) [R..<W] = ring_contents r"
    unfolding ring_at_contents [OF assms(1)]
  proof (intro map_cong refl)
    fix j assume "j \<in> set [R..<W]"
    then have "j mod 2 ^ k \<noteq> (W + 0 + i) mod 2 ^ k" if "i < length (take n vs)" for i
      using that n by (intro mod_apart) auto
    then show "cells ?r ! (j mod 2 ^ k) = cells r ! (j mod 2 ^ k)"
      using write_cells_other [OF assms(1), of "take n vs" "j mod 2 ^ k" 0] p by simp
  qed
  moreover have "map (\<lambda>j. cells ?r ! (j mod 2 ^ k)) [W..<W + n] = take n vs"
    by (rule nth_equalityI) (use write_cells_at [OF assms(1) len, of "take n vs" _ 0] n p in auto)
  ultimately show "ring_contents ?r = ring_contents r @ take n vs" by simp
qed

lemma pop_at:
  assumes "ring_at r k R W"
  shows "fst (pop r c) = take c (ring_contents r)" and "ring_at (snd (pop r c)) k (R + min c (W - R)) W"
    and "ring_contents (snd (pop r c)) = drop c (ring_contents r)"
proof -
  let ?n = "min c (W - R)" and ?r = "snd (pop r c)"
  have rd: "read_ix r = of_nat R" and RW: "R \<le> W" using assms by (simp_all add: ring_at_def)
  have p: "pop r c = (map (\<lambda>i. cells r ! slot r (of_nat R) i) [0..<?n], r\<lparr>read_ix := of_nat R + of_nat ?n\<rparr>)"
    using ring_at_size [OF assms] rd by (simp add: pop_def ring_size_def Let_def)
  show at: "ring_at ?r k (R + ?n) W" using assms p by (auto simp: ring_at_def)
  have len: "length (ring_contents r) = W - R" using ring_at_contents [OF assms] by simp
  show "fst (pop r c) = take c (ring_contents r)"
    by (rule nth_equalityI) (use p len rd ring_at_distance [OF assms] in \<open>auto simp: ring_contents_def\<close>)
  have "drop c [R..<W] = [R + ?n..<W]" by (simp add: min_def)
  then show "ring_contents ?r = drop c (ring_contents r)"
    using ring_at_contents [OF at] ring_at_contents [OF assms] p by (simp add: drop_map)
qed

lemma discard_at: "ring_at r k R W \<Longrightarrow> ring_at (discard r) k W W"
  by (simp add: ring_at_def discard_def)

lemma ring_fifo_laws:
  assumes "ring_ok r"
  shows "length (ring_contents r) \<le> ring_capacity r"
    and "fst (push r vs) = min (length vs) (ring_capacity r - length (ring_contents r)) \<and>
      ring_ok (snd (push r vs)) \<and> ring_capacity (snd (push r vs)) = ring_capacity r \<and>
      ring_contents (snd (push r vs)) = ring_contents r @ take (fst (push r vs)) vs"
    and "fst (pop r n) = take n (ring_contents r) \<and> ring_ok (snd (pop r n)) \<and>
      ring_capacity (snd (pop r n)) = ring_capacity r \<and> ring_contents (snd (pop r n)) = drop n (ring_contents r)"
    and "ring_ok (discard r) \<and> ring_capacity (discard r) = ring_capacity r \<and> ring_contents (discard r) = []"
proof -
  obtain k R W where at: "ring_at r k R W" using assms by (rule ring_ok_at)
  have len: "length (ring_contents r) = W - R" using ring_at_contents [OF at] by simp
  note cap = ring_at_capacity [OF at]
  show "length (ring_contents r) \<le> ring_capacity r" using ring_at_room [OF at] len cap by simp
  show "fst (push r vs) = min (length vs) (ring_capacity r - length (ring_contents r)) \<and>
      ring_ok (snd (push r vs)) \<and> ring_capacity (snd (push r vs)) = ring_capacity r \<and>
      ring_contents (snd (push r vs)) = ring_contents r @ take (fst (push r vs)) vs"
    using push_at [OF at refl, of vs] len cap ring_at_ok ring_at_capacity by auto
  show "fst (pop r n) = take n (ring_contents r) \<and> ring_ok (snd (pop r n)) \<and>
      ring_capacity (snd (pop r n)) = ring_capacity r \<and> ring_contents (snd (pop r n)) = drop n (ring_contents r)"
    using pop_at [OF at, of n] cap ring_at_ok ring_at_capacity by auto
  show "ring_ok (discard r) \<and> ring_capacity (discard r) = ring_capacity r \<and> ring_contents (discard r) = []"
    using discard_at [OF at] cap ring_at_ok ring_at_capacity ring_at_contents by fastforce
qed

interpretation ring: bounded_fifo ring_ok ring_contents ring_capacity push pop discard
  by unfold_locales (use ring_fifo_laws in \<open>blast+\<close>)

lemma capacity_exponent_spec:
  assumes "minimum < 2 ^ 63" and "k \<le> 63" and "k = 0 \<or> 2 ^ (k - 1) < minimum + 1"
  shows "capacity_exponent k minimum \<le> 63 \<and> minimum < 2 ^ capacity_exponent k minimum"
  using assms
proof (induction k minimum rule: capacity_exponent.induct)
  case (1 k minimum)
  show ?case
  proof (cases "2 ^ k < minimum + 1")
    case True
    have "k \<noteq> 63" using True 1(2) by auto
    with 1 True show ?thesis by (simp add: capacity_exponent.simps [of k])
  next
    case False
    with 1 show ?thesis by (simp add: capacity_exponent.simps [of k])
  qed
qed

lemma new_ring_at:
  assumes "minimum < 2 ^ 63"
  shows "ring_at (new_ring zero minimum) (capacity_exponent 0 minimum) 0 0"
  using capacity_exponent_spec [OF assms, of 0] by (simp add: ring_at_def new_ring_def Let_def)

lemma new_ring_capacity: "minimum < 2 ^ 63 \<Longrightarrow> minimum \<le> ring_capacity (new_ring zero minimum)"
  using capacity_exponent_spec [of minimum 0] ring_at_capacity [OF new_ring_at [of minimum zero]]
  by (simp only: simp_thms) (simp add: Suc_leI less_eq_Suc_le [symmetric] le_diff_conv2)

section \<open>Two threads\<close>

text \<open>
  Where each side is in its operation, with the local variables it has loaded. The histories \<^term>\<open>pushed\<close>
  and \<^term>\<open>taken\<close> record what was published and what was read (or discarded); no step depends on them.
\<close>

datatype 'a producer = PIdle | PWriting u64 nat nat "'a list"

datatype 'a consumer = CIdle | CReading u64 nat nat "'a list" | CDiscarding u64

record 'a threads =
  shared :: "'a ring"
  producer_at :: "'a producer"
  consumer_at :: "'a consumer"
  pushed :: "'a list"
  taken :: "'a list"

inductive ring_step :: "'a threads \<Rightarrow> 'a threads \<Rightarrow> bool" where
  push_load: "producer_at s = PIdle \<Longrightarrow>
    n = min (length vs) (unat (mask_bits (shared s) -
      ((write_ix (shared s) - read_ix (shared s)) AND mask_bits (shared s)))) \<Longrightarrow>
    ring_step s (s\<lparr>producer_at := PWriting (write_ix (shared s)) n 0 vs\<rparr>)"
| push_cell: "producer_at s = PWriting w n i vs \<Longrightarrow> i < n \<Longrightarrow>
    ring_step s (s\<lparr>shared := shared s\<lparr>cells := (cells (shared s))[slot (shared s) w i := vs ! i]\<rparr>,
      producer_at := PWriting w n (Suc i) vs\<rparr>)"
| push_store: "producer_at s = PWriting w n n vs \<Longrightarrow>
    ring_step s (s\<lparr>shared := shared s\<lparr>write_ix := w + of_nat n\<rparr>, producer_at := PIdle,
      pushed := pushed s @ take n vs\<rparr>)"
| pop_load: "consumer_at s = CIdle \<Longrightarrow>
    n = min count (unat ((write_ix (shared s) - read_ix (shared s)) AND mask_bits (shared s))) \<Longrightarrow>
    ring_step s (s\<lparr>consumer_at := CReading (read_ix (shared s)) n 0 []\<rparr>)"
| pop_cell: "consumer_at s = CReading r n i got \<Longrightarrow> i < n \<Longrightarrow>
    ring_step s (s\<lparr>consumer_at := CReading r n (Suc i) (got @ [cells (shared s) ! slot (shared s) r i])\<rparr>)"
| pop_store: "consumer_at s = CReading r n n got \<Longrightarrow>
    ring_step s (s\<lparr>shared := shared s\<lparr>read_ix := r + of_nat n\<rparr>, consumer_at := CIdle, taken := taken s @ got\<rparr>)"
| discard_load: "consumer_at s = CIdle \<Longrightarrow>
    ring_step s (s\<lparr>consumer_at := CDiscarding (write_ix (shared s))\<rparr>)"
| discard_store: "consumer_at s = CDiscarding w \<Longrightarrow>
    ring_step s (s\<lparr>shared := shared s\<lparr>read_ix := w\<rparr>, consumer_at := CIdle,
      taken := taken s @ take (unat (w - read_ix (shared s))) (drop (length (taken s)) (pushed s))\<rparr>)"

definition start_threads :: "'a \<Rightarrow> nat \<Rightarrow> 'a threads" where
  "start_threads zero minimum =
     \<lparr>shared = new_ring zero minimum, producer_at = PIdle, consumer_at = CIdle, pushed = [], taken = []\<rparr>"

definition ring_reachable :: "'a \<Rightarrow> nat \<Rightarrow> 'a threads \<Rightarrow> bool" where
  "ring_reachable zero minimum = ring_step\<^sup>*\<^sup>* (start_threads zero minimum)"

subsection \<open>The invariant\<close>

definition producer_ok :: "nat \<Rightarrow> 'a threads \<Rightarrow> bool" where
  "producer_ok k s \<longleftrightarrow>
     (case producer_at s of
        PIdle \<Rightarrow> True
      | PWriting w n i vs \<Rightarrow>
          w = of_nat (length (pushed s)) \<and> i \<le> n \<and> n \<le> length vs \<and>
          length (pushed s) + n - length (taken s) < 2 ^ k \<and>
          (\<forall>j < i. cells (shared s) ! ((length (pushed s) + j) mod 2 ^ k) = vs ! j))"

definition consumer_ok :: "'a threads \<Rightarrow> bool" where
  "consumer_ok s \<longleftrightarrow>
     (case consumer_at s of
        CIdle \<Rightarrow> True
      | CReading r n i got \<Rightarrow>
          r = of_nat (length (taken s)) \<and> i \<le> n \<and> n \<le> length (pushed s) - length (taken s) \<and>
          got = take i (drop (length (taken s)) (pushed s))
      | CDiscarding w \<Rightarrow> (\<exists>W. w = of_nat W \<and> length (taken s) \<le> W \<and> W \<le> length (pushed s)))"

definition threads_ok :: "nat \<Rightarrow> 'a threads \<Rightarrow> bool" where
  "threads_ok k s \<longleftrightarrow>
     ring_at (shared s) k (length (taken s)) (length (pushed s)) \<and>
     taken s = take (length (taken s)) (pushed s) \<and>
     (\<forall>j. length (taken s) \<le> j \<longrightarrow> j < length (pushed s) \<longrightarrow>
        cells (shared s) ! (j mod 2 ^ k) = pushed s ! j) \<and>
     producer_ok k s \<and> consumer_ok s"

lemma threads_ok_parts:
  assumes "threads_ok k s"
  shows "length (taken s) \<le> length (pushed s)" and "length (pushed s) - length (taken s) < 2 ^ k"
    and "length (cells (shared s)) = 2 ^ k"
    and "write_ix (shared s) = of_nat (length (pushed s))" and "read_ix (shared s) = of_nat (length (taken s))"
  using assms by (simp_all add: threads_ok_def ring_at_def)

lemma threads_frame [frame_simps]:
  "consumer_ok (s\<lparr>shared := x\<rparr>) = consumer_ok s" "consumer_ok (s\<lparr>producer_at := p\<rparr>) = consumer_ok s"
  "producer_ok k (s\<lparr>consumer_at := c\<rparr>) = producer_ok k s"
  by (simp_all add: consumer_ok_def producer_ok_def cong: consumer.case_cong producer.case_cong)

lemma push_cell_ok:
  assumes ok: "threads_ok k s" and p: "producer_at s = PWriting w n i vs" and i: "i < n"
  shows "threads_ok k (s\<lparr>shared := shared s\<lparr>cells := (cells (shared s))[slot (shared s) w i := vs ! i]\<rparr>,
      producer_at := PWriting w n (Suc i) vs\<rparr>)"
proof -
  let ?W = "length (pushed s)" and ?R = "length (taken s)"
  note parts = threads_ok_parts [OF ok]
  have at: "ring_at (shared s) k ?R ?W" using ok by (simp add: threads_ok_def)
  have po: "w = of_nat ?W" "n \<le> length vs" "?W + n - ?R < 2 ^ k"
    "\<forall>j < i. cells (shared s) ! ((?W + j) mod 2 ^ k) = vs ! j"
    using ok p by (simp_all add: threads_ok_def producer_ok_def)
  have sl: "slot (shared s) w i = (?W + i) mod 2 ^ k" using ring_at_slot [OF at] po(1) by simp
  let ?c = "(cells (shared s))[slot (shared s) w i := vs ! i]"
  have old: "?c ! (j mod 2 ^ k) = pushed s ! j" if "?R \<le> j" "j < ?W" for j
  proof -
    have "j mod 2 ^ k \<noteq> (?W + i) mod 2 ^ k" using that po(3) i by (intro mod_apart) auto
    with ok that sl show ?thesis by (simp add: threads_ok_def)
  qed
  have new: "?c ! ((?W + j) mod 2 ^ k) = vs ! j" if "j < Suc i" for j
  proof (cases "j = i")
    case True
    with sl parts(3) show ?thesis by simp
  next
    case False
    with that have "(?W + j) mod 2 ^ k \<noteq> (?W + i) mod 2 ^ k" using po(3) i parts(1) by (intro mod_apart) auto
    with that False po(4) sl show ?thesis by simp
  qed
  show ?thesis
    using ok p i po(1-3) old new
    by (simp add: threads_ok_def ring_at_def frame_simps) (simp add: producer_ok_def)
qed

lemma push_load_ok:
  assumes ok: "threads_ok k s"
    and n: "n = min (length vs) (unat (mask_bits (shared s) -
      ((write_ix (shared s) - read_ix (shared s)) AND mask_bits (shared s))))"
  shows "threads_ok k (s\<lparr>producer_at := PWriting (write_ix (shared s)) n 0 vs\<rparr>)"
proof -
  let ?W = "length (pushed s)" and ?R = "length (taken s)"
  have at: "ring_at (shared s) k ?R ?W" using ok by (simp add: threads_ok_def)
  have "n \<le> 2 ^ k - 1 - (?W - ?R)" and "n \<le> length vs" using n ring_at_space [OF at] by simp_all
  then show ?thesis
    using ok threads_ok_parts [OF ok] by (simp add: threads_ok_def frame_simps) (simp add: producer_ok_def)
qed

lemma push_store_ok:
  assumes ok: "threads_ok k s" and p: "producer_at s = PWriting w n n vs"
  shows "threads_ok k (s\<lparr>shared := shared s\<lparr>write_ix := w + of_nat n\<rparr>, producer_at := PIdle,
      pushed := pushed s @ take n vs\<rparr>)"
proof -
  let ?W = "length (pushed s)" and ?R = "length (taken s)"
  note parts = threads_ok_parts [OF ok]
  have po: "w = of_nat ?W" "n \<le> length vs" "?W + n - ?R < 2 ^ k"
    "\<forall>j < n. cells (shared s) ! ((?W + j) mod 2 ^ k) = vs ! j"
    using ok p by (simp_all add: threads_ok_def producer_ok_def)
  have data: "cells (shared s) ! (j mod 2 ^ k) = (pushed s @ take n vs) ! j" if "?R \<le> j" "j < ?W + n" for j
  proof (cases "j < ?W")
    case True
    with ok that show ?thesis by (simp add: threads_ok_def nth_append)
  next
    case False
    with that po(4) [rule_format, of "j - ?W"] show ?thesis by (simp add: nth_append)
  qed
  have "consumer_ok (s\<lparr>shared := shared s\<lparr>write_ix := w + of_nat n\<rparr>, producer_at := PIdle,
      pushed := pushed s @ take n vs\<rparr>)"
    using ok parts(1) by (auto simp: threads_ok_def consumer_ok_def split: consumer.splits)
  then show ?thesis
    using ok po parts data by (simp add: threads_ok_def ring_at_def frame_simps producer_ok_def)
qed

lemma pop_load_ok:
  assumes ok: "threads_ok k s"
    and n: "n = min count (unat ((write_ix (shared s) - read_ix (shared s)) AND mask_bits (shared s)))"
  shows "threads_ok k (s\<lparr>consumer_at := CReading (read_ix (shared s)) n 0 []\<rparr>)"
proof -
  have "ring_at (shared s) k (length (taken s)) (length (pushed s))" using ok by (simp add: threads_ok_def)
  from ring_at_size [OF this] n have "n \<le> length (pushed s) - length (taken s)" by (simp add: ring_size_def)
  then show ?thesis
    using ok threads_ok_parts [OF ok] by (simp add: threads_ok_def frame_simps) (simp add: consumer_ok_def)
qed

lemma pop_cell_ok:
  assumes ok: "threads_ok k s" and c: "consumer_at s = CReading r n i got" and i: "i < n"
  shows "threads_ok k (s\<lparr>consumer_at := CReading r n (Suc i) (got @ [cells (shared s) ! slot (shared s) r i])\<rparr>)"
proof -
  let ?W = "length (pushed s)" and ?R = "length (taken s)"
  have at: "ring_at (shared s) k ?R ?W" using ok by (simp add: threads_ok_def)
  have co: "r = of_nat ?R" "n \<le> ?W - ?R" "got = take i (drop ?R (pushed s))"
    using ok c by (simp_all add: threads_ok_def consumer_ok_def)
  have "slot (shared s) r i = (?R + i) mod 2 ^ k" using ring_at_slot [OF at] co(1) by simp
  then have "cells (shared s) ! slot (shared s) r i = pushed s ! (?R + i)"
    using ok i co(2) by (simp add: threads_ok_def)
  then have "got @ [cells (shared s) ! slot (shared s) r i] = take (Suc i) (drop ?R (pushed s))"
    using co i by (simp add: take_Suc_conv_app_nth)
  then show ?thesis
    using ok co i by (simp add: threads_ok_def frame_simps) (simp add: consumer_ok_def)
qed

text \<open>Both ways of moving the read index forward.\<close>

lemma stored_index_ok:
  assumes ok: "threads_ok k s" and W: "length (taken s) \<le> W" "W \<le> length (pushed s)"
  shows "threads_ok k (s\<lparr>shared := shared s\<lparr>read_ix := of_nat W\<rparr>, consumer_at := CIdle,
      taken := taken s @ take (W - length (taken s)) (drop (length (taken s)) (pushed s))\<rparr>)"
proof -
  let ?t = "taken s @ take (W - length (taken s)) (drop (length (taken s)) (pushed s))"
  have t: "?t = take W (pushed s)"
    using ok W by (metis append_take_drop_id le_add_diff_inverse take_add threads_ok_def)
  then have l: "length ?t = W" using W by simp
  have "producer_ok k (s\<lparr>shared := shared s\<lparr>read_ix := of_nat W\<rparr>, consumer_at := CIdle, taken := ?t\<rparr>)"
    using ok W l by (auto simp: threads_ok_def producer_ok_def split: producer.splits)
  moreover have "length (pushed s) - W < 2 ^ k"
    using threads_ok_parts(2) [OF ok] W(1) diff_le_mono2 [OF W(1)] order_le_less_trans by blast
  ultimately show ?thesis
    using ok W l t by (simp add: threads_ok_def ring_at_def consumer_ok_def)
qed

lemma discard_distance:
  assumes ok: "threads_ok k s" and W: "length (taken s) \<le> W" "W \<le> length (pushed s)"
  shows "unat (of_nat W - read_ix (shared s)) = W - length (taken s)"
proof -
  have "ring_at (shared s\<lparr>write_ix := of_nat W\<rparr>) k (length (taken s)) W"
    using ok W by (auto simp: threads_ok_def ring_at_def)
  from ring_at_distance [OF this] show ?thesis by simp
qed

lemma ring_step_ok: "ring_step s t \<Longrightarrow> threads_ok k s \<Longrightarrow> threads_ok k t"
proof (induction rule: ring_step.induct)
  case (push_load s n vs)
  then show ?case by (simp add: push_load_ok)
next
  case (push_cell s w n i vs)
  then show ?case by (simp add: push_cell_ok)
next
  case (push_store s w n vs)
  then show ?case by (simp add: push_store_ok)
next
  case (pop_load s n count)
  then show ?case by (simp add: pop_load_ok)
next
  case (pop_cell s r n i got)
  then show ?case by (simp add: pop_cell_ok)
next
  case (pop_store s r n got)
  then have "r = of_nat (length (taken s))" "n \<le> length (pushed s) - length (taken s)"
    "got = take n (drop (length (taken s)) (pushed s))"
    by (auto simp: threads_ok_def consumer_ok_def)
  moreover note threads_ok_parts(1) [OF pop_store(2)]
  ultimately show ?case using stored_index_ok [OF pop_store(2), of "length (taken s) + n"] by simp
next
  case (discard_load s)
  then show ?case
    using threads_ok_parts [OF discard_load(2)]
    by (auto simp: threads_ok_def frame_simps) (auto simp: consumer_ok_def)
next
  case (discard_store s w)
  then obtain W where "w = of_nat W" "length (taken s) \<le> W" "W \<le> length (pushed s)"
    by (auto simp: threads_ok_def consumer_ok_def)
  with stored_index_ok discard_distance discard_store(2) show ?case by fastforce
qed

lemma reachable_ok:
  assumes "minimum < 2 ^ 63" and "ring_reachable zero minimum s"
  shows "threads_ok (capacity_exponent 0 minimum) s"
  using assms(2) unfolding ring_reachable_def
proof (induction rule: rtranclp_induct)
  case base
  then show ?case
    using new_ring_at [OF assms(1), of zero]
    by (simp add: start_threads_def threads_ok_def producer_ok_def consumer_ok_def)
next
  case (step s t)
  then show ?case using ring_step_ok by blast
qed

section \<open>Properties\<close>

text \<open>
  C31: used by one thread at a time, the ring is a bounded queue of the values in it, with its 64-bit
  indices anywhere, including about to wrap: push takes as many values as fit and puts them behind
  the others, pop returns as many as there are from the front, discard empties it.
\<close>

theorem ring_is_bounded_queue:
  assumes "ring_ok r"
  shows "length (ring_contents r) \<le> ring_capacity r \<and>
    ring_contents (snd (push r vs)) =
      ring_contents r @ take (min (length vs) (ring_capacity r - length (ring_contents r))) vs \<and>
    fst (pop r n) = take n (ring_contents r) \<and> ring_contents (snd (pop r n)) = drop n (ring_contents r) \<and>
    ring_contents (discard r) = [] \<and>
    ring_ok (snd (push r vs)) \<and> ring_ok (snd (pop r n)) \<and> ring_ok (discard r)"
  using ring.bounded [OF assms] ring.put [OF assms, of vs] ring.get [OF assms, of n] ring.clear [OF assms] by simp

text \<open>A ring of capacity 3 whose write index has just wrapped around.\<close>

definition wrapped_ring :: "int ring" where
  "wrapped_ring = \<lparr>cells = [7, 0, 0, 6], mask_bits = 3, write_ix = 1, read_ix = 0xffffffffffffffff\<rparr>"

lemma wrapped_ring_ok: "ring_ok wrapped_ring"
  unfolding ring_ok_def by (rule exI [of _ 2]) (simp add: wrapped_ring_def)

theorem ring_is_bounded_queue_witness:
  "fst (pop wrapped_ring 2) = [6, 7] \<and> ring_contents (snd (push wrapped_ring [8, 9])) = [6, 7, 8]"
proof -
  have "ring_contents wrapped_ring = [6, 7]"
    by (simp add: ring_contents_def wrapped_ring_def slot_def upt_rec)
  moreover have "ring_capacity wrapped_ring = 3" by (simp add: ring_capacity_def wrapped_ring_def)
  ultimately show ?thesis
    using ring_is_bounded_queue [OF wrapped_ring_ok, of "[8, 9]" 2] by simp
qed

text \<open>
  C12: between two threads. In every interleaving of the producer's and the consumer's loads, cell
  accesses and stores, what the consumer has taken and what is in the ring is what the producer has
  published, in order and without loss or repetition.
\<close>

theorem ring_threads_in_order:
  assumes "minimum < 2 ^ 63" and "ring_reachable zero minimum s"
  shows "pushed s = taken s @ ring_contents (shared s)"
proof -
  let ?k = "capacity_exponent 0 minimum" and ?R = "length (taken s)" and ?W = "length (pushed s)"
  have ok: "threads_ok ?k s" by (rule reachable_ok [OF assms])
  then have at: "ring_at (shared s) ?k ?R ?W" and t: "taken s = take ?R (pushed s)" by (simp_all add: threads_ok_def)
  have "ring_contents (shared s) = map (\<lambda>j. pushed s ! j) [?R..<?W]"
    unfolding ring_at_contents [OF at] using ok by (auto simp: threads_ok_def)
  also have "\<dots> = drop ?R (pushed s)" by (simp add: nth_drop list_eq_iff_nth_eq)
  finally show ?thesis by (metis t append_take_drop_id)
qed

text \<open>A state in the middle of both operations: one value published, a second being written, the first being read.\<close>

definition midway :: "int threads" where
  "midway = \<lparr>shared = \<lparr>cells = [4, 0, 0, 0], mask_bits = 3, write_ix = 1, read_ix = 0\<rparr>,
     producer_at = PWriting 1 1 0 [5], consumer_at = CReading 0 1 0 [], pushed = [4], taken = []\<rparr>"

lemma midway_reachable: "ring_reachable 0 2 midway"
proof -
  define st :: "int list \<Rightarrow> u64 \<Rightarrow> int producer \<Rightarrow> int consumer \<Rightarrow> int list \<Rightarrow> int threads" where
    "st cs w p c h = \<lparr>shared = \<lparr>cells = cs, mask_bits = 3, write_ix = w, read_ix = 0\<rparr>,
       producer_at = p, consumer_at = c, pushed = h, taken = []\<rparr>" for cs w p c h
  have "capacity_exponent 0 2 = 2" by (simp add: capacity_exponent.simps numeral_2_eq_2)
  then have s0: "start_threads 0 2 = st [0, 0, 0, 0] 0 PIdle CIdle []"
    by (simp add: start_threads_def new_ring_def st_def Let_def numeral_eq_Suc)
  have "ring_step (st [0, 0, 0, 0] 0 PIdle CIdle []) (st [0, 0, 0, 0] 0 (PWriting 0 1 0 [4]) CIdle [])"
    using push_load [of "st [0, 0, 0, 0] 0 PIdle CIdle []" 1 "[4]"] by (simp add: st_def)
  moreover have "ring_step (st [0, 0, 0, 0] 0 (PWriting 0 1 0 [4]) CIdle []) (st [4, 0, 0, 0] 0 (PWriting 0 1 1 [4]) CIdle [])"
    using push_cell [of "st [0, 0, 0, 0] 0 (PWriting 0 1 0 [4]) CIdle []"] by (simp add: st_def slot_def)
  moreover have "ring_step (st [4, 0, 0, 0] 0 (PWriting 0 1 1 [4]) CIdle []) (st [4, 0, 0, 0] 1 PIdle CIdle [4])"
    using push_store [of "st [4, 0, 0, 0] 0 (PWriting 0 1 1 [4]) CIdle []"] by (simp add: st_def)
  moreover have "ring_step (st [4, 0, 0, 0] 1 PIdle CIdle [4]) (st [4, 0, 0, 0] 1 (PWriting 1 1 0 [5]) CIdle [4])"
    using push_load [of "st [4, 0, 0, 0] 1 PIdle CIdle [4]" 1 "[5]"] by (simp add: st_def)
  moreover have "ring_step (st [4, 0, 0, 0] 1 (PWriting 1 1 0 [5]) CIdle [4]) midway"
    using pop_load [of "st [4, 0, 0, 0] 1 (PWriting 1 1 0 [5]) CIdle [4]" 1 1] by (simp add: st_def midway_def)
  ultimately show ?thesis
    unfolding ring_reachable_def s0 by (meson converse_rtranclp_into_rtranclp rtranclp.rtrancl_refl)
qed

theorem ring_threads_in_order_witness: "pushed midway = taken midway @ ring_contents (shared midway)"
  using ring_threads_in_order [OF _ midway_reachable] by simp

text \<open>
  C32: no data race. Whenever the producer is about to write a cell while the consumer is about to
  read one, the cells are different.
\<close>

theorem ring_race_free:
  assumes "minimum < 2 ^ 63" and "ring_reachable zero minimum s"
    and "producer_at s = PWriting w n i vs" and "i < n"
    and "consumer_at s = CReading r m j got" and "j < m"
  shows "slot (shared s) w i \<noteq> slot (shared s) r j"
proof -
  let ?k = "capacity_exponent 0 minimum" and ?R = "length (taken s)" and ?W = "length (pushed s)"
  have ok: "threads_ok ?k s" by (rule reachable_ok [OF assms(1,2)])
  then have at: "ring_at (shared s) ?k ?R ?W" by (simp add: threads_ok_def)
  have "w = of_nat ?W" "?W + n - ?R < 2 ^ ?k" "r = of_nat ?R" "m \<le> ?W - ?R"
    using ok assms(3,5) by (simp_all add: threads_ok_def producer_ok_def consumer_ok_def)
  moreover from this have "(?R + j) mod 2 ^ ?k \<noteq> (?W + i) mod 2 ^ ?k"
    using assms(4,6) by (intro mod_apart) auto
  ultimately show ?thesis using ring_at_slot [OF at] by simp
qed

theorem ring_race_free_witness: "slot (shared midway) 1 0 \<noteq> slot (shared midway) 0 0"
  using ring_race_free [OF _ midway_reachable, of 1 1 0 "[5]" 0 1 0 "[]"] by (simp add: midway_def)

end
