(* ===== verification/G711.thy ===== *)
theory G711
  imports Prelude
begin

text \<open>
  \<^verbatim>\<open>src/media/g711.cpp\<close>: A-law encoding and decoding of single samples and of buffers. A sample is
  an \<^typ>\<open>int\<close> in the range of \<^verbatim>\<open>int16_t\<close>, a code is a byte; the arithmetic in between is on
  \<^verbatim>\<open>int\<close>, which none of it can leave. The lemmas show that every code is stable under decoding and
  encoding again and bound the error of the encoding relative to the sample.
\<close>

definition kSegmentEnd :: "int list" where
  "kSegmentEnd = [0x1f, 0x3f, 0x7f, 0xff, 0x1ff, 0x3ff, 0x7ff, 0xfff]"

text \<open>\<^verbatim>\<open>while (segment < 8 && magnitude > kSegmentEnd[segment]) ++segment;\<close>\<close>

definition segment_of :: "int \<Rightarrow> nat" where
  "segment_of magnitude = length (takeWhile (\<lambda>e. magnitude > e) kSegmentEnd)"

definition alaw_encode :: "int \<Rightarrow> byte" where
  "alaw_encode sample =
     (let magnitude0 = drop_bit 3 sample;
          positive = 0 \<le> magnitude0;
          mask = (if positive then 0xd5 else 0x55);
          magnitude = (if positive then magnitude0 else - magnitude0 - 1);
          segment = segment_of magnitude
      in if 8 \<le> segment then word_of_int (0x7f XOR mask)
         else let code = push_bit 4 (int segment) OR
                (if segment < 2 then drop_bit 1 magnitude AND 0x0f else drop_bit segment magnitude AND 0x0f)
              in word_of_int (code XOR mask))"

text \<open>The conversion to \<^verbatim>\<open>int16_t\<close>.\<close>

definition int16 :: "int \<Rightarrow> int" where
  "int16 x = signed_take_bit 15 x"

definition alaw_decode :: "byte \<Rightarrow> int" where
  "alaw_decode code =
     (let value = uint code XOR 0x55;
          magnitude0 = push_bit 4 (value AND 0x0f);
          segment = nat (drop_bit 4 (value AND 0x70));
          magnitude = (if segment = 0 then magnitude0 + 8 else push_bit (segment - 1) (magnitude0 + 0x108))
      in int16 (if value AND 0x80 \<noteq> 0 then magnitude else - magnitude))"

definition alaw_encode_buffer :: "int list \<Rightarrow> byte list" where
  "alaw_encode_buffer samples = map alaw_encode samples"

definition alaw_decode_buffer :: "byte list \<Rightarrow> int list" where
  "alaw_decode_buffer codes = map alaw_decode codes"

section \<open>The codes\<close>

text \<open>Bit fields of small integers as arithmetic.\<close>

lemma and_15: "x AND 15 = (x mod 16 :: int)"
  using take_bit_eq_mask [of 4 x] by (simp add: take_bit_eq_mod mask_eq_exp_minus_1)

lemma and_7: "x AND 7 = (x mod 8 :: int)"
  using take_bit_eq_mask [of 3 x] by (simp add: take_bit_eq_mod mask_eq_exp_minus_1)

lemma segment_field: "drop_bit 4 (x AND 0x70) = (x div 16) mod (8 :: int)"
proof -
  have "drop_bit 4 (x AND 0x70) = drop_bit 4 x AND 7" by (simp add: drop_bit_and)
  then show ?thesis by (simp add: and_7 drop_bit_eq_div)
qed

lemma sign_field:
  assumes "0 \<le> x" and "x < 256"
  shows "x AND 0x80 \<noteq> 0 \<longleftrightarrow> 128 \<le> (x :: int)"
proof -
  have "x AND 0x80 = 0 \<longleftrightarrow> \<not> bit x 7"
    using and_exp_eq_0_iff_not_bit [of x 7] by simp
  also have "bit x 7 \<longleftrightarrow> odd (x div 128)" by (simp add: bit_iff_odd)
  also have "odd (x div 128) \<longleftrightarrow> 128 \<le> x"
  proof (cases "128 \<le> x")
    case True
    with assms have "x div 128 = 1" by (intro int_div_pos_eq [of _ _ _ "x - 128"]) auto
    with True show ?thesis by simp
  next
    case False
    with assms show ?thesis by simp
  qed
  finally show ?thesis by blast
qed

lemma xor_128:
  assumes "0 \<le> x" and "x < 128"
  shows "x XOR 128 = x + (128 :: int)"
proof -
  have "take_bit 7 x = x" using assms by (simp add: take_bit_int_eq_self)
  then have "x AND 128 = 0"
    using and_exp_eq_0_iff_not_bit [of x 7] bit_take_bit_iff [of 7 x 7] by simp
  then show ?thesis by (simp add: disjunctive_add_eq_xor)
qed

lemma fields_or:
  assumes "0 \<le> q" and "q < 16"
  shows "push_bit 4 s OR q = 16 * s + (q :: int)"
proof -
  have "take_bit 4 q = q" using assms by (simp add: take_bit_int_eq_self)
  then have "4 \<le> n \<Longrightarrow> \<not> bit q n" for n by (metis bit_take_bit_iff not_less)
  then have "push_bit 4 s AND q = 0" by (intro bit_eqI) (auto simp: bit_simps)
  then have "push_bit 4 s OR q = push_bit 4 s + q" by (simp add: disjunctive_add_eq_or)
  then show ?thesis by (simp add: push_bit_eq_mult)
qed

text \<open>The level a segment and a position in it stand for.\<close>

definition level :: "nat \<Rightarrow> int \<Rightarrow> int" where
  "level segment q = (if segment = 0 then 16 * q + 8 else (16 * q + 264) * 2 ^ (segment - 1))"

lemma level_bits:
  "(if s = 0 then push_bit 4 q + 8 else push_bit (s - 1) (push_bit 4 q + 0x108)) = level s q"
  by (simp add: level_def push_bit_eq_mult)

lemma less_8: "s < 8 \<Longrightarrow> s = 0 \<or> s = 1 \<or> s = 2 \<or> s = 3 \<or> s = 4 \<or> s = 5 \<or> s = 6 \<or> s = (7 :: nat)"
  by linarith

lemma level_range:
  assumes "s < 8" and "0 \<le> q" and "q < 16"
  shows "0 < level s q" and "level s q < 32768"
  using less_8 [OF assms(1)] assms(2,3) by (auto simp: level_def)

lemma int16_id: "- 32768 \<le> x \<Longrightarrow> x < 32768 \<Longrightarrow> int16 x = x"
  unfolding int16_def by (rule signed_take_bit_int_eq_self) simp_all

text \<open>The two halves of the code space: what the decoder sees after undoing the even-bit inversion.\<close>

lemma decode_value:
  assumes "uint c XOR 0x55 = v"
  shows "alaw_decode c = (if 128 \<le> v then level (nat (v div 16 mod 8)) (v mod 16)
    else - level (nat (v div 16 mod 8)) (v mod 16))"
proof -
  have "0 \<le> v" unfolding assms [symmetric] by simp
  moreover have "uint c XOR 0x55 < 2 ^ 8"
    by (rule XOR_upper) (use uint_lt2p [of c] in auto)
  ultimately have v: "0 \<le> v" "v < 256" using assms by auto
  let ?s = "nat (v div 16 mod 8)" and ?q = "v mod 16"
  have s: "?s < 8" by (simp add: nat_less_iff)
  define l where "l = level ?s ?q"
  have "0 < l" and "l < 32768" unfolding l_def by (rule level_range [OF s]; simp)+
  then have r: "int16 l = l" "int16 (- l) = - l" by (simp_all add: int16_id)
  show ?thesis
    unfolding alaw_decode_def assms Let_def segment_field sign_field [OF v] and_15 level_bits l_def [symmetric]
    by (cases "128 \<le> v") (simp_all only: if_True if_False r simp_thms)
qed

lemma decode_coded:
  assumes "s < 8" and "0 \<le> q" and "q < 16"
  shows "alaw_decode (word_of_int ((push_bit 4 (int s) OR q) XOR 0xd5)) = level s q"
    and "alaw_decode (word_of_int ((push_bit 4 (int s) OR q) XOR 0x55)) = - level s q"
proof -
  let ?x = "16 * int s + q"
  have x: "0 \<le> ?x" "?x < 128" using assms by auto
  have word: "uint (word_of_int (?x XOR m) :: byte) = ?x XOR m" if "0 \<le> m" "m < 256" for m
  proof -
    have "?x XOR m < 2 ^ 8" by (rule XOR_upper) (use x that in auto)
    moreover have "0 \<le> ?x XOR m" using x that by simp
    ultimately show ?thesis by (simp add: uint_word_of_int take_bit_int_eq_self)
  qed
  have "uint (word_of_int (?x XOR 0xd5) :: byte) XOR 0x55 = ?x + 128"
    unfolding word [of "0xd5", simplified] using xor_128 [OF x] by (simp add: xor.assoc)
  note pos = decode_value [OF this]
  have "uint (word_of_int (?x XOR 0x55) :: byte) XOR 0x55 = ?x"
    unfolding word [of "0x55", simplified] by (simp add: xor.assoc)
  note neg = decode_value [OF this]
  have d: "?x div 16 = int s" "(?x + 128) div 16 = int s + 8"
    using assms by (auto intro: int_div_pos_eq [of _ _ _ q])
  have "?x + 128 = q + 16 * (int s + 8)" by simp
  then have m: "(?x + 128) mod 16 = q" using assms by (simp only: mod_mult_self2) simp
  have m': "?x mod 16 = q" and k: "(int s + 8) mod 8 = int s" "int s mod 8 = int s"
    using assms by auto
  show "alaw_decode (word_of_int ((push_bit 4 (int s) OR q) XOR 0xd5)) = level s q"
    unfolding fields_or [OF assms(2,3)] pos d m k using x by simp
  show "alaw_decode (word_of_int ((push_bit 4 (int s) OR q) XOR 0x55)) = - level s q"
    unfolding fields_or [OF assms(2,3)] neg d m' k using x by simp
qed

section \<open>Encoding\<close>

lemma segment_of_eq:
  "segment_of m = (if m \<le> 31 then 0 else if m \<le> 63 then 1 else if m \<le> 127 then 2 else if m \<le> 255 then 3
     else if m \<le> 511 then 4 else if m \<le> 1023 then 5 else if m \<le> 2047 then 6 else if m \<le> 4095 then 7 else 8)"
  by (simp add: segment_of_def kSegmentEnd_def)

text \<open>The position of a magnitude in its segment.\<close>

definition position :: "int \<Rightarrow> int" where
  "position m = (m div 2 ^ max 1 (segment_of m)) mod 16"

lemma position_range: "0 \<le> position m" "position m < 16"
  by (simp_all add: position_def)

lemma segment_of_range:
  assumes "1 \<le> k" and "k < 8" and "16 * 2 ^ k \<le> m" and "m < 32 * 2 ^ k"
  shows "segment_of m = k"
  using less_8 [OF assms(2)] assms(1,3,4) by (auto simp: segment_of_eq)

lemma segment_of_cases:
  assumes "0 \<le> m" and "m \<le> 4095"
  obtains "m < 32" "segment_of m = 0"
  | k where "1 \<le> k" "k < 8" "16 * 2 ^ k \<le> m" "m < 32 * 2 ^ k" "segment_of m = k"
proof (cases "m < 32")
  case True
  then show ?thesis by (intro that(1)) (simp_all add: segment_of_eq)
next
  case False
  have "1 \<le> segment_of m \<and> segment_of m < 8 \<and> 16 * 2 ^ segment_of m \<le> m \<and> m < 32 * 2 ^ segment_of m"
    using False assms by (simp add: segment_of_eq)
  then show ?thesis using that(2) by blast
qed

lemma place_unique:
  assumes "s < 8" and "0 \<le> q" and "q < 16"
    and "if s = 0 then 2 * q \<le> m \<and> m < 2 * q + 2 else (q + 16) * 2 ^ s \<le> m \<and> m < (q + 17) * 2 ^ s"
  shows "segment_of m = s \<and> position m = q"
proof (cases "s = 0")
  case True
  with assms have "m div 2 = q" by (intro int_div_pos_eq [of _ _ _ "m - 2 * q"]) auto
  with True assms show ?thesis by (simp add: segment_of_eq position_def)
next
  case False
  have "16 * 2 ^ s \<le> (q + 16) * 2 ^ s" and "(q + 17) * 2 ^ s \<le> 32 * 2 ^ s"
    by (rule mult_right_mono; use assms(2,3) in simp)+
  then have "16 * 2 ^ s \<le> m" and "m < 32 * 2 ^ s" using False assms(4) by (simp_all only: if_False) linarith+
  with False assms(1) have seg: "segment_of m = s" by (intro segment_of_range) auto
  have "m div 2 ^ s = q + 16"
    using False assms by (intro int_div_pos_eq [of _ _ _ "m - (q + 16) * 2 ^ s"]) (auto simp: algebra_simps)
  with False assms seg show ?thesis by (simp add: position_def max_def)
qed

text \<open>The level of a magnitude is the middle of the interval it falls into.\<close>

lemma level_middle:
  assumes "0 \<le> m" and "m \<le> 4095"
  defines "w \<equiv> 2 ^ max 1 (segment_of m)"
  shows "level (segment_of m) (position m) = 8 * (m - m mod w) + 4 * w"
  using assms(1,2)
proof (cases rule: segment_of_cases)
  case 1
  with assms(1) have "m div 2 < 16" and "0 \<le> m div 2" by auto
  with 1 show ?thesis
    using minus_mod_eq_mult_div [of m 2] by (simp add: level_def position_def w_def)
next
  case (2 k)
  have "16 \<le> m div 2 ^ k" using 2 zdiv_mono1 [of "16 * 2 ^ k" m "2 ^ k"] by simp
  moreover have "m div 2 ^ k < 32"
  proof (rule ccontr)
    assume "\<not> m div 2 ^ k < 32"
    then have "32 * 2 ^ k \<le> (m div 2 ^ k) * 2 ^ k" by (intro mult_right_mono) auto
    also have "\<dots> = m - m mod 2 ^ k" by (simp only: minus_mod_eq_div_mult)
    also have "\<dots> \<le> m" by simp
    finally show False using 2 by simp
  qed
  ultimately have "m div 2 ^ k mod 16 = m div 2 ^ k - 16"
    by (intro int_mod_pos_eq [of _ _ 1]) auto
  then have "level (segment_of m) (position m) = (16 * (m div 2 ^ k) + 8) * 2 ^ (k - 1)"
    using 2 by (simp add: level_def position_def max_def)
  also have "\<dots> = 8 * (2 ^ k * (m div 2 ^ k)) + 4 * 2 ^ k"
    using power_Suc [of "2 :: int" "k - 1"] 2 by (simp add: algebra_simps)
  finally show ?thesis
    using 2 by (simp add: minus_mod_eq_mult_div w_def max_def)
qed

lemma div_8_neg: "- drop_bit 3 x - 1 = (- x - 1) div (8 :: int)"
  unfolding drop_bit_eq_div
  by (rule sym, rule int_div_pos_eq [of _ _ _ "7 - x mod 8"])
    (use div_mult_mod_eq [of x 8] in \<open>auto simp: algebra_simps\<close>)

lemma magnitude_range:
  fixes x :: int
  assumes "- 32768 \<le> x" and "x < 32768"
  defines "n \<equiv> if 0 \<le> x then x else - x - 1"
  shows "0 \<le> n div 8" and "n div 8 \<le> 4095"
proof -
  show "0 \<le> n div 8" by (simp add: n_def pos_imp_zdiv_nonneg_iff)
  have "n div 8 \<le> 32767 div 8" using assms by (intro zdiv_mono1) auto
  then show "n div 8 \<le> 4095" by simp
qed

lemma encode_code:
  assumes "- 32768 \<le> x" and "x < 32768"
  defines "m \<equiv> (if 0 \<le> x then x else - x - 1) div 8"
  shows "alaw_encode x = word_of_int ((push_bit 4 (int (segment_of m)) OR position m) XOR
      (if 0 \<le> x then 0xd5 else 0x55))"
    and "segment_of m < 8"
proof -
  have m0: "m = (if 0 \<le> drop_bit 3 x then drop_bit 3 x else - drop_bit 3 x - 1)"
    unfolding div_8_neg m_def by (simp add: drop_bit_eq_div)
  from magnitude_range [OF assms(1,2)] show seg: "segment_of m < 8"
    by (simp add: m_def [symmetric] segment_of_eq)
  have "(if segment_of m < 2 then drop_bit 1 m AND 0x0f else drop_bit (segment_of m) m AND 0x0f) = position m"
    by (auto simp: position_def and_15 drop_bit_eq_div max_def less_2_cases_iff)
  with seg show "alaw_encode x = word_of_int ((push_bit 4 (int (segment_of m)) OR position m) XOR
      (if 0 \<le> x then 0xd5 else 0x55))"
    unfolding alaw_encode_def Let_def m0 [symmetric] by simp
qed

lemma decode_encode_level:
  assumes "- 32768 \<le> x" and "x < 32768"
  defines "m \<equiv> (if 0 \<le> x then x else - x - 1) div 8"
  shows "alaw_decode (alaw_encode x) = (if 0 \<le> x then 1 else - 1) * level (segment_of m) (position m)"
  using encode_code [OF assms(1,2), folded m_def] decode_coded [of "segment_of m" "position m"]
    position_range [of m]
  by simp

lemma decode_fields:
  obtains s q where "s < 8" "0 \<le> q" "q < 16" "alaw_decode c = level s q \<or> alaw_decode c = - level s q"
    "c = word_of_int ((push_bit 4 (int s) OR q) XOR (if 0 < alaw_decode c then 0xd5 else 0x55))"
proof -
  define v where "v = uint c XOR 0x55"
  have v0: "0 \<le> v" unfolding v_def by simp
  have "uint c XOR 0x55 < 2 ^ 8" by (rule XOR_upper) (use uint_lt2p [of c] in auto)
  then have v1: "v < 256" by (simp add: v_def)
  define s where "s = nat (v div 16 mod 8)"
  define q where "q = v mod 16"
  have sq: "s < 8" "0 \<le> q" "q < 16" by (simp_all add: s_def q_def nat_less_iff)
  have d: "alaw_decode c = (if 128 \<le> v then level s q else - level s q)"
    unfolding s_def q_def by (rule decode_value) (simp add: v_def)
  with level_range [OF sq] have sign: "0 < alaw_decode c \<longleftrightarrow> 128 \<le> v" by auto
  let ?x = "push_bit 4 (int s) OR q"
  have x: "?x = 16 * int s + q" by (rule fields_or [OF sq(2,3)])
  have x': "?x = v mod 128"
    unfolding x unfolding s_def q_def using zmod_zmult2_eq [of 8 v 16] by simp
  have "v = (if 128 \<le> v then ?x XOR 128 else ?x)"
    using xor_128 [of "v mod 128"] x' v0 v1 mod_pos_pos_trivial [of v 128] int_mod_pos_eq [of v 128 1 "v - 128"]
    by auto
  moreover have "uint c = v XOR 0x55" by (simp add: v_def xor.assoc)
  ultimately have "uint c = (if 128 \<le> v then ?x XOR 128 else ?x) XOR 0x55" by (simp only:)
  then have "uint c = ?x XOR (if 128 \<le> v then 0xd5 else 0x55)" by (simp add: xor.assoc)
  then have "c = word_of_int (?x XOR (if 0 < alaw_decode c then 0xd5 else 0x55))"
    unfolding sign by (metis word_of_int_uint)
  with that [OF sq] d show ?thesis by (auto split: if_splits)
qed

lemma place_level:
  assumes "s < 8" and "0 \<le> q" and "q < 16"
  shows "segment_of (level s q div 8) = s \<and> position (level s q div 8) = q"
    and "segment_of ((level s q - 1) div 8) = s \<and> position ((level s q - 1) div 8) = q"
  by (rule place_unique [OF assms]; use less_8 [OF assms(1)] assms(2,3) in \<open>auto simp: level_def\<close>)+

lemma alaw_encode_decode: "alaw_encode (alaw_decode c) = c"
proof -
  obtain s q where sq: "s < 8" "0 \<le> q" "q < 16"
    and d: "alaw_decode c = level s q \<or> alaw_decode c = - level s q"
    and c: "c = word_of_int ((push_bit 4 (int s) OR q) XOR (if 0 < alaw_decode c then 0xd5 else 0x55))"
    by (rule decode_fields)
  note r = level_range [OF sq] and place = place_level [OF sq]
  let ?x = "alaw_decode c" and ?m = "(if 0 \<le> alaw_decode c then alaw_decode c else - alaw_decode c - 1) div 8"
  have "segment_of ?m = s \<and> position ?m = q" using d r place by auto
  moreover have "0 \<le> ?x \<longleftrightarrow> 0 < ?x" using d r by auto
  ultimately show ?thesis using encode_code(1) [of ?x] d r c by auto
qed

lemma decode_range: "- 32768 < alaw_decode c \<and> alaw_decode c < 32768"
proof -
  obtain s q where "s < 8" "0 \<le> q" "q < 16" "alaw_decode c = level s q \<or> alaw_decode c = - level s q"
    by (rule decode_fields)
  then show ?thesis using level_range [of s q] by auto
qed

lemma level_error:
  assumes "0 \<le> n" and "n < 32768"
  shows "\<bar>level (segment_of (n div 8)) (position (n div 8)) - n\<bar> \<le> max 8 (n div 32)"
    and "\<bar>level (segment_of (n div 8)) (position (n div 8)) - n - 1\<bar> \<le> max 8 ((n + 1) div 32)"
proof -
  define m where "m = n div 8"
  define w :: int where "w = 2 ^ max 1 (segment_of m)"
  define e where "e = m mod w"
  define r where "r = n mod 8"
  define l where "l = level (segment_of m) (position m)"
  have m: "0 \<le> m" "m \<le> 4095" using magnitude_range [of n] assms by (simp_all add: m_def)
  have l: "l = 8 * (m - e) + 4 * w" unfolding l_def w_def e_def by (rule level_middle [OF m])
  have "0 < w" by (simp add: w_def)
  then have e: "0 \<le> e" "e \<le> w - 1" by (simp_all add: e_def)
  have n: "n = 8 * m + r" and r: "0 \<le> r" "r \<le> 7" by (simp_all add: m_def r_def)
  have bound: "w = 2 \<or> 128 * w \<le> n"
    using m
  proof (cases rule: segment_of_cases)
    case 1
    then show ?thesis by (simp add: w_def)
  next
    case (2 k)
    then have "w = 2 ^ k" by (simp add: w_def max_def)
    with 2 n r show ?thesis by linarith
  qed
  then have big: "4 * w \<le> max 8 (n div 32)" "4 * w \<le> max 8 ((n + 1) div 32)"
    using zdiv_mono1 [of "128 * w" n 32] zdiv_mono1 [of "128 * w" "n + 1" 32] by auto
  have "\<bar>l - n\<bar> \<le> 4 * w" and "\<bar>l - n - 1\<bar> \<le> 4 * w"
    using l e n r by (simp_all add: abs_le_iff)
  with big show "\<bar>level (segment_of (n div 8)) (position (n div 8)) - n\<bar> \<le> max 8 (n div 32)"
    and "\<bar>level (segment_of (n div 8)) (position (n div 8)) - n - 1\<bar> \<le> max 8 ((n + 1) div 32)"
    unfolding m_def [symmetric] l_def [symmetric] by (auto intro: order_trans)
qed

section \<open>Properties\<close>

text \<open>
  Decoding a code and encoding the sample again gives the same code, for all 256 codes, so
  audio that passes through several hops is not degraded further; buffers likewise.
\<close>

theorem codes_are_stable: "alaw_encode_buffer (alaw_decode_buffer codes) = codes"
  by (induction codes) (simp_all add: alaw_encode_buffer_def alaw_decode_buffer_def alaw_encode_decode)

text \<open>
  C28: what the far end hears differs from the sample by at most 8, or by 1/32 of the sample's
  size where that is more, for every 16-bit sample.
\<close>

theorem quantisation_error:
  assumes "- 32768 \<le> x" and "x < 32768"
  shows "\<bar>alaw_decode (alaw_encode x) - x\<bar> \<le> max 8 (\<bar>x\<bar> div 32)"
proof (cases "0 \<le> x")
  case True
  with assms decode_encode_level [OF assms] level_error(1) [of x] show ?thesis by simp
next
  case False
  with assms decode_encode_level [OF assms] level_error(2) [of "- x - 1"] show ?thesis
    by (simp add: abs_le_iff)
qed

theorem quantisation_error_witness:
  "\<bar>alaw_decode (alaw_encode (- 20000)) - (- 20000)\<bar> \<le> max 8 (20000 div 32)"
  using quantisation_error [of "- 20000"] by simp

end
