(* ===== verification/Media_Session.thy ===== *)
theory Media_Session
  imports Jitter_Buffer Rtp Spsc_Ring G711 "HOL-Library.Signed_Division"
begin

text \<open>
  \<^verbatim>\<open>src/media/media_session.cpp\<close>: the media half of a call. It takes samples from the capture ring into
  RTP packets and moves what arrives through the jitter buffer to the playout ring, concealing what is
  missing. Operations that parse a packet or pop the jitter buffer are partial where those are; the
  lemmas show that the only undefined case is the overrun of the RTP parser.
\<close>

abbreviation (input) kFrameSamples :: nat where "kFrameSamples \<equiv> 160"
abbreviation (input) kMaxPacketSize :: nat where "kMaxPacketSize \<equiv> 172"
abbreviation (input) kConcealRepeats :: nat where "kConcealRepeats \<equiv> 3"

record media_stats =
  packets_sent :: nat
  packets_received :: nat
  packets_lost :: nat
  packets_late :: nat
  frames_concealed :: nat
  frames_expanded :: nat
  frames_dropped :: nat
  jitter_ms :: real
  playout_delay_ms :: real

definition no_stats :: media_stats where
  "no_stats = \<lparr>packets_sent = 0, packets_received = 0, packets_lost = 0, packets_late = 0,
     frames_concealed = 0, frames_expanded = 0, frames_dropped = 0, jitter_ms = 0, playout_delay_ms = 0\<rparr>"

record media_session =
  capture :: "int ring"
  playout :: "int ring"
  buffer :: jitter_buffer
  receive :: receive_statistics
  active :: bool
  have_remote_ssrc :: bool
  remote_ssrc :: u32
  send_header :: rtp_header
  session_stats :: media_stats
  last_frame :: "int list"
  concealed_in_a_row :: nat

definition new_header :: rtp_header where
  "new_header = \<lparr>payload_type = 0, marker = False, sequence = 0, timestamp = 0, ssrc = 0\<rparr>"

definition new_session :: "int ring \<Rightarrow> int ring \<Rightarrow> int \<Rightarrow> media_session" where
  "new_session cap play delay =
     \<lparr>capture = cap, playout = play, buffer = new_jitter_buffer delay, receive = new_statistics, active = False,
      have_remote_ssrc = False, remote_ssrc = 0, send_header = new_header, session_stats = no_stats,
      last_frame = replicate kFrameSamples 0, concealed_in_a_row = 0\<rparr>"

definition start :: "media_session \<Rightarrow> u32 \<Rightarrow> u16 \<Rightarrow> u32 \<Rightarrow> media_session" where
  "start s src first_sequence first_timestamp =
     s\<lparr>capture := discard (capture s), buffer := reset (buffer s), receive := new_statistics,
       session_stats := no_stats, have_remote_ssrc := False, last_frame := replicate kFrameSamples 0,
       concealed_in_a_row := 0,
       send_header := \<lparr>payload_type = 8, marker = True, sequence = first_sequence, timestamp = first_timestamp,
         ssrc = src\<rparr>,
       active := True\<rparr>"

definition stop :: "media_session \<Rightarrow> media_session" where
  "stop s = s\<lparr>active := False\<rparr>"

text \<open>Samples copied into a zeroed array of one frame.\<close>

definition pad_frame :: "int list \<Rightarrow> int list" where
  "pad_frame xs = take kFrameSamples xs @ replicate (kFrameSamples - length xs) 0"

definition next_packet :: "media_session \<Rightarrow> byte list \<Rightarrow> nat \<times> byte list \<times> media_session" where
  "next_packet s out =
     (let (samples, cap) = Spsc_Ring.pop (capture s) kFrameSamples;
          s1 = s\<lparr>capture := cap\<rparr>;
          (sz, out') = write_rtp out (send_header s) (alaw_encode_buffer (pad_frame samples))
      in if sz = 0 then (0, out', s1)
         else (sz, out',
               s1\<lparr>send_header := (send_header s)\<lparr>marker := False, sequence := sequence (send_header s) + 1,
                    timestamp := timestamp (send_header s) + of_nat kFrameSamples\<rparr>,
                  session_stats := (session_stats s)\<lparr>packets_sent := packets_sent (session_stats s) + 1\<rparr>\<rparr>))"

definition switch_source :: "media_session \<Rightarrow> u32 \<Rightarrow> media_session" where
  "switch_source s src =
     (if \<not> have_remote_ssrc s \<or> src \<noteq> remote_ssrc s
      then s\<lparr>have_remote_ssrc := True, remote_ssrc := src, receive := new_statistics, buffer := reset (buffer s)\<rparr>
      else s)"

definition accept_packet :: "media_session \<Rightarrow> rtp_packet \<Rightarrow> int \<Rightarrow> media_session" where
  "accept_packet s0 packet arrival_us =
     (let h = rtp_packet.header packet;
          s = switch_source s0 (ssrc h);
          arrival_rtp = word_of_int ((arrival_us * 8) sdiv 1000);
          (sq, rec) = on_packet (receive s) (sequence h) (timestamp h) arrival_rtp;
          (result, jb) = put (buffer s) sq (payload packet) arrival_us;
          st = session_stats s
      in s\<lparr>receive := rec, buffer := jb,
           session_stats := st\<lparr>packets_received := packets_received st + 1,
             packets_late := packets_late st + (if result = Late then 1 else 0)\<rparr>\<rparr>)"

definition session_on_packet :: "media_session \<Rightarrow> byte list \<Rightarrow> int \<Rightarrow> media_session option" where
  "session_on_packet s datagram arrival_us =
     (case parse_rtp datagram of
        None \<Rightarrow> None
      | Some None \<Rightarrow> Some s
      | Some (Some packet) \<Rightarrow>
          if payload_type (rtp_packet.header packet) \<noteq> 8 then Some s
          else Some (accept_packet s packet arrival_us))"

text \<open>Concealment: the last frame at half the level, and after three of them silence.\<close>

definition conceal :: "media_session \<Rightarrow> int list \<times> media_session" where
  "conceal s =
     (let s' = (if concealed_in_a_row s < kConcealRepeats
                then s\<lparr>last_frame := map (\<lambda>x. x sdiv 2) (last_frame s)\<rparr> else s);
          samples = (if concealed_in_a_row s < kConcealRepeats then last_frame s' else replicate kFrameSamples 0)
      in (samples, s'\<lparr>concealed_in_a_row := concealed_in_a_row s + 1\<rparr>))"

definition frame_samples :: "media_session \<Rightarrow> pop_result \<Rightarrow> int list \<times> media_session" where
  "frame_samples s result =
     (case result of
        Played frame \<Rightarrow>
          (let samples = pad_frame (alaw_decode_buffer (take kFrameSamples frame))
           in (samples, s\<lparr>last_frame := samples, concealed_in_a_row := 0\<rparr>))
      | Missing \<Rightarrow>
          conceal (s\<lparr>session_stats := (session_stats s)\<lparr>frames_concealed := frames_concealed (session_stats s) + 1\<rparr>\<rparr>)
      | Expanded \<Rightarrow> conceal s
      | Buffering \<Rightarrow> (replicate kFrameSamples 0, s))"

definition play_frame :: "media_session \<Rightarrow> int \<Rightarrow> media_session option" where
  "play_frame s now_us =
     (case Jitter_Buffer.pop (buffer s) now_us of
        None \<Rightarrow> None
      | Some (result, jb) \<Rightarrow>
          (let (samples, s') = frame_samples (s\<lparr>buffer := jb\<rparr>) result
           in Some (s'\<lparr>playout := snd (push (playout s') samples)\<rparr>)))"

definition stats :: "media_session \<Rightarrow> media_stats option" where
  "stats s =
     (case target_delay_us (buffer s) of
        None \<Rightarrow> None
      | Some delay \<Rightarrow>
          Some ((session_stats s)\<lparr>packets_lost := lost (receive s), jitter_ms := jitter (receive s) / 8,
            frames_expanded := expanded (buffer s), frames_dropped := dropped (buffer s),
            playout_delay_ms := real_of_int delay / 1000\<rparr>))"

section \<open>The invariant\<close>

definition session_ok :: "media_session \<Rightarrow> bool" where
  "session_ok s \<longleftrightarrow>
     ring_ok (capture s) \<and> ring_ok (playout s) \<and> jb_ok (buffer s) \<and> length (last_frame s) = kFrameSamples"

lemma new_session_ok: "ring_ok cap \<Longrightarrow> ring_ok play \<Longrightarrow> session_ok (new_session cap play delay)"
  by (simp add: session_ok_def new_session_def new_jitter_buffer_ok)

lemma start_ok: "session_ok s \<Longrightarrow> session_ok (start s src sq ts)"
  by (simp add: session_ok_def start_def reset_ok ring.clear)

lemma length_pad_frame [simp]: "length (pad_frame xs) = kFrameSamples"
  by (simp add: pad_frame_def)

lemma next_packet_ok: "session_ok s \<Longrightarrow> session_ok (snd (snd (next_packet s out)))"
  using ring.get [of "capture s" kFrameSamples]
  by (auto simp: session_ok_def next_packet_def case_prod_unfold Let_def)

lemma switch_source_ok: "session_ok s \<Longrightarrow> session_ok (switch_source s src)"
  by (simp add: session_ok_def switch_source_def reset_ok)

lemma accept_packet_ok: "session_ok s \<Longrightarrow> session_ok (accept_packet s p a)"
  using switch_source_ok [of s "ssrc (rtp_packet.header p)"] put_ok
  by (simp add: session_ok_def accept_packet_def case_prod_unfold Let_def)

lemma conceal_ok: "session_ok s \<Longrightarrow> session_ok (snd (conceal s)) \<and> length (fst (conceal s)) = kFrameSamples"
  by (simp add: session_ok_def conceal_def Let_def)

lemma frame_samples_ok:
  "session_ok s \<Longrightarrow> session_ok (snd (frame_samples s r)) \<and> length (fst (frame_samples s r)) = kFrameSamples"
proof (cases r)
  case Missing
  assume "session_ok s"
  then have "session_ok (s\<lparr>session_stats := x\<rparr>)" for x by (simp add: session_ok_def)
  with Missing show ?thesis by (simp add: frame_samples_def conceal_ok)
qed (simp_all add: frame_samples_def conceal_ok, simp_all add: session_ok_def Let_def)

lemma conceal_frame [frame_simps]:
  "capture (snd (conceal s)) = capture s" "playout (snd (conceal s)) = playout s" "buffer (snd (conceal s)) = buffer s"
  by (simp_all add: conceal_def Let_def)

lemma frame_samples_frame [frame_simps]:
  "capture (snd (frame_samples s r)) = capture s" "playout (snd (frame_samples s r)) = playout s"
  "buffer (snd (frame_samples s r)) = buffer s"
  by (simp_all add: frame_samples_def frame_simps Let_def split: pop_result.split)

lemma play_frame_ok:
  assumes "session_ok s"
  shows "\<exists>s'. play_frame s now = Some s' \<and> session_ok s'"
proof -
  obtain r jb where p: "Jitter_Buffer.pop (buffer s) now = Some (r, jb)" "jb_ok jb"
    using assms pop_spec [of "buffer s" now] by (auto simp: session_ok_def)
  then have "session_ok (s\<lparr>buffer := jb\<rparr>)" using assms by (simp add: session_ok_def)
  from frame_samples_ok [OF this, of r] p show ?thesis
    by (auto simp: play_frame_def case_prod_unfold session_ok_def ring.put Let_def)
qed

lemma stats_defined:
  assumes "session_ok s"
  obtains st where "stats s = Some st"
proof -
  have j: "jb_ok (buffer s)" using assms by (simp add: session_ok_def)
  have "\<exists>d. target_delay_us (buffer s) = Some d"
  proof (cases "window_count (buffer s) = 0")
    case False
    then obtain f d where "min_element (take (window_count (buffer s)) (window (buffer s))) = Some f"
      "desired_offset_us (buffer s) = Some (f + d)" using desired_offset_defined [OF j] by blast
    then show ?thesis by (simp add: target_delay_us_def)
  qed (simp add: target_delay_us_def)
  then show thesis using that by (auto simp: stats_def)
qed

section \<open>What is sent\<close>

lemma valid_send_header: "payload_type h = 8 \<Longrightarrow> valid_rtp_header h"
  by (simp add: valid_rtp_header_def)

lemma next_packet_spec:
  assumes "session_ok s" and "payload_type (send_header s) = 8" and "length out = kMaxPacketSize"
  shows "case next_packet s out of (sz, out', s') \<Rightarrow>
    sz = kMaxPacketSize \<and> length out' = kMaxPacketSize \<and>
    parse_rtp out' = Some (Some \<lparr>rtp_packet.header = send_header s,
      payload = alaw_encode_buffer (pad_frame (take kFrameSamples (ring_contents (capture s))))\<rparr>) \<and>
    session_ok s' \<and> ring_contents (capture s') = drop kFrameSamples (ring_contents (capture s)) \<and>
    send_header s' = (send_header s)\<lparr>marker := False, sequence := sequence (send_header s) + 1,
      timestamp := timestamp (send_header s) + of_nat kFrameSamples\<rparr>"
proof -
  let ?p = "alaw_encode_buffer (pad_frame (take kFrameSamples (ring_contents (capture s))))"
  have c: "fst (Spsc_Ring.pop (capture s) kFrameSamples) = take kFrameSamples (ring_contents (capture s))"
    "ring_contents (snd (Spsc_Ring.pop (capture s) kFrameSamples)) = drop kFrameSamples (ring_contents (capture s))"
    using ring.get [of "capture s" kFrameSamples] assms(1) by (simp_all add: session_ok_def)
  have "length ?p = kFrameSamples" by (simp add: alaw_encode_buffer_def)
  then have "write_rtp out (send_header s) ?p = (kMaxPacketSize, rtp_bytes (send_header s) @ ?p)"
    using write_rtp_fits [of out ?p "send_header s"] assms(3) by simp
  then show ?thesis
    using c next_packet_ok [OF assms(1), of out] parse_rtp_bytes [OF valid_send_header [OF assms(2)], of ?p]
      \<open>length ?p = kFrameSamples\<close>
    by (simp add: next_packet_def case_prod_unfold Let_def)
qed

text \<open>Rounds of capturing and sending: the microphone adds samples, then a packet is taken.\<close>

fun send_rounds :: "media_session \<Rightarrow> int list list \<Rightarrow> byte list list \<times> media_session" where
  "send_rounds s [] = ([], s)"
| "send_rounds s (mic # mics) =
     (let (sz, out, s1) = next_packet (s\<lparr>capture := snd (push (capture s) mic)\<rparr>) (replicate kMaxPacketSize 0);
          (packets, s2) = send_rounds s1 mics
      in (take sz out # packets, s2))"

definition numbered :: "rtp_header \<Rightarrow> nat \<Rightarrow> rtp_header" where
  "numbered h i = h\<lparr>marker := marker h \<and> i = 0, sequence := sequence h + of_nat i,
     timestamp := timestamp h + of_nat (kFrameSamples * i)\<rparr>"

lemma numbered_Suc:
  "numbered (h\<lparr>marker := False, sequence := sequence h + 1, timestamp := timestamp h + of_nat kFrameSamples\<rparr>) i =
   numbered h (Suc i)"
  by (simp add: numbered_def algebra_simps)

lemma send_rounds_numbered:
  assumes "session_ok s" and "payload_type (send_header s) = 8"
  shows "list_all2 (\<lambda>i packet. length packet = kMaxPacketSize \<and>
      (\<exists>body. parse_rtp packet = Some (Some \<lparr>rtp_packet.header = numbered (send_header s) i, payload = body\<rparr>)))
    [0..<length mics] (fst (send_rounds s mics))"
  using assms
proof (induction mics arbitrary: s)
  case Nil
  then show ?case by simp
next
  case (Cons mic mics)
  let ?s = "s\<lparr>capture := snd (push (capture s) mic)\<rparr>"
  have "session_ok ?s" using Cons.prems(1) ring.put [of "capture s" mic] by (simp add: session_ok_def)
  moreover obtain sz out s1 where n: "next_packet ?s (replicate kMaxPacketSize 0) = (sz, out, s1)"
    by (cases "next_packet ?s (replicate kMaxPacketSize 0)") auto
  ultimately have sp: "sz = kMaxPacketSize" "length out = kMaxPacketSize" "session_ok s1"
    "\<exists>body. parse_rtp out = Some (Some \<lparr>rtp_packet.header = send_header s, payload = body\<rparr>)"
    "send_header s1 = (send_header s)\<lparr>marker := False, sequence := sequence (send_header s) + 1,
      timestamp := timestamp (send_header s) + of_nat kFrameSamples\<rparr>"
    using next_packet_spec [of ?s "replicate kMaxPacketSize 0"] Cons.prems(2) by auto
  have h0: "numbered (send_header s) 0 = send_header s" by (simp add: numbered_def)
  have "list_all2 (\<lambda>i packet. length packet = kMaxPacketSize \<and>
      (\<exists>body. parse_rtp packet = Some (Some \<lparr>rtp_packet.header = numbered (send_header s) (Suc i), payload = body\<rparr>)))
    [0..<length mics] (fst (send_rounds s1 mics))"
    using Cons.IH [OF sp(3)] sp(5) Cons.prems(2) unfolding numbered_Suc [symmetric] by simp
  then have "list_all2 (\<lambda>i packet. length packet = kMaxPacketSize \<and>
      (\<exists>body. parse_rtp packet = Some (Some \<lparr>rtp_packet.header = numbered (send_header s) i, payload = body\<rparr>)))
    (map Suc [0..<length mics]) (fst (send_rounds s1 mics))"
    by (simp add: list_all2_map1)
  then show ?case
    using n sp h0 by (simp add: case_prod_unfold upt_conv_Cons map_Suc_upt [symmetric] Let_def del: upt_Suc)
qed

section \<open>Concealment\<close>

lemma sdiv_power: "(x sdiv 2 ^ k) sdiv 2 = x sdiv (2 ^ Suc k :: int)"
proof -
  have "\<bar>x\<bar> div 2 ^ k div 2 = \<bar>x\<bar> div 2 ^ Suc k" by (simp only: power_Suc2 zdiv_zmult2_eq [of 2, simplified])
  moreover have "sgn (sgn x * (\<bar>x\<bar> div 2 ^ k)) * (\<bar>sgn x * (\<bar>x\<bar> div 2 ^ k)\<bar> div 2) = sgn x * (\<bar>x\<bar> div 2 ^ k div 2)"
    by (cases x "0 :: int" rule: linorder_cases) (auto simp: sgn_if abs_mult pos_imp_zdiv_nonneg_iff)
  ultimately show ?thesis by (simp add: signed_divide_int_def)
qed

fun play_results :: "media_session \<Rightarrow> pop_result list \<Rightarrow> int list list" where
  "play_results s [] = []"
| "play_results s (r # rs) = (let (samples, s') = frame_samples s r in samples # play_results s' rs)"

lemma conceal_samples:
  assumes "r \<in> {Missing, Expanded}"
  shows "fst (frame_samples s r) = (if concealed_in_a_row s < kConcealRepeats
      then map (\<lambda>x. x sdiv 2) (last_frame s) else replicate kFrameSamples 0)"
    and "concealed_in_a_row (snd (frame_samples s r)) = Suc (concealed_in_a_row s)"
    and "last_frame (snd (frame_samples s r)) = (if concealed_in_a_row s < kConcealRepeats
      then map (\<lambda>x. x sdiv 2) (last_frame s) else last_frame s)"
  using assms by (auto simp: frame_samples_def conceal_def Let_def)

lemma play_results_conceal:
  assumes "set rs \<subseteq> {Missing, Expanded}" and "concealed_in_a_row s = c"
    and "last_frame s = map (\<lambda>x. x sdiv 2 ^ min c kConcealRepeats) v"
  shows "play_results s rs = map (\<lambda>i. if i < kConcealRepeats then map (\<lambda>x. x sdiv 2 ^ Suc i) v
    else replicate kFrameSamples 0) [c..<c + length rs]"
  using assms
proof (induction rs arbitrary: s c)
  case Nil
  then show ?case by simp
next
  case (Cons r rs)
  let ?s = "snd (frame_samples s r)"
  have r: "r \<in> {Missing, Expanded}" using Cons.prems(1) by simp
  note step = conceal_samples [OF r, of s]
  have lf: "last_frame ?s = map (\<lambda>x. x sdiv 2 ^ min (Suc c) kConcealRepeats) v"
    using step(3) Cons.prems(2,3) by (simp add: min_def sdiv_power comp_def del: power_Suc)
  have "play_results ?s rs = map (\<lambda>i. if i < kConcealRepeats then map (\<lambda>x. x sdiv 2 ^ Suc i) v
      else replicate kFrameSamples 0) [Suc c..<Suc c + length rs]"
    by (rule Cons.IH) (use Cons.prems step(2) lf in auto)
  moreover have "fst (frame_samples s r) = (if c < kConcealRepeats then map (\<lambda>x. x sdiv 2 ^ Suc c) v
      else replicate kFrameSamples 0)"
    using step(1) Cons.prems(2,3) by (simp add: sdiv_power comp_def del: power_Suc)
  ultimately show ?case
    by (simp add: case_prod_unfold Let_def upt_conv_Cons [of c "Suc (c + length rs)"] del: upt_Suc power_Suc)
qed

section \<open>Properties\<close>

text \<open>What happens to a session: the network thread's calls, and the audio thread at the rings.\<close>

datatype session_operation =
  Start u32 u16 u32 | Stop | Capture "int list" | Speaker nat | Send | Receive "byte list" int | Play int

definition session_step :: "media_session \<Rightarrow> session_operation \<Rightarrow> media_session option" where
  "session_step s operation =
     (case operation of
        Start src sq ts \<Rightarrow> Some (start s src sq ts)
      | Stop \<Rightarrow> Some (stop s)
      | Capture mic \<Rightarrow> Some (s\<lparr>capture := snd (push (capture s) mic)\<rparr>)
      | Speaker n \<Rightarrow> Some (s\<lparr>playout := snd (Spsc_Ring.pop (playout s) n)\<rparr>)
      | Send \<Rightarrow> Some (snd (snd (next_packet s (replicate kMaxPacketSize 0))))
      | Receive datagram arrival \<Rightarrow> session_on_packet s datagram arrival
      | Play now \<Rightarrow> play_frame s now)"

fun run_session :: "media_session \<Rightarrow> session_operation list \<Rightarrow> media_session option" where
  "run_session s [] = Some s"
| "run_session s (op # ops) = Option.bind (session_step s op) (\<lambda>s'. run_session s' ops)"

fun overrunning :: "session_operation \<Rightarrow> bool" where
  "overrunning (Receive d a) = overruns d"
| "overrunning _ = False"

lemma session_on_packet_cases:
  assumes "session_ok s"
  shows "if overruns d then session_on_packet s d a = None
    else \<exists>s'. session_on_packet s d a = Some s' \<and> session_ok s'"
  using parse_rtp_None_iff [of d] assms accept_packet_ok
  by (auto simp: session_on_packet_def split: option.splits)

lemma session_step_cases:
  assumes "session_ok s"
  shows "if overrunning op then session_step s op = None else \<exists>s'. session_step s op = Some s' \<and> session_ok s'"
proof (cases op)
  case (Start src sq ts)
  with assms show ?thesis by (simp add: session_step_def start_ok)
next
  case Stop
  with assms show ?thesis by (simp add: session_step_def stop_def session_ok_def)
next
  case (Capture mic)
  with assms ring.put [of "capture s" mic] show ?thesis by (simp add: session_step_def session_ok_def)
next
  case (Speaker n)
  with assms ring.get [of "playout s" n] show ?thesis by (simp add: session_step_def session_ok_def)
next
  case Send
  with assms show ?thesis by (simp add: session_step_def next_packet_ok)
next
  case (Receive d a)
  with session_on_packet_cases [OF assms, of d a] show ?thesis by (simp add: session_step_def)
next
  case (Play now)
  with play_frame_ok [OF assms] show ?thesis by (simp add: session_step_def)
qed

text \<open>
  Whatever packets arrive, whenever frames are sent and played, and whatever the audio thread
  does at its ends of the rings, a session keeps its invariant and every call is defined, unless a
  datagram arrives on which the RTP parser overruns; that datagram is undefined behaviour at once.
\<close>

theorem session_runs:
  assumes "session_ok s"
  shows "if list_ex overrunning ops then run_session s ops = None
    else \<exists>s'. run_session s ops = Some s' \<and> session_ok s'"
  using assms
proof (induction ops arbitrary: s)
  case Nil
  then show ?case by simp
next
  case (Cons op ops)
  with session_step_cases [OF Cons.prems, of op] show ?case by (auto split: if_splits)
qed

definition sample_session :: media_session where
  "sample_session = new_session (new_ring 0 1600) (new_ring 0 1600) 60000"

lemma new_ring_ok: "minimum < 2 ^ 63 \<Longrightarrow> ring_ok (new_ring zero minimum)"
  by (rule ring_at_ok [OF new_ring_at])

lemma sample_session_ok: "session_ok sample_session"
  unfolding sample_session_def by (intro new_session_ok new_ring_ok) simp_all

theorem session_runs_witness:
  "\<exists>s. run_session sample_session [Start 1 2 3, Capture [5], Send, Receive [0x80] 0, Play 0, Stop] = Some s \<and> session_ok s"
proof -
  have "\<not> list_ex overrunning [Start 1 2 3, Capture [5], Send, Receive [0x80] 0, Play 0, Stop]"
    by (simp add: overruns_def)
  then show ?thesis
    using session_runs [OF sample_session_ok, of "[Start 1 2 3, Capture [5], Send, Receive [0x80] 0, Play 0, Stop]"]
    by (simp only: if_False)
qed

text \<open>
  C33: numbering. After start, the i-th packet sent is a full packet that parses with the sequence
  number i after the first one and the timestamp 160 i after the first one, both wrapping around, the
  marker only on the first packet, and the given source, whatever the microphone delivers.
\<close>

theorem packets_are_numbered:
  assumes "session_ok s"
  shows "list_all2 (\<lambda>i packet. length packet = kMaxPacketSize \<and>
      (\<exists>body. parse_rtp packet = Some (Some \<lparr>rtp_packet.header =
         \<lparr>payload_type = 8, marker = (i = 0), sequence = sq + of_nat i,
          timestamp = ts + of_nat (kFrameSamples * i), ssrc = src\<rparr>, payload = body\<rparr>)))
    [0..<length mics] (fst (send_rounds (start s src sq ts) mics))"
  using send_rounds_numbered [OF start_ok [OF assms], of src sq ts mics] by (simp add: start_def numbered_def)

theorem packets_are_numbered_witness:
  "list_all2 (\<lambda>i packet. length packet = kMaxPacketSize \<and>
      (\<exists>body. parse_rtp packet = Some (Some \<lparr>rtp_packet.header =
         \<lparr>payload_type = 8, marker = (i = 0), sequence = 0xffff + of_nat i,
          timestamp = 7 + of_nat (kFrameSamples * i), ssrc = 9\<rparr>, payload = body\<rparr>)))
    [0..<2] (fst (send_rounds (start sample_session 9 0xffff 7) [[], [1, 2, 3]]))"
  using packets_are_numbered [OF sample_session_ok, where sq = "0xffff" and ts = 7 and src = 9 and mics = "[[], [1, 2, 3]]"]
  by (simp only: list.size numeral_2_eq_2 add_Suc_right add_0_right)

text \<open>
  Concealment. The frames played in place of missing or inserted ones after a good frame are
  that frame at a half, a quarter and an eighth of its level, and silence from the fourth on.
\<close>

theorem concealment_fades:
  assumes "set rs \<subseteq> {Missing, Expanded}"
  shows "play_results s (Played frame # rs) =
    (let good = pad_frame (alaw_decode_buffer (take kFrameSamples frame))
     in good # map (\<lambda>i. if i < kConcealRepeats then map (\<lambda>x. x sdiv 2 ^ Suc i) good
                        else replicate kFrameSamples 0) [0..<length rs])"
  using play_results_conceal [OF assms, of _ 0] by (simp add: frame_samples_def Let_def)

theorem concealment_fades_witness:
  "play_results sample_session [Played [0x55], Missing, Expanded, Missing, Missing] ! 4 = replicate kFrameSamples 0"
  using concealment_fades [of "[Missing, Expanded, Missing, Missing]" sample_session "[0x55]"]
  by (simp add: Let_def)

end
