(* ===== verification/System_Interface.thy ===== *)
theory System_Interface
  imports Prelude
begin

text \<open>
  What the program asks of its surroundings: the operating system, libsrtp, and the TLS connection
  behind \<^verbatim>\<open>src/net/tls_transport.hpp\<close>. None of it is code of the repository, so all of it is a
  parameter: a \<^verbatim>\<open>system\<close> answers each call in any way it likes, depending on every call that was
  made before. The calls, with their arguments and their answers, are recorded in a trace; a
  statement about every system is a statement about every trace the program can leave behind.

  Time is in nanoseconds since the epoch of \<^verbatim>\<open>std::chrono::steady_clock\<close>; numbers such as
  \<^verbatim>\<open>AF_INET6\<close> are those of Linux.
\<close>

abbreviation (input) AF_UNSPEC :: int where "AF_UNSPEC \<equiv> 0"
abbreviation (input) AF_INET :: int where "AF_INET \<equiv> 2"
abbreviation (input) AF_INET6 :: int where "AF_INET6 \<equiv> 10"

text \<open>Socket addresses: the address bytes, the scope of a link-local address, the port in network order.\<close>

datatype sockaddr =
    Sockaddr_in "byte list" u16
  | Sockaddr_in6 "byte list" u32 u16
  | Sockaddr_other int

primrec sa_family :: "sockaddr \<Rightarrow> int" where
  "sa_family (Sockaddr_in a p) = AF_INET"
| "sa_family (Sockaddr_in6 a sc p) = AF_INET6"
| "sa_family (Sockaddr_other f) = f"

abbreviation (input) sizeof_sockaddr :: nat where "sizeof_sockaddr \<equiv> 16"
abbreviation (input) sizeof_sockaddr_in :: nat where "sizeof_sockaddr_in \<equiv> 16"
abbreviation (input) sizeof_sockaddr_in6 :: nat where "sizeof_sockaddr_in6 \<equiv> 28"

text \<open>A C string ends at the first null character.\<close>

definition c_str :: "string \<Rightarrow> string" where
  "c_str s = takeWhile (\<lambda>c. c \<noteq> CHR 0x00) s"

text \<open>The byte order of the machine is little endian, that of the network big endian.\<close>

definition htons :: "u16 \<Rightarrow> u16" where
  "htons w = push_bit 8 w OR drop_bit 8 w"

abbreviation ntohs :: "u16 \<Rightarrow> u16" where "ntohs \<equiv> htons"

lemma ntohs_htons [simp]: "ntohs (htons w) = w"
proof (rule bit_word_eqI)
  fix n assume "n < LENGTH(16)"
  then show "bit (ntohs (htons w)) n = bit w n"
    by (cases "n < 8") (auto simp: htons_def bit_simps)
qed

datatype direction = Outbound | Inbound

record tls_options =
  tls_host :: string
  tls_port :: u16
  tls_server_name :: string
  tls_trust_anchors_pem :: string

text \<open>The errors that mean that a call that does not block had nothing to do.\<close>

datatype errno = EAGAIN | EINTR | EOther

text \<open>libsrtp works in place: whether it succeeded, the length it stored, and the bytes it left in the buffer.\<close>

type_synonym srtp_answer = "bool \<times> int \<times> byte list"

text \<open>
  The calls; the last argument of each is the answer, where there is one. The last kind is no call: it
  records which datagrams the engine hands to the media session.
\<close>

datatype sys_call =
    Now int
  | Poll "int list" int
  | Socket int int
  | SetV6only int int
  | GetFlags int int
  | SetNonblock int int
  | SetCloexec int
  | Bind int sockaddr nat int
  | Connect int sockaddr nat int
  | Getsockname int "(sockaddr \<times> nat) option"
  | Send int "byte list" int
  | Sendto int "byte list" sockaddr nat int
  | Recvfrom int nat "errno + byte list \<times> sockaddr \<times> nat"
  | Close int
  | Getaddrinfo string string "(sockaddr option \<times> nat) list option"
  | Getentropy nat "byte list option"
  | SrtpInit bool
  | SrtpCreate direction "byte list" "nat option"
  | SrtpProtect nat "byte list" srtp_answer
  | SrtpUnprotect nat "byte list" srtp_answer
  | SrtpDealloc nat
  | ConnectTls tls_options nat bool
  | Pipe bool
  | TlsSend string
  | TlsDestroy
  | Hear "byte list"

type_synonym trace = "sys_call list"

record system =
  a_now :: "trace \<Rightarrow> int"
  a_socket :: "trace \<Rightarrow> int \<Rightarrow> int"
  a_option :: "trace \<Rightarrow> int \<Rightarrow> int"
  a_bind :: "trace \<Rightarrow> int \<Rightarrow> sockaddr \<Rightarrow> int"
  a_connect :: "trace \<Rightarrow> int \<Rightarrow> sockaddr \<Rightarrow> int"
  a_getsockname :: "trace \<Rightarrow> int \<Rightarrow> (sockaddr \<times> nat) option"
  a_send :: "trace \<Rightarrow> int \<Rightarrow> byte list \<Rightarrow> int"
  a_recvfrom :: "trace \<Rightarrow> int \<Rightarrow> nat \<Rightarrow> errno + byte list \<times> sockaddr \<times> nat"
  a_getaddrinfo :: "trace \<Rightarrow> string \<Rightarrow> string \<Rightarrow> (sockaddr option \<times> nat) list option"
  a_inet_ntop :: "int \<Rightarrow> byte list \<Rightarrow> string option"
  a_getentropy :: "trace \<Rightarrow> nat \<Rightarrow> byte list option"
  a_srtp_init :: "trace \<Rightarrow> bool"
  a_srtp_create :: "trace \<Rightarrow> direction \<Rightarrow> byte list \<Rightarrow> nat option"
  a_srtp_protect :: "trace \<Rightarrow> nat \<Rightarrow> byte list \<Rightarrow> srtp_answer"
  a_srtp_unprotect :: "trace \<Rightarrow> nat \<Rightarrow> byte list \<Rightarrow> srtp_answer"
  a_pipe :: "trace \<Rightarrow> bool"
  a_tls_supported :: bool
  a_connect_tls :: "trace \<Rightarrow> tls_options \<Rightarrow> bool"

text \<open>Making a call: the answer, and the trace with the call.\<close>

definition ask :: "('r \<Rightarrow> sys_call) \<Rightarrow> (trace \<Rightarrow> 'r) \<Rightarrow> trace \<Rightarrow> 'r \<times> trace" where
  "ask call answer tr = (answer tr, tr @ [call (answer tr)])"

lemma ask_simps [simp]: "fst (ask call answer tr) = answer tr" "snd (ask call answer tr) = tr @ [call (answer tr)]"
  by (simp_all add: ask_def)

section \<open>Resources\<close>

text \<open>
  A resource is what some calls give out, others take back and others need: descriptors, SRTP
  sessions, the TLS connection. A trace is disciplined if nothing is given out while it is held,
  and nothing is taken back or used while it is not.
\<close>

record 'r resource =
  acquires :: "sys_call \<Rightarrow> 'r option"
  releases :: "sys_call \<Rightarrow> 'r option"
  uses :: "sys_call \<Rightarrow> 'r set"

definition hold :: "'r resource \<Rightarrow> sys_call \<Rightarrow> 'r set \<Rightarrow> 'r set" where
  "hold R c S =
     (case acquires R c of
        Some r \<Rightarrow> insert r S
      | None \<Rightarrow> (case releases R c of Some r \<Rightarrow> S - {r} | None \<Rightarrow> S))"

definition held :: "'r resource \<Rightarrow> trace \<Rightarrow> 'r set" where
  "held R tr = fold (hold R) tr {}"

definition permitted :: "'r resource \<Rightarrow> 'r set \<Rightarrow> sys_call \<Rightarrow> bool" where
  "permitted R S c \<longleftrightarrow>
     (case acquires R c of None \<Rightarrow> True | Some r \<Rightarrow> r \<notin> S) \<and>
     (case releases R c of None \<Rightarrow> True | Some r \<Rightarrow> r \<in> S) \<and> uses R c \<subseteq> S"

definition disciplined :: "'r resource \<Rightarrow> trace \<Rightarrow> bool" where
  "disciplined R tr \<longleftrightarrow> (\<forall>i < length tr. permitted R (held R (take i tr)) (tr ! i))"

lemma held_append [simp]: "held R (tr @ tr') = fold (hold R) tr' (held R tr)"
  by (simp add: held_def)

lemma held_Nil [simp]: "held R [] = {}"
  by (simp add: held_def)

lemma disciplined_snoc [simp]: "disciplined R (tr @ [c]) \<longleftrightarrow> disciplined R tr \<and> permitted R (held R tr) c"
  unfolding disciplined_def length_append_singleton All_less_Suc by (auto simp: nth_append)

lemma disciplined_Nil [simp]: "disciplined R []"
  by (simp add: disciplined_def)

definition descriptors :: "int resource" where
  "descriptors =
     \<lparr>acquires = (\<lambda>c. case c of Socket f fd \<Rightarrow> if fd \<ge> 0 then Some fd else None | _ \<Rightarrow> None),
      releases = (\<lambda>c. case c of Close fd \<Rightarrow> Some fd | _ \<Rightarrow> None),
      uses = (\<lambda>c. case c of
          Poll fds t \<Rightarrow> set fds
        | SetV6only fd r \<Rightarrow> {fd} | GetFlags fd r \<Rightarrow> {fd} | SetNonblock fd r \<Rightarrow> {fd} | SetCloexec fd \<Rightarrow> {fd}
        | Bind fd sa n r \<Rightarrow> {fd} | Connect fd sa n r \<Rightarrow> {fd} | Getsockname fd r \<Rightarrow> {fd}
        | Send fd d r \<Rightarrow> {fd} | Sendto fd d sa n r \<Rightarrow> {fd} | Recvfrom fd n r \<Rightarrow> {fd}
        | _ \<Rightarrow> {})\<rparr>"

definition srtp_sessions :: "nat resource" where
  "srtp_sessions =
     \<lparr>acquires = (\<lambda>c. case c of SrtpCreate d k r \<Rightarrow> r | _ \<Rightarrow> None),
      releases = (\<lambda>c. case c of SrtpDealloc s \<Rightarrow> Some s | _ \<Rightarrow> None),
      uses = (\<lambda>c. case c of SrtpProtect s p r \<Rightarrow> {s} | SrtpUnprotect s p r \<Rightarrow> {s} | _ \<Rightarrow> {})\<rparr>"

definition tls_connections :: "unit resource" where
  "tls_connections =
     \<lparr>acquires = (\<lambda>c. case c of ConnectTls opts g ok \<Rightarrow> if ok then Some () else None | _ \<Rightarrow> None),
      releases = (\<lambda>c. case c of TlsDestroy \<Rightarrow> Some () | _ \<Rightarrow> None),
      uses = (\<lambda>c. case c of TlsSend m \<Rightarrow> {()} | _ \<Rightarrow> {})\<rparr>"

lemmas resource_defs = hold_def permitted_def descriptors_def srtp_sessions_def tls_connections_def

text \<open>The same, call by call.\<close>

lemma hold_calls:
  "hold descriptors c S =
     (case c of Socket f fd \<Rightarrow> if fd \<ge> 0 then insert fd S else S | Close fd \<Rightarrow> S - {fd} | _ \<Rightarrow> S)"
  "hold srtp_sessions c N =
     (case c of SrtpCreate d k (Some s) \<Rightarrow> insert s N | SrtpDealloc s \<Rightarrow> N - {s} | _ \<Rightarrow> N)"
  "hold tls_connections c T =
     (case c of ConnectTls opts g ok \<Rightarrow> if ok then insert () T else T | TlsDestroy \<Rightarrow> T - {()} | _ \<Rightarrow> T)"
  by (cases c; simp add: resource_defs split: option.split)+

lemma permitted_calls:
  "permitted descriptors S c =
     (case c of Socket f fd \<Rightarrow> fd \<ge> 0 \<longrightarrow> fd \<notin> S | Close fd \<Rightarrow> fd \<in> S | _ \<Rightarrow> uses descriptors c \<subseteq> S)"
  "permitted srtp_sessions N c =
     (case c of SrtpCreate d k (Some s) \<Rightarrow> s \<notin> N | SrtpDealloc s \<Rightarrow> s \<in> N | SrtpProtect s p r \<Rightarrow> s \<in> N
      | SrtpUnprotect s p r \<Rightarrow> s \<in> N | _ \<Rightarrow> True)"
  "permitted tls_connections T c =
     (case c of ConnectTls opts g ok \<Rightarrow> ok \<longrightarrow> () \<notin> T | TlsDestroy \<Rightarrow> () \<in> T | TlsSend m \<Rightarrow> () \<in> T | _ \<Rightarrow> True)"
  by (cases c; simp add: resource_defs split: option.split)+

lemma uses_descriptors:
  "uses descriptors c = (case c of
          Poll fds t \<Rightarrow> set fds
        | SetV6only fd r \<Rightarrow> {fd} | GetFlags fd r \<Rightarrow> {fd} | SetNonblock fd r \<Rightarrow> {fd} | SetCloexec fd \<Rightarrow> {fd}
        | Bind fd sa n r \<Rightarrow> {fd} | Connect fd sa n r \<Rightarrow> {fd} | Getsockname fd r \<Rightarrow> {fd}
        | Send fd d r \<Rightarrow> {fd} | Sendto fd d sa n r \<Rightarrow> {fd} | Recvfrom fd n r \<Rightarrow> {fd}
        | _ \<Rightarrow> {})"
  by (simp add: descriptors_def)

lemmas resource_calls = hold_calls permitted_calls uses_descriptors

text \<open>What a session that is held was made for: the last creation that gave it out.\<close>

definition created :: "trace \<Rightarrow> nat \<Rightarrow> (direction \<times> byte list) option" where
  "created tr s = fold (\<lambda>c m. case c of SrtpCreate d k r \<Rightarrow> if r = Some s then Some (d, k) else m | _ \<Rightarrow> m) tr None"

lemma created_snoc [simp]:
  "created (tr @ [c]) s = (case c of SrtpCreate d k r \<Rightarrow> if r = Some s then Some (d, k) else created tr s | _ \<Rightarrow> created tr s)"
  by (cases c) (simp_all add: created_def)

text \<open>
  What the documentation promises of the system: a new descriptor or session is not one that is
  still held, \<^verbatim>\<open>getentropy\<close> never returns short, and the clock is steady.
\<close>

definition fresh_resources :: "system \<Rightarrow> bool" where
  "fresh_resources sys \<longleftrightarrow>
     (\<forall>tr f. a_socket sys tr f \<ge> 0 \<longrightarrow> a_socket sys tr f \<notin> held descriptors tr) \<and>
     (\<forall>tr d k s. a_srtp_create sys tr d k = Some s \<longrightarrow> s \<notin> held srtp_sessions tr)"

definition full_entropy :: "system \<Rightarrow> bool" where
  "full_entropy sys \<longleftrightarrow>
     (\<forall>tr n bytes. n \<le> 256 \<longrightarrow> a_getentropy sys tr n = Some bytes \<longrightarrow> length bytes = n)"

definition steady_clock :: "system \<Rightarrow> bool" where
  "steady_clock sys \<longleftrightarrow> (\<forall>tr t. Now t \<in> set tr \<longrightarrow> t \<le> a_now sys tr)"

end
