(* ===== verification/Udp_Socket.thy ===== *)
theory Udp_Socket
  imports System_Interface Sip_Text
begin

text \<open>
  \<^verbatim>\<open>src/net/udp_socket.cpp\<close>: endpoints, name resolution, and UDP sockets as objects that own a
  descriptor. The branch for Apple platforms (\<^verbatim>\<open>sin_len\<close>, \<^verbatim>\<open>AI_DEFAULT\<close>, \<^verbatim>\<open>SO_NOSIGPIPE\<close>)
  is not modelled.
\<close>

section \<open>Endpoints\<close>

record endpoint =
  ep_family :: int
  ep_address :: "byte list"
  ep_scope_id :: u32
  ep_port :: u16

definition new_endpoint :: endpoint where
  "new_endpoint = \<lparr>ep_family = AF_UNSPEC, ep_address = replicate 16 0, ep_scope_id = 0, ep_port = 0\<rparr>"

text \<open>\<^verbatim>\<open>memcpy\<close> of \<^verbatim>\<open>n\<close> bytes to the start of an array, and to a position in it.\<close>

definition copy_into :: "nat \<Rightarrow> byte list \<Rightarrow> byte list \<Rightarrow> byte list" where
  "copy_into n src dst = take n src @ drop n dst"

definition address_string :: "system \<Rightarrow> endpoint \<Rightarrow> string" where
  "address_string sys e =
     (if ep_family e \<noteq> AF_INET \<and> ep_family e \<noteq> AF_INET6 then []
      else case a_inet_ntop sys (ep_family e) (ep_address e) of
        None \<Rightarrow> []
      | Some out \<Rightarrow>
          if ep_family e = AF_INET6 \<and> ep_scope_id e \<noteq> 0 then out @ ''%'' @ to_string (unat (ep_scope_id e)) else out)"

definition to_sockaddr :: "endpoint \<Rightarrow> sockaddr" where
  "to_sockaddr e =
     (if ep_family e = AF_INET then Sockaddr_in (take 4 (ep_address e)) (htons (ep_port e))
      else if ep_family e = AF_INET6 then Sockaddr_in6 (take 16 (ep_address e)) (ep_scope_id e) (htons (ep_port e))
      else Sockaddr_other AF_UNSPEC)"

definition sockaddr_length :: "endpoint \<Rightarrow> nat" where
  "sockaddr_length e =
     (if ep_family e = AF_INET then sizeof_sockaddr_in
      else if ep_family e = AF_INET6 then sizeof_sockaddr_in6
      else 0)"

definition from_sockaddr :: "sockaddr option \<Rightarrow> nat \<Rightarrow> endpoint option" where
  "from_sockaddr raw len =
     (case raw of
        None \<Rightarrow> None
      | Some sa \<Rightarrow>
          if len < sizeof_sockaddr then None
          else case sa of
            Sockaddr_in a p \<Rightarrow>
              if len \<ge> sizeof_sockaddr_in
              then Some (new_endpoint\<lparr>ep_family := AF_INET, ep_address := copy_into 4 a (ep_address new_endpoint),
                     ep_port := ntohs p\<rparr>)
              else None
          | Sockaddr_in6 a sc p \<Rightarrow>
              if len \<ge> sizeof_sockaddr_in6
              then Some (new_endpoint\<lparr>ep_family := AF_INET6, ep_address := copy_into 16 a (ep_address new_endpoint),
                     ep_scope_id := sc, ep_port := ntohs p\<rparr>)
              else None
          | Sockaddr_other f \<Rightarrow> None)"

section \<open>Resolving\<close>

text \<open>The list of the resolver, without what is not an address and without repetitions.\<close>

fun collect :: "(sockaddr option \<times> nat) list \<Rightarrow> endpoint list \<Rightarrow> endpoint list" where
  "collect [] endpoints = endpoints"
| "collect ((raw, len) # items) endpoints =
     (case from_sockaddr raw len of
        None \<Rightarrow> collect items endpoints
      | Some e \<Rightarrow> collect items (if e \<in> set endpoints then endpoints else endpoints @ [e]))"

definition resolve_all :: "system \<Rightarrow> string \<Rightarrow> u16 \<Rightarrow> trace \<Rightarrow> endpoint list \<times> trace" where
  "resolve_all sys host port tr =
     (let service = to_string (unat port);
          (result, tr) = ask (Getaddrinfo host service) (\<lambda>tr. a_getaddrinfo sys tr host service) tr
      in case result of
           None \<Rightarrow> ([], tr)
         | Some items \<Rightarrow> (collect items [], tr))"

definition resolve :: "system \<Rightarrow> string \<Rightarrow> u16 \<Rightarrow> trace \<Rightarrow> endpoint option \<times> trace" where
  "resolve sys host port tr =
     (case resolve_all sys host port tr of
        ([], tr) \<Rightarrow> (None, tr)
      | (e # _, tr) \<Rightarrow> (Some e, tr))"

section \<open>Sockets\<close>

record udp_socket =
  us_fd :: int
  us_family :: int

definition no_socket :: udp_socket where
  "no_socket = \<lparr>us_fd = - 1, us_family = AF_UNSPEC\<rparr>"

definition close :: "udp_socket \<Rightarrow> trace \<Rightarrow> udp_socket \<times> trace" where
  "close s tr = (no_socket, if us_fd s \<ge> 0 then tr @ [Close (us_fd s)] else tr)"

text \<open>
  Construction and assignment by move leave the other socket empty; the destructor closes what is
  left. An optional that holds a socket is assigned to, reset and destroyed like this:
\<close>

definition move_construct :: "udp_socket \<Rightarrow> udp_socket \<times> udp_socket" where
  "move_construct other = (other, no_socket)"

definition move_assign :: "udp_socket \<Rightarrow> udp_socket \<Rightarrow> trace \<Rightarrow> udp_socket \<times> udp_socket \<times> trace" where
  "move_assign this other tr = (case close this tr of (_, tr) \<Rightarrow> (other, no_socket, tr))"

definition destroy :: "udp_socket \<Rightarrow> trace \<Rightarrow> trace" where
  "destroy s tr = snd (close s tr)"

definition reset_optional :: "udp_socket option \<Rightarrow> trace \<Rightarrow> trace" where
  "reset_optional this tr = (case this of None \<Rightarrow> tr | Some s \<Rightarrow> destroy s tr)"

text \<open>\<^verbatim>\<open>this = std::move(other)\<close> for optionals, and the destruction of what is left in the other.\<close>

definition assign_optional ::
  "udp_socket option \<Rightarrow> udp_socket option \<Rightarrow> trace \<Rightarrow> udp_socket option \<times> trace" where
  "assign_optional this other tr =
     (case (this, other) of
        (_, None) \<Rightarrow> (None, reset_optional this tr)
      | (None, Some o') \<Rightarrow> (case move_construct o' of (s, left) \<Rightarrow> (Some s, destroy left tr))
      | (Some t, Some o') \<Rightarrow> (case move_assign t o' tr of (s, left, tr) \<Rightarrow> (Some s, destroy left tr)))"

text \<open>A failure after \<^verbatim>\<open>socket()\<close> destroys the object that owns the descriptor.\<close>

definition give_up :: "udp_socket \<Rightarrow> trace \<Rightarrow> udp_socket option \<times> trace" where
  "give_up s tr = (None, destroy s tr)"

definition bind_any :: "system \<Rightarrow> udp_socket \<Rightarrow> trace \<Rightarrow> udp_socket option \<times> trace" where
  "bind_any sys s tr =
     (let e = new_endpoint\<lparr>ep_family := us_family s\<rparr>;
          (r, tr) = ask (Bind (us_fd s) (to_sockaddr e) (sockaddr_length e))
            (\<lambda>tr. a_bind sys tr (us_fd s) (to_sockaddr e)) tr
      in if r \<noteq> 0 then give_up s tr
         else case move_construct s of (moved, left) \<Rightarrow> (Some moved, destroy left tr))"

definition make_nonblocking :: "system \<Rightarrow> udp_socket \<Rightarrow> trace \<Rightarrow> bool \<times> trace" where
  "make_nonblocking sys s tr =
     (let (flags, tr) = ask (GetFlags (us_fd s)) (\<lambda>tr. a_option sys tr (us_fd s)) tr
      in if flags < 0 then (False, tr)
         else let (r, tr) = ask (SetNonblock (us_fd s)) (\<lambda>tr. a_option sys tr (us_fd s)) tr
              in (r \<ge> 0, tr))"

definition open_socket :: "system \<Rightarrow> int \<Rightarrow> trace \<Rightarrow> udp_socket option \<times> trace" where
  "open_socket sys family tr =
     (if family \<noteq> AF_INET \<and> family \<noteq> AF_INET6 then (None, tr)
      else let (fd, tr) = ask (Socket family) (\<lambda>tr. a_socket sys tr family) tr
           in if fd < 0 then (None, tr)
              else let s = \<lparr>us_fd = fd, us_family = family\<rparr>;
                       (off, tr) = (if family = AF_INET6 then ask (SetV6only fd) (\<lambda>tr. a_option sys tr fd) tr else (0, tr))
                   in if off \<noteq> 0 then give_up s tr
                      else case make_nonblocking sys s tr of
                        (False, tr) \<Rightarrow> give_up s tr
                      | (True, tr) \<Rightarrow> bind_any sys s (tr @ [SetCloexec fd]))"

definition destination :: "udp_socket \<Rightarrow> endpoint \<Rightarrow> endpoint option" where
  "destination s remote =
     (if ep_family remote = us_family s then Some remote
      else if us_family s \<noteq> AF_INET6 \<or> ep_family remote \<noteq> AF_INET then None
      else Some (new_endpoint\<lparr>ep_family := AF_INET6, ep_port := ep_port remote,
             ep_address := take 12 ((ep_address new_endpoint)[10 := 0xff, 11 := 0xff]) @ take 4 (ep_address remote)\<rparr>))"

definition connect :: "system \<Rightarrow> udp_socket \<Rightarrow> endpoint \<Rightarrow> trace \<Rightarrow> bool \<times> trace" where
  "connect sys s remote tr =
     (case destination s remote of
        None \<Rightarrow> (False, tr)
      | Some e \<Rightarrow>
          (case ask (Connect (us_fd s) (to_sockaddr e) (sockaddr_length e))
             (\<lambda>tr. a_connect sys tr (us_fd s) (to_sockaddr e)) tr of (r, tr) \<Rightarrow> (r = 0, tr)))"

definition local :: "system \<Rightarrow> udp_socket \<Rightarrow> trace \<Rightarrow> endpoint option \<times> trace" where
  "local sys s tr =
     (case ask (Getsockname (us_fd s)) (\<lambda>tr. a_getsockname sys tr (us_fd s)) tr of
        (None, tr) \<Rightarrow> (None, tr)
      | (Some (address, len), tr) \<Rightarrow> (from_sockaddr (Some address) len, tr))"

definition send :: "system \<Rightarrow> udp_socket \<Rightarrow> byte list \<Rightarrow> trace \<Rightarrow> bool \<times> trace" where
  "send sys s data tr =
     (case ask (Send (us_fd s) data) (\<lambda>tr. a_send sys tr (us_fd s) data) tr of
        (r, tr) \<Rightarrow> (r = int (length data), tr))"

definition send_to :: "system \<Rightarrow> udp_socket \<Rightarrow> byte list \<Rightarrow> endpoint \<Rightarrow> trace \<Rightarrow> bool \<times> trace" where
  "send_to sys s data remote tr =
     (case destination s remote of
        None \<Rightarrow> (False, tr)
      | Some e \<Rightarrow>
          (case ask (Sendto (us_fd s) data (to_sockaddr e) (sockaddr_length e))
             (\<lambda>tr. a_send sys tr (us_fd s) data) tr of (r, tr) \<Rightarrow> (r = int (length data), tr)))"

text \<open>
  Receiving into a buffer of \<^verbatim>\<open>room\<close> bytes: the bytes at the start of the buffer, whose number is
  the size that is returned, and the sender if the caller wants to know it.
\<close>

definition receive_from ::
  "system \<Rightarrow> udp_socket \<Rightarrow> nat \<Rightarrow> bool \<Rightarrow> trace \<Rightarrow> (byte list \<times> endpoint option) option \<times> trace" where
  "receive_from sys s room want_from tr =
     (case ask (Recvfrom (us_fd s) room) (\<lambda>tr. a_recvfrom sys tr (us_fd s) room) tr of
        (Inl e, tr) \<Rightarrow> (if e = EAGAIN \<or> e = EINTR then Some ([], None) else None, tr)
      | (Inr (bytes, address, len), tr) \<Rightarrow>
          if want_from
          then (case from_sockaddr (Some address) len of
                  None \<Rightarrow> (None, tr)
                | Some e \<Rightarrow> (Some (take room bytes, Some e), tr))
          else (Some (take room bytes, None), tr))"

section \<open>Endpoints and socket addresses\<close>

text \<open>The endpoints that stand for an address: those the resolver and the system give.\<close>

definition endpoint_ok :: "endpoint \<Rightarrow> bool" where
  "endpoint_ok e \<longleftrightarrow> length (ep_address e) = 16 \<and>
     (ep_family e = AF_INET \<and> drop 4 (ep_address e) = replicate 12 0 \<and> ep_scope_id e = 0 \<or> ep_family e = AF_INET6)"

definition sockaddr_ok :: "sockaddr \<Rightarrow> bool" where
  "sockaddr_ok sa =
     (case sa of Sockaddr_in a p \<Rightarrow> length a = 4 | Sockaddr_in6 a sc p \<Rightarrow> length a = 16 | Sockaddr_other f \<Rightarrow> True)"

lemma from_to_sockaddr: "endpoint_ok e \<Longrightarrow> from_sockaddr (Some (to_sockaddr e)) (sockaddr_length e) = Some e"
  by (cases e)
    (auto simp: endpoint_ok_def from_sockaddr_def to_sockaddr_def sockaddr_length_def new_endpoint_def copy_into_def
      append_eq_conv_conj)

lemma from_sockaddr_ok: "sockaddr_ok sa \<Longrightarrow> from_sockaddr (Some sa) len = Some e \<Longrightarrow> endpoint_ok e"
  by (auto simp: sockaddr_ok_def endpoint_ok_def from_sockaddr_def new_endpoint_def copy_into_def
      split: sockaddr.splits if_splits)

text \<open>The IPv4 or IPv6 address and the port an endpoint stands for, with mapped addresses read as IPv4.\<close>

definition mapped_prefix :: "byte list" where
  "mapped_prefix = replicate 10 0 @ [0xff, 0xff]"

definition stands_for :: "endpoint \<Rightarrow> byte list \<times> u32 \<times> u16" where
  "stands_for e =
     (if ep_family e = AF_INET then (take 4 (ep_address e), 0, ep_port e)
      else if take 12 (ep_address e) = mapped_prefix \<and> ep_scope_id e = 0 then (drop 12 (ep_address e), 0, ep_port e)
      else (ep_address e, ep_scope_id e, ep_port e))"

lemma mapped_eq: "take 12 ((replicate 16 (0 :: byte))[10 := 0xff, 11 := 0xff]) = mapped_prefix"
  by (simp add: mapped_prefix_def numeral_eq_Suc)

lemma destination_spec:
  assumes "endpoint_ok e" and "us_family s = AF_INET \<or> us_family s = AF_INET6"
  shows "case destination s e of
      None \<Rightarrow> us_family s = AF_INET \<and> ep_family e = AF_INET6
    | Some d \<Rightarrow> endpoint_ok d \<and> ep_family d = us_family s \<and> stands_for d = stands_for e"
  using assms mapped_eq
  by (auto simp: destination_def endpoint_ok_def stands_for_def new_endpoint_def mapped_prefix_def)

lemma collect_spec:
  "distinct out \<Longrightarrow> distinct (collect items out) \<and>
   set (collect items out) = set out \<union> {e. \<exists>(raw, len) \<in> set items. from_sockaddr raw len = Some e}"
  by (induction items out rule: collect.induct) (auto split: option.splits)

lemma collect_order:
  "\<exists>new. collect items out = out @ new \<and> subseq new (List.map_filter (\<lambda>(raw, len). from_sockaddr raw len) items)"
proof (induction items out rule: collect.induct)
  case (2 raw len items out)
  show ?case
  proof (cases "from_sockaddr raw len")
    case (Some e)
    let ?out = "if e \<in> set out then out else out @ [e]"
    from 2(2) [OF Some] obtain new where
      "collect items ?out = ?out @ new" "subseq new (List.map_filter (\<lambda>(raw, len). from_sockaddr raw len) items)" by auto
    then show ?thesis using Some by (intro exI [of _ "if e \<in> set out then new else e # new"])
      (auto simp: List.map_filter_simps)
  qed (use 2 in \<open>simp add: List.map_filter_simps\<close>)
qed (simp add: List.map_filter_simps)

text \<open>The endpoints of a name are the addresses the system gave for it, each once and in its order.\<close>

lemma resolve_all_lists:
  "\<exists>answer items. snd (resolve_all sys host port tr) = tr @ [Getaddrinfo host (to_string (unat port)) answer] \<and>
     items = List.map_filter (\<lambda>(raw, len). from_sockaddr raw len) (case answer of None \<Rightarrow> [] | Some a \<Rightarrow> a) \<and>
     distinct (fst (resolve_all sys host port tr)) \<and> set (fst (resolve_all sys host port tr)) = set items \<and>
     subseq (fst (resolve_all sys host port tr)) items"
proof -
  let ?service = "to_string (unat port)"
  let ?answer = "a_getaddrinfo sys tr host ?service"
  let ?list = "case ?answer of None \<Rightarrow> [] | Some a \<Rightarrow> a"
  have "resolve_all sys host port tr = (collect ?list [], tr @ [Getaddrinfo host ?service ?answer])"
    by (simp add: resolve_all_def ask_def split: option.split)
  moreover have "set (collect ?list []) = set (List.map_filter (\<lambda>(raw, len). from_sockaddr raw len) ?list)"
    using collect_spec [of "[]" ?list] by (auto simp: List.map_filter_def) force+
  ultimately show ?thesis using collect_spec [of "[]" ?list] collect_order [of ?list "[]"] by auto
qed

text \<open>
  Sending to an endpoint reaches what the endpoint stands for. A socket of either family sends
  exactly one datagram with these bytes, to a socket address of its own family that, read back, stands
  for the same IPv4 or IPv6 address, scope and port, and reports whether all of it was taken; only for
  an IPv4 socket and an IPv6 endpoint nothing is sent.
\<close>

theorem send_to_reaches:
  assumes "endpoint_ok remote" and "us_family s = AF_INET \<or> us_family s = AF_INET6"
  shows "case send_to sys s data remote tr of (sent, tr') \<Rightarrow>
      if us_family s = AF_INET \<and> ep_family remote = AF_INET6 then \<not> sent \<and> tr' = tr
      else \<exists>sa len r d. tr' = tr @ [Sendto (us_fd s) data sa len r] \<and> from_sockaddr (Some sa) len = Some d \<and>
             sa_family sa = us_family s \<and> stands_for d = stands_for remote \<and> sent = (r = int (length data))"
proof (cases "destination s remote")
  case None
  then show ?thesis using destination_spec [OF assms] by (simp add: send_to_def)
next
  case (Some d)
  then have d: "endpoint_ok d" "ep_family d = us_family s" "stands_for d = stands_for remote"
    using destination_spec [OF assms] by simp_all
  moreover have "\<not> (us_family s = AF_INET \<and> ep_family remote = AF_INET6)"
    using Some by (auto simp: destination_def split: if_splits)
  moreover have "sa_family (to_sockaddr d) = us_family s"
    using d(2) assms(2) by (auto simp: to_sockaddr_def)
  ultimately show ?thesis using Some from_to_sockaddr [of d] by (auto simp: send_to_def ask_def)
qed

theorem send_to_reaches_witness:
  "let s = \<lparr>us_fd = 3, us_family = AF_INET6\<rparr>;
       remote = \<lparr>ep_family = AF_INET, ep_address = [10, 0, 0, 7] @ replicate 12 0, ep_scope_id = 0, ep_port = 4000\<rparr>
   in \<forall>sys tr. \<exists>sa len r d. snd (send_to sys s [1, 2] remote tr) = tr @ [Sendto 3 [1, 2] sa len r] \<and>
        from_sockaddr (Some sa) len = Some d \<and> stands_for d = ([10, 0, 0, 7], 0, 4000)"
proof -
  let ?s = "\<lparr>us_fd = 3, us_family = AF_INET6\<rparr>"
  let ?remote = "\<lparr>ep_family = AF_INET, ep_address = [10, 0, 0, 7] @ replicate 12 0, ep_scope_id = 0, ep_port = 4000\<rparr>"
  have "endpoint_ok ?remote" "stands_for ?remote = ([10, 0, 0, 7], 0, 4000)"
    by (simp_all add: endpoint_ok_def stands_for_def)
  then show ?thesis
    using send_to_reaches [of ?remote ?s _ "[1, 2]"] unfolding Let_def case_prod_beta by fastforce
qed

end
