(* ===== verification/Srtp.thy ===== *)
theory Srtp
  imports System_Interface Random_Hex
begin

text \<open>
  \<^verbatim>\<open>src/media/srtp.cpp\<close>: one direction of a call's SRTP. The cryptography is that of libsrtp, which
  is part of the system; what is modelled is the life of a stream and the checks around the calls.
  A buffer has an address, which matters for its alignment, a size, and the bytes it holds.
\<close>

abbreviation (input) kSrtpKeyLength :: nat where "kSrtpKeyLength \<equiv> 30"
abbreviation (input) kSrtpTrailerRoom :: nat where "kSrtpTrailerRoom \<equiv> 144"
abbreviation (input) INT_MAX :: nat where "INT_MAX \<equiv> 2147483647"

record srtp_stream =
  ss_handle :: nat
  ss_key :: "byte list"

text \<open>The library is initialised once; \<^term>\<open>None\<close> is the state before.\<close>

definition initialize :: "system \<Rightarrow> bool option \<Rightarrow> trace \<Rightarrow> bool \<times> bool option \<times> trace" where
  "initialize sys once tr =
     (case once of
        Some ready \<Rightarrow> (ready, once, tr)
      | None \<Rightarrow> (case ask SrtpInit (a_srtp_init sys) tr of (ready, tr) \<Rightarrow> (ready, Some ready, tr)))"

definition fits :: "nat \<Rightarrow> nat \<Rightarrow> nat \<Rightarrow> nat \<Rightarrow> bool" where
  "fits address capacity sz room \<longleftrightarrow>
     address mod 4 = 0 \<and> sz \<le> capacity \<and> capacity - sz \<ge> room \<and> sz \<le> INT_MAX"

definition generate_srtp_key :: "(nat \<Rightarrow> 'h \<Rightarrow> byte list option \<times> 'h) \<Rightarrow> 'h \<Rightarrow> byte list option \<times> 'h" where
  "generate_srtp_key entropy h = secure_random entropy kSrtpKeyLength h"

definition create ::
  "system \<Rightarrow> direction \<Rightarrow> byte list \<Rightarrow> bool option \<Rightarrow> trace \<Rightarrow> srtp_stream option \<times> bool option \<times> trace" where
  "create sys direction key once tr =
     (case initialize sys once tr of
        (False, once, tr) \<Rightarrow> (None, once, tr)
      | (True, once, tr) \<Rightarrow>
          (case ask (SrtpCreate direction key) (\<lambda>tr. a_srtp_create sys tr direction key) tr of
             (None, tr) \<Rightarrow> (None, once, tr)
           | (Some handle, tr) \<Rightarrow> (Some \<lparr>ss_handle = handle, ss_key = key\<rparr>, once, tr)))"

definition destroy_stream :: "srtp_stream option \<Rightarrow> trace \<Rightarrow> trace" where
  "destroy_stream st tr = (case st of None \<Rightarrow> tr | Some s \<Rightarrow> tr @ [SrtpDealloc (ss_handle s)])"

text \<open>
  The packet is the first \<^verbatim>\<open>size\<close> bytes of the buffer before the call, the result the first bytes
  of the buffer after it, as many as the size that is returned.
\<close>

definition protect ::
  "system \<Rightarrow> srtp_stream \<Rightarrow> nat \<Rightarrow> nat \<Rightarrow> byte list \<Rightarrow> trace \<Rightarrow> byte list \<times> trace" where
  "protect sys s address capacity packet tr =
     (if \<not> fits address capacity (length packet) kSrtpTrailerRoom then ([], tr)
      else case ask (SrtpProtect (ss_handle s) packet) (\<lambda>tr. a_srtp_protect sys tr (ss_handle s) packet) tr of
        ((ok, len, buf), tr) \<Rightarrow> if \<not> ok \<or> len < 0 then ([], tr) else (take (nat len) buf, tr))"

definition unprotect ::
  "system \<Rightarrow> srtp_stream \<Rightarrow> nat \<Rightarrow> nat \<Rightarrow> byte list \<Rightarrow> trace \<Rightarrow> byte list option \<times> trace" where
  "unprotect sys s address capacity packet tr =
     (if length packet < 12 + 10 \<or> \<not> fits address capacity (length packet) 0 then (None, tr)
      else case ask (SrtpUnprotect (ss_handle s) packet) (\<lambda>tr. a_srtp_unprotect sys tr (ss_handle s) packet) tr of
        ((ok, len, buf), tr) \<Rightarrow> if \<not> ok \<or> len < 0 then (None, tr) else (Some (take (nat len) buf), tr))"

end
