(* ===== verification/Engine_Host.thy ===== *)
theory Engine_Host
  imports User_Agent_Contract Media_Session Udp_Socket Srtp
begin

text \<open>
  The half of \<^verbatim>\<open>src/core/engine.cpp\<close> that serves the user agent: the engine is its host. It sends
  what the user agent sends over the UDP socket or the TLS connection, and opens, starts and closes the
  media of its calls. The state is the part of the engine these operations touch, with the trace
  of the calls to the system.

  A step that would be undefined behaviour in C++ is recorded in \<^verbatim>\<open>h_fault\<close>.

  The random numbers of \<^verbatim>\<open>start_media\<close> come from the generator the user agent draws from, which
  is an arbitrary sequence; here they are drawn from a sequence of their own, which makes no difference
  to what can happen.
\<close>

section \<open>State\<close>

datatype fault = NullSocket | NullConnection | StatsUndefined | PlayUndefined | Overrun

record host =
  h_tls :: bool
  h_sip :: "udp_socket option"
  h_media_family :: int
  h_rtp :: "udp_socket option"
  h_rtp_remote :: endpoint
  h_srtp_out :: "srtp_stream option"
  h_srtp_in :: "srtp_stream option"
  h_srtp_once :: "bool option"
  h_media :: media_session
  h_stats :: media_stats
  h_next_call_id :: u32
  h_next_frame :: time
  h_connection :: bool
  h_pending :: string
  h_random :: generator
  h_trace :: trace
  h_fault :: "fault option"

abbreviation (input) kFrame :: time where "kFrame \<equiv> 20000000"
abbreviation (input) kPendingLimit :: nat where "kPendingLimit \<equiv> 65536"

definition fail_with :: "fault \<Rightarrow> host \<Rightarrow> host" where
  "fail_with f h = h\<lparr>h_fault := Some f\<rparr>"

definition micros :: "time \<Rightarrow> int" where
  "micros t = t sdiv 1000"

definition clock_now :: "system \<Rightarrow> host \<Rightarrow> time \<times> host" where
  "clock_now sys h = (case ask Now (a_now sys) (h_trace h) of (t, tr) \<Rightarrow> (t, h\<lparr>h_trace := tr\<rparr>))"

section \<open>Signalling\<close>

definition tls_send :: "string \<Rightarrow> host \<Rightarrow> host" where
  "tls_send bytes h =
     (if h_connection h then h\<lparr>h_trace := h_trace h @ [TlsSend bytes]\<rparr> else fail_with NullConnection h)"

definition host_send_sip :: "system \<Rightarrow> string \<Rightarrow> host \<Rightarrow> host" where
  "host_send_sip sys message h =
     (if \<not> h_tls h then
        (case h_sip h of
           None \<Rightarrow> fail_with NullSocket h
         | Some s \<Rightarrow> h\<lparr>h_trace := snd (send sys s (data_of message) (h_trace h))\<rparr>)
      else if h_connection h then tls_send message h
      else if length (h_pending h) + length message \<le> kPendingLimit then h\<lparr>h_pending := h_pending h @ message\<rparr>
      else h)"

section \<open>Media\<close>

definition publish_stats :: "host \<Rightarrow> host" where
  "publish_stats h =
     (case stats (h_media h) of None \<Rightarrow> fail_with StatsUndefined h | Some st \<Rightarrow> h\<lparr>h_stats := st\<rparr>)"

definition host_open_media :: "system \<Rightarrow> host \<Rightarrow> u16 \<times> host" where
  "host_open_media sys h =
     (let (opened, tr) = open_socket sys (h_media_family h) (h_trace h);
          (rtp, tr) = assign_optional (h_rtp h) opened tr;
          h = h\<lparr>h_rtp := rtp, h_trace := tr\<rparr>
      in case rtp of
           None \<Rightarrow> (0, h)
         | Some s \<Rightarrow>
             (case local sys s tr of
                (None, tr) \<Rightarrow> (0, h\<lparr>h_rtp := None, h_trace := reset_optional rtp tr\<rparr>)
              | (Some e, tr) \<Rightarrow> (ep_port e, h\<lparr>h_trace := tr\<rparr>)))"

text \<open>One direction of \<^verbatim>\<open>use_keys\<close>: the old stream is destroyed when the new one is in place.\<close>

definition use_key ::
  "system \<Rightarrow> direction \<Rightarrow> byte list \<Rightarrow> srtp_stream option \<Rightarrow> bool option \<Rightarrow> trace \<Rightarrow>
    bool \<times> srtp_stream option \<times> bool option \<times> trace" where
  "use_key sys d k old once tr =
     (if old = None \<or> map_option ss_key old \<noteq> Some k
      then (case create sys d k once tr of
              (None, once, tr) \<Rightarrow> (False, old, once, tr)
            | (Some new, once, tr) \<Rightarrow> (True, Some new, once, destroy_stream old tr))
      else (True, old, once, tr))"

definition use_keys :: "system \<Rightarrow> media_keys \<Rightarrow> host \<Rightarrow> bool \<times> host" where
  "use_keys sys keys h =
     (if length (mk_local keys) \<noteq> kSrtpKeyLength \<or> length (mk_remote keys) \<noteq> kSrtpKeyLength then (False, h)
      else case use_key sys Outbound (mk_local keys) (h_srtp_out h) (h_srtp_once h) (h_trace h) of
        (ok, out, once, tr) \<Rightarrow>
          let h = h\<lparr>h_srtp_out := out, h_srtp_once := once, h_trace := tr\<rparr>
          in if \<not> ok then (False, h)
             else case use_key sys Inbound (mk_remote keys) (h_srtp_in h) once tr of
               (ok, inb, once, tr) \<Rightarrow> (ok, h\<lparr>h_srtp_in := inb, h_srtp_once := once, h_trace := tr\<rparr>))"

definition reset_streams :: "host \<Rightarrow> host" where
  "reset_streams h =
     h\<lparr>h_srtp_out := None, h_srtp_in := None,
       h_trace := destroy_stream (h_srtp_in h) (destroy_stream (h_srtp_out h) (h_trace h))\<rparr>"

definition pick_endpoint :: "int \<Rightarrow> endpoint list \<Rightarrow> endpoint option" where
  "pick_endpoint family es =
     (case find (\<lambda>e. ep_family e = family) es of
        Some e \<Rightarrow> Some e
      | None \<Rightarrow> if family = AF_INET6 then find (\<lambda>e. ep_family e = AF_INET) es else None)"

definition begin_media :: "system \<Rightarrow> host \<Rightarrow> host" where
  "begin_media sys h =
     (let (src, g) = random_u32 (h_random h);
          (sq, g) = random_u32 g;
          (ts, g) = random_u32 g;
          (t, h) = clock_now sys (h\<lparr>h_random := g, h_media := Media_Session.start (h_media h) src (ucast sq) ts\<rparr>)
      in h\<lparr>h_next_frame := t\<rparr>)"

definition aim_media :: "system \<Rightarrow> udp_socket \<Rightarrow> remote_media \<Rightarrow> host \<Rightarrow> host" where
  "aim_media sys rtp remote h =
     (let (es, tr) = resolve_all sys (rm_address remote) (of_nat (rm_port remote)) (h_trace h);
          h = h\<lparr>h_trace := tr\<rparr>
      in case pick_endpoint (us_family rtp) es of
           None \<Rightarrow> h
         | Some e \<Rightarrow>
             (let h = h\<lparr>h_rtp_remote := e\<rparr> in if active (h_media h) then h else begin_media sys h))"

definition host_start_media :: "system \<Rightarrow> remote_media \<Rightarrow> host \<Rightarrow> bool \<times> host" where
  "host_start_media sys remote h =
     (case h_rtp h of
        None \<Rightarrow> (True, h)
      | Some rtp \<Rightarrow>
          (case rm_srtp remote of
             None \<Rightarrow> (True, aim_media sys rtp remote (reset_streams h))
           | Some keys \<Rightarrow>
               (case use_keys sys keys h of
                  (False, h) \<Rightarrow> (False, h)
                | (True, h) \<Rightarrow> (True, aim_media sys rtp remote h))))"

definition host_close_media :: "host \<Rightarrow> host" where
  "host_close_media h =
     (let h = (if active (h_media h) then publish_stats h else h);
          h = h\<lparr>h_media := Media_Session.stop (h_media h)\<rparr>;
          h = h\<lparr>h_rtp := None, h_trace := reset_optional (h_rtp h) (h_trace h)\<rparr>
      in reset_streams h)"

section \<open>Other services\<close>

text \<open>\<^verbatim>\<open>fetch_add\<close> on a 32-bit counter, read as signed.\<close>

definition host_allocate_call_id :: "host \<Rightarrow> int \<times> host" where
  "host_allocate_call_id h = (sint (h_next_call_id h), h\<lparr>h_next_call_id := h_next_call_id h + 1\<rparr>)"

definition host_getentropy :: "system \<Rightarrow> nat \<Rightarrow> host \<Rightarrow> byte list option \<times> host" where
  "host_getentropy sys n h =
     (case ask (Getentropy n) (\<lambda>tr. a_getentropy sys tr n) (h_trace h) of (r, tr) \<Rightarrow> (r, h\<lparr>h_trace := tr\<rparr>))"

definition engine_host :: "system \<Rightarrow> host ua_host" where
  "engine_host sys =
     \<lparr>send_sip = host_send_sip sys, open_media = host_open_media sys, start_media = host_start_media sys,
      close_media = host_close_media, allocate_call_id = host_allocate_call_id, getentropy = host_getentropy sys\<rparr>"

end
