(* ===== verification/Engine_Contract.thy ===== *)
theory Engine_Contract
  imports Engine_Host
begin

text \<open>
  The engine keeps the contract of a host of the user agent. The invariant of its state ties the
  sockets, the SRTP streams and the TLS connection it holds to the trace of the calls it made: every
  descriptor, session and connection is used and given back only while it is held, and nothing is
  held that the state does not know of. Over TLS, nothing is sent on a UDP socket that libsrtp has
  not just made of a packet with a stream of the call.
\<close>

section \<open>Traces\<close>

text \<open>What may be sent over UDP, and handed to the media session, by an engine that signals over TLS.\<close>

definition protected_by :: "trace \<Rightarrow> byte list \<Rightarrow> bool" where
  "protected_by tr data \<longleftrightarrow> (\<exists>pre s packet n buf k. tr = pre @ [SrtpProtect s packet (True, n, buf)] \<and> 0 \<le> n \<and>
     data = take (nat n) buf \<and> created pre s = Some (Outbound, k))"

definition authentic :: "trace \<Rightarrow> byte list \<Rightarrow> bool" where
  "authentic tr data \<longleftrightarrow> (\<exists>pre s packet n buf k. tr = pre @ [SrtpUnprotect s packet (True, n, buf)] \<and> 0 \<le> n \<and>
     data = take (nat n) buf \<and> created pre s = Some (Inbound, k))"

definition secure_call :: "trace \<Rightarrow> sys_call \<Rightarrow> bool" where
  "secure_call tr c =
     (case c of
        Send fd data r \<Rightarrow> False
      | Sendto fd data sa len r \<Rightarrow> protected_by tr data
      | Hear data \<Rightarrow> authentic tr data
      | _ \<Rightarrow> True)"

definition secured_trace :: "trace \<Rightarrow> bool" where
  "secured_trace tr \<longleftrightarrow> (\<forall>i < length tr. secure_call (take i tr) (tr ! i))"

lemma secured_snoc [simp]: "secured_trace (tr @ [c]) \<longleftrightarrow> secured_trace tr \<and> secure_call tr c"
  unfolding secured_trace_def length_append_singleton All_less_Suc by (auto simp: nth_append)

definition trace_good :: "bool \<Rightarrow> trace \<Rightarrow> bool" where
  "trace_good sec tr \<longleftrightarrow>
     disciplined descriptors tr \<and> disciplined srtp_sessions tr \<and> disciplined tls_connections tr \<and>
     (sec \<longrightarrow> secured_trace tr)"

text \<open>The calls that touch no resource.\<close>

definition neutral :: "sys_call \<Rightarrow> bool" where
  "neutral c =
     (case c of
        Now t \<Rightarrow> True
      | Pipe ok \<Rightarrow> True
      | Getaddrinfo h s r \<Rightarrow> True
      | Getentropy n r \<Rightarrow> True
      | SrtpInit r \<Rightarrow> True
      | SrtpCreate d k r \<Rightarrow> r = None
      | ConnectTls opts g ok \<Rightarrow> \<not> ok
      | Socket f fd \<Rightarrow> fd < 0
      | _ \<Rightarrow> False)"

definition same_held :: "trace \<Rightarrow> trace \<Rightarrow> bool" where
  "same_held tr tr' \<longleftrightarrow> held descriptors tr' = held descriptors tr \<and> held srtp_sessions tr' = held srtp_sessions tr \<and>
     held tls_connections tr' = held tls_connections tr \<and> created tr' = created tr"

definition same_streams :: "trace \<Rightarrow> trace \<Rightarrow> bool" where
  "same_streams tr tr' \<longleftrightarrow> held srtp_sessions tr' = held srtp_sessions tr \<and>
     held tls_connections tr' = held tls_connections tr \<and> created tr' = created tr"

lemma neutral_call:
  "neutral c \<Longrightarrow> trace_good sec (tr @ [c]) = trace_good sec tr \<and> same_held tr (tr @ [c])"
  by (cases c) (auto simp: neutral_def trace_good_def same_held_def resource_calls secure_call_def created_def)

text \<open>A call on a descriptor that is held.\<close>

definition on_descriptor :: "int \<Rightarrow> sys_call \<Rightarrow> bool" where
  "on_descriptor fd c =
     (case c of
        SetV6only d r \<Rightarrow> d = fd | GetFlags d r \<Rightarrow> d = fd | SetNonblock d r \<Rightarrow> d = fd | SetCloexec d \<Rightarrow> d = fd
      | Bind d sa n r \<Rightarrow> d = fd | Connect d sa n r \<Rightarrow> d = fd | Getsockname d r \<Rightarrow> d = fd | Recvfrom d n r \<Rightarrow> d = fd
      | _ \<Rightarrow> False)"

lemma descriptor_call:
  "on_descriptor fd c \<Longrightarrow> fd \<in> held descriptors tr \<Longrightarrow>
   trace_good sec (tr @ [c]) = trace_good sec tr \<and> same_held tr (tr @ [c])"
  by (cases c) (auto simp: on_descriptor_def trace_good_def same_held_def resource_calls secure_call_def created_def)

lemma close_call:
  "fd \<in> held descriptors tr \<Longrightarrow> trace_good sec (tr @ [Close fd]) = trace_good sec tr \<and>
   held descriptors (tr @ [Close fd]) = held descriptors tr - {fd} \<and> same_streams tr (tr @ [Close fd])"
  by (auto simp: trace_good_def same_streams_def resource_calls secure_call_def created_def)

lemma socket_call:
  "fresh_resources sys \<Longrightarrow> fd = a_socket sys tr f \<Longrightarrow> fd \<ge> 0 \<Longrightarrow>
   trace_good sec (tr @ [Socket f fd]) = trace_good sec tr \<and> fd \<notin> held descriptors tr \<and>
   held descriptors (tr @ [Socket f fd]) = insert fd (held descriptors tr) \<and> same_streams tr (tr @ [Socket f fd])"
  by (auto simp: fresh_resources_def trace_good_def same_streams_def resource_calls secure_call_def created_def)

lemma same_held_trans: "same_held a b \<Longrightarrow> same_held b c \<Longrightarrow> same_held a c"
  by (simp add: same_held_def)

lemma same_streams_trans: "same_streams a b \<Longrightarrow> same_streams b c \<Longrightarrow> same_streams a c"
  by (simp add: same_streams_def)

lemma same_held_streams: "same_held a b \<Longrightarrow> same_streams a b"
  by (simp add: same_held_def same_streams_def)

text \<open>Calls that leave what is held as it is, and the trace as good as it was.\<close>

definition keeps :: "trace \<Rightarrow> trace \<Rightarrow> bool" where
  "keeps tr tr' \<longleftrightarrow> (\<forall>sec. trace_good sec tr' = trace_good sec tr) \<and> same_held tr tr'"

lemma keeps_refl [simp]: "keeps tr tr"
  by (simp add: keeps_def same_held_def)

lemma keeps_trans: "keeps a b \<Longrightarrow> keeps b c \<Longrightarrow> keeps a c"
  by (simp add: keeps_def same_held_def)

lemma keeps_neutral: "keeps a b \<Longrightarrow> neutral c \<Longrightarrow> keeps a (b @ [c])"
  using neutral_call [of c _ b] by (simp add: keeps_def same_held_def)

lemma keeps_on_descriptor: "keeps a b \<Longrightarrow> fd \<in> held descriptors a \<Longrightarrow> on_descriptor fd c \<Longrightarrow> keeps a (b @ [c])"
  using descriptor_call [of fd c b] by (simp add: keeps_def same_held_def)

lemma keeps_held: "keeps tr tr' \<Longrightarrow> held descriptors tr' = held descriptors tr"
  by (simp add: keeps_def same_held_def)

section \<open>Sockets\<close>

lemma make_nonblocking_keeps: "us_fd s \<in> held descriptors tr \<Longrightarrow> keeps tr (snd (make_nonblocking sys s tr))"
  by (auto simp: make_nonblocking_def Let_def case_prod_beta on_descriptor_def simp del: append_assoc
      intro!: keeps_on_descriptor [where fd = "us_fd s"])

lemma local_keeps: "us_fd s \<in> held descriptors tr \<Longrightarrow> keeps tr (snd (local sys s tr))"
  by (auto simp: local_def ask_def on_descriptor_def split: option.split intro!: keeps_on_descriptor [where fd = "us_fd s"])

lemma resolve_all_keeps: "keeps tr (snd (resolve_all sys name p tr))"
  by (auto simp: resolve_all_def ask_def Let_def neutral_def split: option.split intro!: keeps_neutral)

lemma receive_keeps: "us_fd s \<in> held descriptors tr \<Longrightarrow> keeps tr (snd (receive_from sys s room want tr))"
  by (auto simp: receive_from_def ask_def on_descriptor_def split: sum.split option.split
      intro!: keeps_on_descriptor [where fd = "us_fd s"])

lemma connect_keeps: "us_fd s \<in> held descriptors tr \<Longrightarrow> keeps tr (snd (connect sys s e tr))"
  by (auto simp: connect_def ask_def on_descriptor_def split: option.split intro!: keeps_on_descriptor [where fd = "us_fd s"])

text \<open>Giving up and finishing in \<^verbatim>\<open>UdpSocket::open\<close>, from the trace after \<^verbatim>\<open>socket()\<close>.\<close>

definition opened :: "trace \<Rightarrow> udp_socket option \<times> trace \<Rightarrow> bool" where
  "opened tr = (\<lambda>(r, tr').
     (\<forall>sec. trace_good sec tr' = trace_good sec tr) \<and> same_streams tr tr' \<and>
     (case r of
        None \<Rightarrow> held descriptors tr' = held descriptors tr
      | Some s \<Rightarrow> us_fd s \<ge> 0 \<and> us_fd s \<notin> held descriptors tr \<and>
          held descriptors tr' = insert (us_fd s) (held descriptors tr) \<and>
          (\<exists>pre sa len. tr' = pre @ [Bind (us_fd s) sa len 0])))"

lemma opened_give_up:
  assumes "keeps (tr @ [Socket f fd]) tr'" and "fresh_resources sys" and "fd = a_socket sys tr f" and "fd \<ge> 0"
    and "us_fd s = fd"
  shows "opened tr (give_up s tr')"
  using socket_call [OF assms(2-4)] close_call [of fd tr'] assms(1,4,5)
  by (auto simp: opened_def give_up_def destroy_def close_def keeps_def same_held_def same_streams_def)

lemma opened_bind:
  assumes "keeps (tr @ [Socket f fd]) tr'" and "fresh_resources sys" and "fd = a_socket sys tr f" and "fd \<ge> 0"
    and "us_fd s = fd"
  shows "opened tr (bind_any sys s tr')"
proof -
  let ?e = "new_endpoint\<lparr>ep_family := us_family s\<rparr>"
  let ?r = "a_bind sys tr' (us_fd s) (to_sockaddr ?e)"
  let ?tr = "tr' @ [Bind (us_fd s) (to_sockaddr ?e) (sockaddr_length ?e) ?r]"
  note sock = socket_call [OF assms(2-4)]
  have k: "keeps (tr @ [Socket f fd]) ?tr"
    using assms(1) sock assms(5) by (intro keeps_on_descriptor [where fd = fd]) (auto simp: on_descriptor_def)
  show ?thesis
  proof (cases "?r = 0")
    case True
    then show ?thesis
      using k sock assms(4,5)
      by (auto simp: bind_any_def Let_def case_prod_beta move_construct_def destroy_def close_def no_socket_def opened_def
          keeps_def same_held_def same_streams_def)
  next
    case False
    then show ?thesis using opened_give_up [OF k assms(2-5)] by (simp add: bind_any_def Let_def case_prod_beta)
  qed
qed

lemma opened_nothing: "keeps tr tr' \<Longrightarrow> opened tr (None, tr')"
  by (simp add: opened_def keeps_def same_held_def same_streams_def)

lemma open_socket_opened:
  assumes "fresh_resources sys"
  shows "opened tr (open_socket sys f tr)"
proof (cases "(f \<noteq> AF_INET \<and> f \<noteq> AF_INET6) \<or> a_socket sys tr f < 0")
  case True
  then show ?thesis
    by (auto simp: open_socket_def Let_def case_prod_beta neutral_def intro!: opened_nothing keeps_neutral)
next
  case False
  define fd where "fd = a_socket sys tr f"
  let ?s = "\<lparr>us_fd = fd, us_family = f\<rparr>"
  let ?tr1 = "tr @ [Socket f fd]"
  define tr2 where "tr2 = (if f = AF_INET6 then ?tr1 @ [SetV6only fd (a_option sys ?tr1 fd)] else ?tr1)"
  have fd: "fd \<ge> 0" using False by (simp add: fd_def)
  note sock = socket_call [OF assms fd_def fd]
  have on: "fd \<in> held descriptors ?tr1" using sock by simp
  have k2: "keeps ?tr1 tr2"
    using keeps_on_descriptor [OF keeps_refl on, of "SetV6only fd (a_option sys ?tr1 fd)"]
    by (auto simp: tr2_def on_descriptor_def simp del: append_assoc)
  have k3: "keeps ?tr1 (snd (make_nonblocking sys ?s tr2))"
    using keeps_trans [OF k2 make_nonblocking_keeps] keeps_held [OF k2] sock by simp
  then have k4: "keeps ?tr1 (snd (make_nonblocking sys ?s tr2) @ [SetCloexec fd])"
    using sock by (auto simp: on_descriptor_def intro!: keeps_on_descriptor [where fd = fd])
  have "open_socket sys f tr = give_up ?s tr2 \<or>
      open_socket sys f tr = give_up ?s (snd (make_nonblocking sys ?s tr2)) \<or>
      open_socket sys f tr = bind_any sys ?s (snd (make_nonblocking sys ?s tr2) @ [SetCloexec fd])"
    using False fd by (auto simp: open_socket_def Let_def case_prod_beta fd_def [symmetric] tr2_def ask_def split: bool.split)
  then show ?thesis
    using opened_give_up [OF k2 assms fd_def fd] opened_give_up [OF k3 assms fd_def fd]
      opened_bind [OF k4 assms fd_def fd] by (metis udp_socket.select_convs(1))
qed

section \<open>Streams\<close>

lemma keeps_initialize: "keeps tr (snd (snd (initialize sys once tr)))"
  by (auto simp: initialize_def ask_def neutral_def split: option.split intro!: keeps_neutral)

text \<open>A session that was made, and one that is given back.\<close>

definition gains :: "nat \<Rightarrow> direction \<Rightarrow> byte list \<Rightarrow> trace \<Rightarrow> trace \<Rightarrow> bool" where
  "gains s d k tr tr' \<longleftrightarrow> (\<forall>sec. trace_good sec tr' = trace_good sec tr) \<and>
     held descriptors tr' = held descriptors tr \<and> held tls_connections tr' = held tls_connections tr \<and>
     s \<notin> held srtp_sessions tr \<and> held srtp_sessions tr' = insert s (held srtp_sessions tr) \<and>
     created tr' = (created tr)(s \<mapsto> (d, k))"

definition loses :: "nat set \<Rightarrow> trace \<Rightarrow> trace \<Rightarrow> bool" where
  "loses S tr tr' \<longleftrightarrow> (\<forall>sec. trace_good sec tr' = trace_good sec tr) \<and>
     held descriptors tr' = held descriptors tr \<and> held tls_connections tr' = held tls_connections tr \<and>
     held srtp_sessions tr' = held srtp_sessions tr - S \<and> created tr' = created tr"

lemma create_gains:
  assumes "fresh_resources sys"
  shows "case create sys d k once tr of (r, once', tr') \<Rightarrow>
    (case r of None \<Rightarrow> keeps tr tr' | Some st \<Rightarrow> ss_key st = k \<and> gains (ss_handle st) d k tr tr')"
proof -
  obtain ready once1 tr1 where i: "initialize sys once tr = (ready, once1, tr1)" by (cases "initialize sys once tr")
  then have k1: "keeps tr tr1" using keeps_initialize [of tr sys once] by simp
  let ?r = "a_srtp_create sys tr1 d k"
  show ?thesis
  proof (cases "ready \<and> ?r \<noteq> None")
    case True
    then obtain s where s: "?r = Some s" by blast
    have "s \<notin> held srtp_sessions tr1" using assms s by (simp add: fresh_resources_def)
    then show ?thesis
      using i k1 s True
      by (auto simp: create_def ask_def gains_def keeps_def same_held_def trace_good_def resource_calls secure_call_def
          created_def fun_eq_iff)
  next
    case False
    then show ?thesis using i k1 by (cases ready) (auto simp: create_def ask_def neutral_def intro: keeps_neutral)
  qed
qed

lemma destroy_loses:
  "(\<And>st. s = Some st \<Longrightarrow> ss_handle st \<in> held srtp_sessions tr) \<Longrightarrow>
   loses (ss_handle ` set_option s) tr (destroy_stream s tr)"
  by (cases s)
    (auto simp: destroy_stream_def loses_def trace_good_def resource_calls secure_call_def created_def)

section \<open>The invariant of the host\<close>

definition stream_ok :: "trace \<Rightarrow> direction \<Rightarrow> srtp_stream option \<Rightarrow> bool" where
  "stream_ok tr d st = (case st of None \<Rightarrow> True | Some s \<Rightarrow> created tr (ss_handle s) = Some (d, ss_key s))"

definition holds_ok :: "host \<Rightarrow> bool" where
  "holds_ok h \<longleftrightarrow>
     held descriptors (h_trace h) = us_fd ` (set_option (h_sip h) \<union> set_option (h_rtp h)) \<and>
     (\<forall>s \<in> set_option (h_sip h) \<union> set_option (h_rtp h). us_fd s \<ge> 0) \<and>
     (\<forall>a b. h_sip h = Some a \<longrightarrow> h_rtp h = Some b \<longrightarrow> us_fd a \<noteq> us_fd b) \<and>
     held srtp_sessions (h_trace h) = ss_handle ` (set_option (h_srtp_out h) \<union> set_option (h_srtp_in h)) \<and>
     stream_ok (h_trace h) Outbound (h_srtp_out h) \<and> stream_ok (h_trace h) Inbound (h_srtp_in h) \<and>
     held tls_connections (h_trace h) = (if h_connection h then {()} else {})"

text \<open>What the streams and the media must be for each other.\<close>

definition media_ok :: "bool \<Rightarrow> host \<Rightarrow> bool" where
  "media_ok sec h \<longleftrightarrow> session_ok (h_media h) \<and>
     (active (h_media h) \<longrightarrow> h_rtp h \<noteq> None) \<and>
     (active (h_media h) \<longrightarrow> sec \<longrightarrow> h_srtp_out h \<noteq> None \<and> h_srtp_in h \<noteq> None) \<and>
     (\<not> sec \<longrightarrow> h_srtp_out h = None \<and> h_srtp_in h = None)"

definition link_ok :: "bool \<Rightarrow> host \<Rightarrow> bool" where
  "link_ok sec h \<longleftrightarrow> h_tls h = sec \<and> (h_sip h = None) = sec \<and> (h_connection h \<longrightarrow> sec \<and> h_pending h = []) \<and>
     length (h_pending h) \<le> kPendingLimit"

definition host_ok :: "bool \<Rightarrow> host \<Rightarrow> bool" where
  "host_ok sec h \<longleftrightarrow> trace_good sec (h_trace h) \<and> holds_ok h \<and> media_ok sec h \<and> link_ok sec h \<and>
     (h_fault h = None \<or> h_fault h = Some Overrun)"

abbreviation media_open :: "host \<Rightarrow> bool" where "media_open h \<equiv> h_rtp h \<noteq> None"

lemmas host_ok_defs = host_ok_def holds_ok_def media_ok_def link_ok_def

lemma stream_ok_created: "created tr = created tr' \<Longrightarrow> stream_ok tr = stream_ok tr'"
  by (auto simp: stream_ok_def fun_eq_iff split: option.split)

lemma host_ok_same:
  assumes "host_ok sec h" and "trace_good sec tr" and "same_held (h_trace h) tr"
  shows "host_ok sec (h\<lparr>h_trace := tr\<rparr>)"
proof -
  have "holds_ok (h\<lparr>h_trace := tr\<rparr>) = holds_ok h"
    using assms(3) stream_ok_created [of tr "h_trace h"] by (simp add: holds_ok_def same_held_def)
  then show ?thesis using assms(1,2) by (simp add: host_ok_def media_ok_def link_ok_def)
qed

lemma host_ok_keeps: "host_ok sec h \<Longrightarrow> keeps (h_trace h) tr \<Longrightarrow> host_ok sec (h\<lparr>h_trace := tr\<rparr>)"
  by (rule host_ok_same) (auto simp: keeps_def host_ok_def)

lemma host_ok_held:
  assumes "host_ok sec h"
  shows "h_sip h = Some s \<Longrightarrow> us_fd s \<in> held descriptors (h_trace h)"
    and "h_rtp h = Some s \<Longrightarrow> us_fd s \<in> held descriptors (h_trace h)"
    and "h_srtp_out h = Some st \<Longrightarrow> ss_handle st \<in> held srtp_sessions (h_trace h)"
    and "h_srtp_in h = Some st \<Longrightarrow> ss_handle st \<in> held srtp_sessions (h_trace h)"
    and "h_connection h \<Longrightarrow> () \<in> held tls_connections (h_trace h)"
  using assms by (simp_all add: host_ok_def holds_ok_def)

lemma send_call:
  "fd \<in> held descriptors tr \<Longrightarrow> trace_good False (tr @ [Send fd d r]) = trace_good False tr \<and> same_held tr (tr @ [Send fd d r])"
  by (auto simp: trace_good_def same_held_def resource_calls created_def)

lemma tls_send_call:
  "() \<in> held tls_connections tr \<Longrightarrow> trace_good sec (tr @ [TlsSend d]) = trace_good sec tr \<and> same_held tr (tr @ [TlsSend d])"
  by (auto simp: trace_good_def same_held_def resource_calls created_def secure_call_def)

lemma host_ok_send:
  assumes "host_ok sec h"
  shows "host_ok sec (host_send_sip sys m h)"
proof (cases sec)
  case False
  then obtain s where s: "h_sip h = Some s" "\<not> h_tls h" "trace_good False (h_trace h)"
    using assms by (auto simp: host_ok_def link_ok_def)
  then show ?thesis
    using send_call [OF host_ok_held(1) [OF assms s(1)]] host_ok_same [OF assms] False
    by (simp add: host_send_sip_def send_def ask_def)
next
  case True
  then have tls: "h_tls h" "trace_good sec (h_trace h)" using assms by (simp_all add: host_ok_def link_ok_def)
  show ?thesis
  proof (cases "h_connection h")
    case True
    then show ?thesis
      using tls_send_call [OF host_ok_held(5) [OF assms]] host_ok_same [OF assms] tls
      by (simp add: host_send_sip_def tls_send_def)
  next
    case False
    then show ?thesis
      using assms tls by (simp add: host_send_sip_def host_ok_def holds_ok_def media_ok_def link_ok_def)
  qed
qed

lemma host_ok_allocate: "host_ok sec h \<Longrightarrow> host_ok sec (snd (host_allocate_call_id h))"
  by (simp add: host_ok_defs host_allocate_call_id_def)

lemma host_ok_getentropy: "host_ok sec h \<Longrightarrow> host_ok sec (snd (host_getentropy sys n h))"
  by (auto simp: host_getentropy_def ask_def neutral_def intro!: host_ok_keeps keeps_neutral)

lemma host_ok_clock: "host_ok sec h \<Longrightarrow> host_ok sec (snd (clock_now sys h))"
  by (auto simp: clock_now_def ask_def neutral_def intro!: host_ok_keeps keeps_neutral)

section \<open>Opening and closing media\<close>

lemma host_ok_opened:
  assumes "host_ok sec h" and "h_rtp h = None" and "opened (h_trace h) (r, tr)"
  shows "host_ok sec (h\<lparr>h_rtp := r, h_trace := tr\<rparr>)"
proof -
  have "created tr = created (h_trace h)" using assms(3) by (simp add: opened_def same_streams_def)
  note st = stream_ok_created [OF this]
  have "holds_ok (h\<lparr>h_rtp := r, h_trace := tr\<rparr>)"
  proof (cases r)
    case None
    then show ?thesis using assms st by (simp add: host_ok_def holds_ok_def opened_def same_streams_def)
  next
    case (Some s)
    then have "us_fd s \<ge> 0" "us_fd s \<notin> us_fd ` set_option (h_sip h)" "held descriptors tr = insert (us_fd s) (us_fd ` set_option (h_sip h))"
      using assms by (simp_all add: host_ok_def holds_ok_def opened_def)
    then show ?thesis using assms st Some by (auto simp: host_ok_def holds_ok_def opened_def same_streams_def)
  qed
  then show ?thesis using assms by (simp add: host_ok_def media_ok_def link_ok_def opened_def)
qed

lemma host_ok_reset_rtp:
  assumes "host_ok sec h" and "\<not> active (h_media h)"
  shows "host_ok sec (h\<lparr>h_rtp := None, h_trace := reset_optional (h_rtp h) (h_trace h)\<rparr>)"
proof (cases "h_rtp h")
  case None
  then have "h\<lparr>h_rtp := None, h_trace := reset_optional (h_rtp h) (h_trace h)\<rparr> = h" by (simp add: reset_optional_def)
  then show ?thesis using assms(1) by (simp only:)
next
  case (Some s)
  let ?tr = "h_trace h @ [Close (us_fd s)]"
  note c = close_call [OF host_ok_held(2) [OF assms(1) Some]]
  have "created ?tr = created (h_trace h)" using c by (simp add: same_streams_def)
  note st = stream_ok_created [OF this]
  have fds: "us_fd s \<ge> 0" "us_fd s \<notin> us_fd ` set_option (h_sip h)"
    "held descriptors (h_trace h) = insert (us_fd s) (us_fd ` set_option (h_sip h))"
    using assms(1) Some by (auto simp: host_ok_def holds_ok_def)
  then have "held descriptors ?tr = us_fd ` set_option (h_sip h)" using c by simp
  then have "holds_ok (h\<lparr>h_rtp := None, h_trace := ?tr\<rparr>)"
    using assms(1) c st by (simp add: host_ok_def holds_ok_def same_streams_def)
  then show ?thesis
    using assms c Some fds(1)
    by (simp add: host_ok_def media_ok_def link_ok_def reset_optional_def destroy_def close_def)
qed

text \<open>What the manual of \<^verbatim>\<open>bind\<close> promises: a socket bound to port 0 gets a port.\<close>

definition ports_given :: "system \<Rightarrow> bool" where
  "ports_given sys \<longleftrightarrow> (\<forall>tr fd sa len a n e. a_getsockname sys (tr @ [Bind fd sa len 0]) fd = Some (a, n) \<longrightarrow>
     from_sockaddr (Some a) n = Some e \<longrightarrow> ep_port e \<noteq> 0)"

lemma assign_empty: "assign_optional None r tr = (r, tr)"
  by (simp add: assign_optional_def reset_optional_def move_construct_def destroy_def close_def no_socket_def split: option.split)

lemma host_ok_open:
  assumes "host_ok sec h" and "\<not> media_open h" and "fresh_resources sys" and "ports_given sys"
  shows "host_ok sec (snd (host_open_media sys h)) \<and>
    media_open (snd (host_open_media sys h)) = (fst (host_open_media sys h) \<noteq> 0)"
proof -
  obtain r tr where r: "open_socket sys (h_media_family h) (h_trace h) = (r, tr)" by force
  then have o: "opened (h_trace h) (r, tr)" using open_socket_opened [OF assms(3)] by metis
  let ?h = "h\<lparr>h_rtp := r, h_trace := tr\<rparr>"
  have ok: "host_ok sec ?h" using host_ok_opened [OF assms(1) _ o] assms(2) by simp
  show ?thesis
  proof (cases r)
    case None
    then show ?thesis using ok r assms(2) by (simp add: host_open_media_def assign_empty)
  next
    case (Some s)
    obtain e tr2 where l: "local sys s tr = (e, tr2)" by force
    have k: "keeps tr tr2" using local_keeps [of s tr sys] host_ok_held(2) [OF ok, of s] Some l by simp
    then have ok2: "host_ok sec (?h\<lparr>h_trace := tr2\<rparr>)" using host_ok_keeps [OF ok] by simp
    have "\<not> active (h_media h)" using assms(1,2) by (auto simp: host_ok_def media_ok_def)
    then have ok3: "host_ok sec (h\<lparr>h_rtp := None, h_trace := reset_optional r tr2\<rparr>)"
      using host_ok_reset_rtp [OF ok2] by simp
    obtain pre sa len where "tr = pre @ [Bind (us_fd s) sa len 0]" using o Some by (auto simp: opened_def)
    then have "e = Some x \<Longrightarrow> ep_port x \<noteq> 0" for x
      using l assms(4) by (auto simp: local_def ask_def ports_given_def split: option.splits prod.splits)
    then show ?thesis
      using r l Some assms(2) ok2 ok3 by (cases e) (simp_all add: host_open_media_def assign_empty)
  qed
qed

section \<open>Starting media\<close>

definition other_way :: "direction \<Rightarrow> direction" where
  "other_way d = (case d of Outbound \<Rightarrow> Inbound | Inbound \<Rightarrow> Outbound)"

lemma streams_apart:
  "stream_ok tr d a \<Longrightarrow> stream_ok tr (other_way d) b \<Longrightarrow> ss_handle ` set_option a \<inter> ss_handle ` set_option b = {}"
  by (cases d; cases a; cases b) (auto simp: stream_ok_def other_way_def)

text \<open>Taking a key in one direction, with the stream of the other direction as it is.\<close>

lemma use_key_spec:
  assumes "fresh_resources sys" and "use_key sys d k old once tr = (ok, new, once', tr')"
    and held: "held srtp_sessions tr = ss_handle ` (set_option old \<union> set_option other)"
    and streams: "stream_ok tr d old" "stream_ok tr (other_way d) other"
  shows "(\<forall>sec. trace_good sec tr' = trace_good sec tr) \<and> held descriptors tr' = held descriptors tr \<and>
    held tls_connections tr' = held tls_connections tr \<and>
    held srtp_sessions tr' = ss_handle ` (set_option new \<union> set_option other) \<and>
    stream_ok tr' d new \<and> stream_ok tr' (other_way d) other \<and>
    (if ok then map_option ss_key new = Some k else new = old)"
proof (cases "old = None \<or> map_option ss_key old \<noteq> Some k")
  case False
  then show ?thesis using assms by (auto simp: use_key_def)
next
  case True
  obtain r once1 tr1 where c: "create sys d k once tr = (r, once1, tr1)" by (cases "create sys d k once tr")
  note g = create_gains [OF assms(1), where d = d and k = k and once = once and tr = tr, unfolded c]
  show ?thesis
  proof (cases r)
    case None
    then have keeps: "keeps tr tr1" and res: "ok = False" "new = old" "tr' = tr1"
      using True assms(2) c g by (simp_all add: use_key_def)
    have "stream_ok tr1 = stream_ok tr" using keeps by (intro stream_ok_created) (simp add: keeps_def same_held_def)
    then show ?thesis using keeps res held streams by (simp add: keeps_def same_held_def)
  next
    case (Some st)
    then have gain: "gains (ss_handle st) d k tr tr1" "ss_key st = k" using g by simp_all
    have res: "ok = True" "new = Some st" "tr' = destroy_stream old tr1"
      using True assms(2) c Some by (simp_all add: use_key_def)
    have lose: "loses (ss_handle ` set_option old) tr1 tr'"
      unfolding res(3) using held gain(1) by (intro destroy_loses) (auto simp: gains_def)
    have created': "created tr' = (created tr)(ss_handle st \<mapsto> (d, k))"
      and held': "held srtp_sessions tr' = insert (ss_handle st) (held srtp_sessions tr) - ss_handle ` set_option old"
      using gain(1) lose by (simp_all add: gains_def loses_def)
    have fresh: "ss_handle st \<notin> ss_handle ` (set_option old \<union> set_option other)"
      using held gain(1) by (simp add: gains_def)
    then have "stream_ok tr' (other_way d) other"
      using streams(2) created' by (cases other) (auto simp: stream_ok_def)
    moreover have "held srtp_sessions tr' = ss_handle ` (set_option new \<union> set_option other)"
      using held' fresh streams_apart [OF streams] res(2) unfolding held image_Un by auto
    moreover have "stream_ok tr' d new" using created' res(2) gain(2) by (simp add: stream_ok_def)
    ultimately show ?thesis using gain lose res by (simp add: gains_def loses_def)
  qed
qed

lemma use_keys_ok:
  assumes "host_ok True h" and "fresh_resources sys" and "use_keys sys keys h = (ok, h')"
  shows "host_ok True h' \<and> h_rtp h' = h_rtp h \<and> (ok \<longrightarrow> h_srtp_out h' \<noteq> None \<and> h_srtp_in h' \<noteq> None)"
proof (cases "length (mk_local keys) \<noteq> kSrtpKeyLength \<or> length (mk_remote keys) \<noteq> kSrtpKeyLength")
  case True
  then show ?thesis using assms by (auto simp: use_keys_def)
next
  case False
  obtain ok1 out once1 tr1 where o: "use_key sys Outbound (mk_local keys) (h_srtp_out h) (h_srtp_once h) (h_trace h) = (ok1, out, once1, tr1)"
    by (cases "use_key sys Outbound (mk_local keys) (h_srtp_out h) (h_srtp_once h) (h_trace h)")
  obtain ok2 inb once2 tr2 where i: "use_key sys Inbound (mk_remote keys) (h_srtp_in h) once1 tr1 = (ok2, inb, once2, tr2)"
    by (cases "use_key sys Inbound (mk_remote keys) (h_srtp_in h) once1 tr1")
  have held: "held srtp_sessions (h_trace h) = ss_handle ` (set_option (h_srtp_out h) \<union> set_option (h_srtp_in h))"
    and streams: "stream_ok (h_trace h) Outbound (h_srtp_out h)" "stream_ok (h_trace h) (other_way Outbound) (h_srtp_in h)"
    using assms(1) by (simp_all add: host_ok_def holds_ok_def other_way_def)
  note o' = use_key_spec [OF assms(2) o held streams]
  have held1: "held srtp_sessions tr1 = ss_handle ` (set_option (h_srtp_in h) \<union> set_option out)"
    and streams1: "stream_ok tr1 Inbound (h_srtp_in h)" "stream_ok tr1 (other_way Inbound) out"
    using o' by (auto simp: other_way_def)
  note i' = use_key_spec [OF assms(2) i held1 streams1]
  let ?h1 = "h\<lparr>h_srtp_out := out, h_srtp_once := once1, h_trace := tr1\<rparr>"
  let ?h2 = "?h1\<lparr>h_srtp_in := inb, h_srtp_once := once2, h_trace := tr2\<rparr>"
  have out: "h_srtp_out h \<noteq> None \<or> ok1 \<Longrightarrow> out \<noteq> None" and inb: "h_srtp_in h \<noteq> None \<or> ok2 \<Longrightarrow> inb \<noteq> None"
    using o' i' by (auto split: if_splits)
  have "host_ok True ?h1"
    using assms(1) o' out by (auto simp: host_ok_def holds_ok_def media_ok_def link_ok_def other_way_def)
  moreover have "host_ok True ?h2"
    using assms(1) o' i' out inb by (auto simp: host_ok_def holds_ok_def media_ok_def link_ok_def other_way_def)
  moreover have "(ok, h') = (if ok1 then (ok2, ?h2) else (False, ?h1))"
    using assms(3) False o i by (auto simp: use_keys_def Let_def)
  ultimately show ?thesis using out inb by (auto split: if_splits)
qed

lemma host_ok_reset_streams:
  assumes "host_ok sec h" and "sec \<Longrightarrow> \<not> active (h_media h)"
  shows "host_ok sec (reset_streams h)"
proof -
  let ?tr1 = "destroy_stream (h_srtp_out h) (h_trace h)" and ?tr2 = "h_trace (reset_streams h)"
  have l1: "loses (ss_handle ` set_option (h_srtp_out h)) (h_trace h) ?tr1"
    using host_ok_held(3) [OF assms(1)] by (intro destroy_loses) simp
  have apart: "ss_handle ` set_option (h_srtp_out h) \<inter> ss_handle ` set_option (h_srtp_in h) = {}"
    using assms(1) streams_apart [of "h_trace h" Outbound] by (simp add: host_ok_def holds_ok_def other_way_def)
  have "ss_handle st \<in> held srtp_sessions ?tr1" if "h_srtp_in h = Some st" for st
    using host_ok_held(4) [OF assms(1) that] l1 apart that by (auto simp: loses_def)
  then have l2: "loses (ss_handle ` set_option (h_srtp_in h)) ?tr1 ?tr2"
    using destroy_loses [of "h_srtp_in h" ?tr1] by (simp add: reset_streams_def)
  have "held srtp_sessions ?tr2 = {}" using l1 l2 assms(1) by (auto simp: loses_def host_ok_def holds_ok_def)
  then have "holds_ok (reset_streams h)"
    using l1 l2 assms(1) by (simp add: reset_streams_def host_ok_def holds_ok_def loses_def stream_ok_def)
  moreover have "trace_good sec ?tr2" using l1 l2 assms(1) by (simp add: loses_def host_ok_def)
  ultimately show ?thesis
    using assms by (auto simp: reset_streams_def host_ok_def media_ok_def link_ok_def)
qed

lemma begin_media_ok:
  assumes "host_ok sec h" and "h_rtp h \<noteq> None" and "sec \<Longrightarrow> h_srtp_out h \<noteq> None \<and> h_srtp_in h \<noteq> None"
  shows "host_ok sec (begin_media sys h) \<and> h_rtp (begin_media sys h) = h_rtp h"
proof -
  have k: "keeps (h_trace h) (h_trace h @ [Now t])" for t by (rule keeps_neutral) (simp_all add: neutral_def)
  have "host_ok sec (h\<lparr>h_random := g, h_media := Media_Session.start (h_media h) a b c,
      h_trace := h_trace h @ [Now t], h_next_frame := t\<rparr>)" for g a b c t
    using host_ok_keeps [OF assms(1) k] assms(2,3) start_ok
    by (simp add: host_ok_def holds_ok_def media_ok_def link_ok_def)
  then show ?thesis by (simp add: begin_media_def clock_now_def ask_def random_u32_def Let_def)
qed

lemma aim_media_ok:
  assumes "host_ok sec h" and "h_rtp h \<noteq> None" and "sec \<Longrightarrow> h_srtp_out h \<noteq> None \<and> h_srtp_in h \<noteq> None"
  shows "host_ok sec (aim_media sys s rm h) \<and> h_rtp (aim_media sys s rm h) = h_rtp h"
proof -
  obtain es tr where r: "resolve_all sys (rm_address rm) (of_nat (rm_port rm)) (h_trace h) = (es, tr)" by force
  then have "keeps (h_trace h) tr" using resolve_all_keeps [of "h_trace h" sys] by (metis snd_conv)
  then have ok: "host_ok sec (h\<lparr>h_trace := tr\<rparr>)" by (rule host_ok_keeps [OF assms(1)])
  then have ok2: "host_ok sec (h\<lparr>h_trace := tr, h_rtp_remote := e\<rparr>)" for e
    by (simp add: host_ok_def holds_ok_def media_ok_def link_ok_def)
  show ?thesis
    using ok ok2 begin_media_ok [OF ok2] assms(2,3) by (simp add: aim_media_def r Let_def split: option.split)
qed

lemma host_ok_start:
  assumes "host_ok sec h" and "fresh_resources sys" and "secured sec rm"
  shows "host_ok sec (snd (host_start_media sys rm h)) \<and> h_rtp (snd (host_start_media sys rm h)) = h_rtp h"
proof (cases "h_rtp h")
  case None
  then show ?thesis using assms(1) by (simp add: host_start_media_def)
next
  case (Some s)
  show ?thesis
  proof (cases "rm_srtp rm")
    case None
    then have "\<not> sec" using assms(3) by (simp add: secured_def)
    then have "host_ok sec (reset_streams h)" by (intro host_ok_reset_streams [OF assms(1)]) simp
    from aim_media_ok [OF this] None Some \<open>\<not> sec\<close> show ?thesis
      by (simp add: host_start_media_def reset_streams_def)
  next
    case (Some keys)
    then have sec: "sec = True" using assms(3) by (simp add: secured_def)
    obtain ok h' where u: "use_keys sys keys h = (ok, h')" by force
    note u' = use_keys_ok [OF assms(1) [unfolded sec] assms(2) u]
    from aim_media_ok [of True h'] u u' sec Some \<open>h_rtp h = Some s\<close> show ?thesis
      by (cases ok) (simp_all add: host_start_media_def)
  qed
qed

lemma host_ok_publish: "host_ok sec h \<Longrightarrow> host_ok sec (publish_stats h)"
proof -
  assume ok: "host_ok sec h"
  then obtain st where "stats (h_media h) = Some st"
    using stats_defined [of "h_media h"] by (auto simp: host_ok_def media_ok_def)
  with ok show ?thesis by (simp add: publish_stats_def host_ok_def holds_ok_def media_ok_def link_ok_def)
qed

lemma host_ok_close:
  assumes "host_ok sec h"
  shows "host_ok sec (host_close_media h) \<and> \<not> media_open (host_close_media h)"
proof -
  let ?h1 = "if active (h_media h) then publish_stats h else h"
  have "host_ok sec ?h1" using assms host_ok_publish by simp
  then have "host_ok sec (?h1\<lparr>h_media := Media_Session.stop (h_media ?h1)\<rparr>)"
    by (simp add: host_ok_def holds_ok_def media_ok_def link_ok_def Media_Session.stop_def session_ok_def)
  note ok = host_ok_reset_streams [OF host_ok_reset_rtp [OF this]]
  show ?thesis
    using ok by (simp add: host_close_media_def Let_def Media_Session.stop_def) (simp add: reset_streams_def)
qed

section \<open>The contract\<close>

definition system_ok :: "system \<Rightarrow> bool" where
  "system_ok sys \<longleftrightarrow> fresh_resources sys \<and> full_entropy sys \<and> ports_given sys"

lemma aim_media_rtp [simp]: "h_rtp (aim_media sys s rm h) = h_rtp h"
  by (simp add: aim_media_def begin_media_def clock_now_def ask_def Let_def case_prod_beta split: option.split)

lemma use_keys_rtp: "use_keys sys keys h = (ok, h') \<Longrightarrow> h_rtp h' = h_rtp h"
  by (auto simp: use_keys_def Let_def split: if_splits prod.splits)

lemma media_open_simps [simp]:
  "h_rtp (host_send_sip sys m h) = h_rtp h" "h_rtp (snd (host_start_media sys rm h)) = h_rtp h"
  "h_rtp (host_close_media h) = None" "h_rtp (snd (host_allocate_call_id h)) = h_rtp h"
  "h_rtp (snd (host_getentropy sys n h)) = h_rtp h"
proof -
  show "h_rtp (snd (host_start_media sys rm h)) = h_rtp h"
    by (auto simp: host_start_media_def reset_streams_def dest: use_keys_rtp split: option.split prod.split bool.split)
qed (simp_all add: host_send_sip_def tls_send_def fail_with_def host_close_media_def reset_streams_def
    host_allocate_call_id_def host_getentropy_def ask_def Let_def split: option.split)

lemma engine_contract:
  assumes "system_ok sys"
  shows "ua_contract (engine_host sys) (host_ok sec) media_open sec"
proof -
  have sys: "fresh_resources sys" "full_entropy sys" "ports_given sys" using assms by (simp_all add: system_ok_def)
  have "full_reads (host_getentropy sys)"
    using sys(2) by (auto simp: full_reads_def full_entropy_def host_getentropy_def ask_def)
  then show ?thesis
    by unfold_locales
      (simp_all add: engine_host_def host_ok_send host_ok_open sys host_ok_start host_ok_close host_ok_allocate
        host_ok_getentropy del: not_None_eq)
qed

end
