(* ===== verification/Pem.thy ===== *)
theory Pem
  imports Base64
begin

text \<open>
  Reading certificates out of PEM text, \<^verbatim>\<open>src/net/pem.cpp\<close>.
\<close>

definition kBegin :: string where "kBegin = ''-----BEGIN CERTIFICATE-----''"
definition kEnd :: string where "kEnd = ''-----END CERTIFICATE-----''"

definition is_pem_blank :: "char \<Rightarrow> bool" where
  "is_pem_blank c \<longleftrightarrow> c = CR \<or> c = LF \<or> c = CHR '' '' \<or> c = TAB"

function pem_loop :: "string \<Rightarrow> byte list list \<Rightarrow> byte list list option" where
  "pem_loop pem out =
     (case find_str kBegin pem of
        None \<Rightarrow> Some out
      | Some begin' \<Rightarrow>
          (let pem = drop (begin' + length kBegin) pem
           in case find_str kEnd pem of
                None \<Rightarrow> None
              | Some end' \<Rightarrow>
                  (case base64_decode (filter (\<lambda>c. \<not> is_pem_blank c) (take end' pem)) of
                     None \<Rightarrow> None
                   | Some der \<Rightarrow>
                       if der = [] then None
                       else pem_loop (drop (end' + length kEnd) pem) (out @ [der]))))"
  by pat_completeness auto
termination
proof (relation "measure (\<lambda>(pem, out). length pem)")
  fix pem :: string and out :: "byte list list" and b rest e der
  assume "find_str kBegin pem = Some b" and "rest = drop (b + length kBegin) pem"
  then show "((drop (e + length kEnd) rest, out @ [der]), pem, out) \<in> measure (\<lambda>(pem, out). length pem)"
    by (cases pem) (auto simp: kBegin_def)
qed simp

declare pem_loop.simps [simp del]

definition pem_certificates :: "string \<Rightarrow> byte list list option" where
  "pem_certificates pem =
     (case pem_loop pem [] of
        None \<Rightarrow> None
      | Some out \<Rightarrow> if out = [] then None else Some out)"

section \<open>Writing certificates\<close>

text \<open>A certificate as it is written: the base64 of its bytes cut into lines.\<close>

fun wrap_lines :: "nat \<Rightarrow> string \<Rightarrow> string" where
  "wrap_lines w [] = []"
| "wrap_lines w (c # s) = take (Suc w) (c # s) @ [LF] @ wrap_lines w (drop w s)"

definition pem_text :: "nat \<Rightarrow> byte list \<Rightarrow> string" where
  "pem_text w der = kBegin @ [LF] @ wrap_lines w (base64_encode der) @ kEnd @ [LF]"

text \<open>A file of certificates, each with text before it that holds no dash.\<close>

definition pem_file :: "nat \<Rightarrow> (string \<times> byte list) list \<Rightarrow> string" where
  "pem_file w certs = concat (map (\<lambda>(comment, der). comment @ pem_text w der) certs)"

lemma wrap_lines_letters: "set (wrap_lines w s) \<subseteq> set s \<union> {LF}"
  by (induction w s rule: wrap_lines.induct) (auto dest: in_set_takeD in_set_dropD)

lemma filter_wrap_lines:
  "\<forall>c \<in> set s. \<not> is_pem_blank c \<Longrightarrow> filter (\<lambda>c. \<not> is_pem_blank c) (wrap_lines w s) = s"
proof (induction w s rule: wrap_lines.induct)
  case (2 w c s)
  then have "filter (\<lambda>c. \<not> is_pem_blank c) (take w s) = take w s"
    by (intro filter_True) (auto dest: in_set_takeD)
  moreover have "\<forall>c \<in> set (drop w s). \<not> is_pem_blank c" using 2 by (auto dest: in_set_dropD)
  ultimately show ?case using 2 by (simp add: is_pem_blank_def)
qed simp

lemma base64_pem:
  "c \<in> set (base64_encode der) \<Longrightarrow> c \<noteq> CHR ''-'' \<and> \<not> is_pem_blank c"
proof -
  assume c: "c \<in> set (base64_encode der)"
  have "\<forall>c \<in> set kAlphabet \<union> {CHR ''=''}. c \<noteq> CHR ''-'' \<and> \<not> is_pem_blank c"
    by (simp add: kAlphabet_def is_pem_blank_def)
  then show ?thesis using base64_letters [of der] c by blast
qed

lemma find_str_at:
  assumes "CHR ''-'' \<notin> set l" and "p = CHR ''-'' # q"
  shows "find_str p (l @ p @ rest) = Some (length l)"
proof -
  have "find_str p (p @ rest) = Some 0"
    using assms(2) starts_with_append [of p rest] by simp
  then show ?thesis using assms find_str_skip [of l "CHR ''-''" q "p @ rest"] by auto
qed

lemma pem_loop_body:
  assumes "CHR ''-'' \<notin> set comment" and "CHR ''-'' \<notin> set body"
    and "base64_decode (filter (\<lambda>c. \<not> is_pem_blank c) body) = Some der" and "der \<noteq> []"
  shows "pem_loop (comment @ kBegin @ body @ kEnd @ rest) out = pem_loop rest (out @ [der])"
proof -
  have "find_str kBegin (comment @ kBegin @ body @ kEnd @ rest) = Some (length comment)"
    using assms(1) by (intro find_str_at) (simp_all add: kBegin_def)
  moreover have "find_str kEnd (body @ kEnd @ rest) = Some (length body)"
    using assms(2) by (intro find_str_at) (simp_all add: kEnd_def)
  ultimately show ?thesis using assms(3,4) by (subst pem_loop.simps) simp
qed

lemma pem_loop_text:
  assumes "CHR ''-'' \<notin> set comment" and "der \<noteq> []"
  shows "pem_loop (comment @ pem_text w der @ rest) out = pem_loop (LF # rest) (out @ [der])"
proof -
  let ?body = "LF # wrap_lines w (base64_encode der)"
  have "filter (\<lambda>c. \<not> is_pem_blank c) ?body = base64_encode der"
    using filter_wrap_lines [of "base64_encode der" w] base64_pem by (simp add: is_pem_blank_def)
  moreover have "CHR ''-'' \<notin> set ?body"
    using wrap_lines_letters [of w "base64_encode der"] base64_pem by fastforce
  ultimately have "pem_loop (comment @ kBegin @ ?body @ kEnd @ LF # rest) out = pem_loop (LF # rest) (out @ [der])"
    using assms by (intro pem_loop_body) (simp_all only: base64_decode_encode not_False_eq_True)
  then show ?thesis by (simp add: pem_text_def)
qed

lemma pem_loop_file:
  assumes "list_all (\<lambda>(comment, der). CHR ''-'' \<notin> set comment \<and> der \<noteq> []) certs"
    and "CHR ''-'' \<notin> set lead" and "CHR ''-'' \<notin> set rest"
  shows "pem_loop (lead @ pem_file w certs @ rest) out = Some (out @ map snd certs)"
  using assms
proof (induction certs arbitrary: lead out)
  case Nil
  have "find_str kBegin (lead @ rest) = None"
    using Nil find_str_skip [of "lead @ rest" "CHR ''-''" _ "[]"] by (auto simp: kBegin_def)
  then show ?case by (subst pem_loop.simps) (simp add: pem_file_def)
next
  case (Cons c certs)
  obtain comment der where c: "c = (comment, der)" by (cases c)
  have "pem_loop ((lead @ comment) @ pem_text w der @ pem_file w certs @ rest) out =
      pem_loop (LF # pem_file w certs @ rest) (out @ [der])"
    using Cons.prems c by (intro pem_loop_text) auto
  also have "\<dots> = Some (out @ map snd (c # certs))"
    using Cons.IH [of "[LF]" "out @ [der]"] Cons.prems c by simp
  finally show ?case by (simp add: pem_file_def c)
qed

text \<open>
  C35: a file of certificates, in base64 cut into lines of any width, with any text without a
  dash before, between and after them, is read back as these certificates in this order; and a text
  without a certificate gives nothing.
\<close>

theorem pem_certificates_round_trip:
  assumes "list_all (\<lambda>(comment, der). CHR ''-'' \<notin> set comment \<and> der \<noteq> []) certs" and "CHR ''-'' \<notin> set rest"
  shows "pem_certificates (pem_file w certs @ rest) = (if certs = [] then None else Some (map snd certs))"
  using pem_loop_file [OF assms(1) _ assms(2), of "[]" w "[]"] by (simp add: pem_certificates_def)

theorem pem_certificates_round_trip_witness:
  "pem_certificates (pem_file 3 [(''ours: '', [48, 1, 255]), ([], [7, 7, 7, 7, 7, 7, 7])] @ ''end'') =
     Some [[48, 1, 255], [7, 7, 7, 7, 7, 7, 7]]"
  using pem_certificates_round_trip [of "[(''ours: '', [48, 1, 255]), ([], [7, 7, 7, 7, 7, 7, 7])]" "''end''" 3]
  by simp

end
