(* ===== verification/Engine.thy ===== *)
theory Engine
  imports Engine_Contract Stream_Framer Pem
begin

text \<open>
  \<^verbatim>\<open>src/core/engine.cpp\<close>: the engine and its network thread. The thread runs a loop; here the loop
  is a program counter and a function that does one step of it, so that the steps of other threads
  can come in between. A step gives \<^term>\<open>None\<close> if the callback of the application keeps the thread
  busy forever.

  The application reacts to an event by a program of calls of the C interface, which run on the
  network thread, each depending on the results of those before. What it does may depend on all the
  events it got and on everything that was asked of the system.
\<close>

section \<open>Numbers of the C interface\<close>

datatype ketphone_result =
    KETPHONE_OK | KETPHONE_ERROR_INVALID_ARGUMENT | KETPHONE_ERROR_STATE | KETPHONE_ERROR_NETWORK
  | KETPHONE_ERROR_NOT_FOUND | KETPHONE_ERROR_INTERNAL

fun to_result :: "command_result \<Rightarrow> ketphone_result" where
  "to_result Ok = KETPHONE_OK"
| "to_result InvalidArgument = KETPHONE_ERROR_INVALID_ARGUMENT"
| "to_result State = KETPHONE_ERROR_STATE"
| "to_result NotFound = KETPHONE_ERROR_NOT_FOUND"

text \<open>The values of \<^verbatim>\<open>ketphone_end_reason\<close>, and those of \<^verbatim>\<open>EventKind\<close>, which are those of the interface.\<close>

fun to_c :: "end_reason \<Rightarrow> int" where
  "to_c NoReason = 0"
| "to_c Local = 1"
| "to_c RemoteHangup = 2"
| "to_c RemoteCancelled = 3"
| "to_c Rejected = 4"
| "to_c Timeout = 5"
| "to_c MediaFailed = 6"
| "to_c Shutdown = 7"

fun kind_number :: "event_kind \<Rightarrow> int" where
  "kind_number Registration = 1"
| "kind_number CallIncoming = 2"
| "kind_number CallProgress = 3"
| "kind_number CallAnswered = 4"
| "kind_number CallEnded = 5"

record ketphone_event =
  ke_kind :: int
  ke_call_id :: int
  ke_status_code :: int
  ke_end_reason :: int
  ke_remote :: string
  ke_remote_display_name :: string
  ke_correlation_id :: string

definition to_c_event :: "event \<Rightarrow> ketphone_event" where
  "to_c_event e =
     \<lparr>ke_kind = kind_number (ev_kind e), ke_call_id = ev_call_id e, ke_status_code = ev_status e,
      ke_end_reason = to_c (ev_end_reason e), ke_remote = c_str (ev_remote e),
      ke_remote_display_name = c_str (ev_display_name e), ke_correlation_id = c_str (ev_correlation_id e)\<rparr>"

text \<open>Calls of the interface by the application, and its reactions to events.\<close>

datatype api = ApiRegister | ApiUnregister | ApiCall string | ApiAnswer int | ApiReject int int | ApiHangup int

datatype reaction = Return | Invoke api "ketphone_result \<times> int \<Rightarrow> reaction"

type_synonym application = "ketphone_event list \<Rightarrow> trace \<Rightarrow> reaction"

section \<open>State\<close>

datatype command = CmdRegister | CmdUnregister | CmdCall int string | CmdAnswer int | CmdReject int int | CmdHangup int

text \<open>What waits in the queue: a command with the promise of its caller, or the order to stop.\<close>

datatype job = Job nat command | StopJob

datatype link = Down | Connecting | Up

datatype link_event_kind = Connected | Data | Closed

record link_event =
  le_generation :: nat
  le_kind :: link_event_kind
  le_data :: string

text \<open>
  The generation is a 64-bit counter in the code; it counts connections and is a natural number here.
  The wake-up pipe is the number of bytes in it, the promises that were kept a map from callers to results,
  and the events that were delivered are remembered.
\<close>

record engine =
  e_ua :: "host user_agent"
  e_callback :: bool
  e_options :: tls_options
  e_listener :: "nat option"
  e_generation :: nat
  e_link :: link
  e_reconnect_at :: time
  e_backoff :: time
  e_keepalive_at :: time
  e_relink :: bool
  e_framer :: framer
  e_inbox :: "link_event list"
  e_queue :: "job list"
  e_closed :: bool
  e_stopping :: bool
  e_stop_deadline :: time
  e_wake :: nat
  e_answers :: "nat \<rightharpoonup> ketphone_result"
  e_delivered :: "ketphone_event list"

abbreviation e_host :: "engine \<Rightarrow> host" where "e_host s \<equiv> u_host (e_ua s)"
abbreviation e_tls :: "engine \<Rightarrow> bool" where "e_tls s \<equiv> h_tls (e_host s)"

abbreviation (input) kShutdownGrace :: time where "kShutdownGrace \<equiv> 2000000000"
abbreviation (input) kKeepAlive :: time where "kKeepAlive \<equiv> 30000000000"
abbreviation (input) kReconnectFirst :: time where "kReconnectFirst \<equiv> 1000000000"
abbreviation (input) kReconnectMost :: time where "kReconnectMost \<equiv> 30000000000"
abbreviation (input) kPipe :: nat where "kPipe \<equiv> 65536"

definition set_host :: "host \<Rightarrow> engine \<Rightarrow> engine" where
  "set_host h s = s\<lparr>e_ua := (e_ua s)\<lparr>u_host := h\<rparr>\<rparr>"

definition now_of :: "system \<Rightarrow> engine \<Rightarrow> time \<times> engine" where
  "now_of sys s = (case clock_now sys (e_host s) of (t, h) \<Rightarrow> (t, set_host h s))"

definition wake :: "engine \<Rightarrow> engine" where
  "wake s = s\<lparr>e_wake := min kPipe (e_wake s + 1)\<rparr>"

section \<open>Commands\<close>

definition with_result :: "(host user_agent \<Rightarrow> command_result \<times> host user_agent) \<Rightarrow> engine \<Rightarrow> ketphone_result \<times> engine" where
  "with_result f s = (case f (e_ua s) of (r, ua) \<Rightarrow> (to_result r, s\<lparr>e_ua := ua\<rparr>))"

definition execute :: "system \<Rightarrow> command \<Rightarrow> engine \<Rightarrow> ketphone_result \<times> engine" where
  "execute sys c s =
     (case now_of sys s of (now, s) \<Rightarrow>
        (case c of
           CmdRegister \<Rightarrow> (KETPHONE_OK, s\<lparr>e_ua := start_registration (engine_host sys) now (e_ua s)\<rparr>)
         | CmdUnregister \<Rightarrow> (KETPHONE_OK, s\<lparr>e_ua := stop_registration (engine_host sys) now (e_ua s)\<rparr>)
         | CmdCall i target \<Rightarrow> with_result (make_call (engine_host sys) i target now) s
         | CmdAnswer i \<Rightarrow> with_result (answer (engine_host sys) i now) s
         | CmdReject i status \<Rightarrow> with_result (reject (engine_host sys) i status) s
         | CmdHangup i \<Rightarrow> with_result (hangup (engine_host sys) i now) s))"

text \<open>A call of the interface becomes a command; \<^verbatim>\<open>call\<close> takes the next id first.\<close>

definition prepare :: "api \<Rightarrow> engine \<Rightarrow> command \<times> int \<times> engine" where
  "prepare a s =
     (case a of
        ApiRegister \<Rightarrow> (CmdRegister, 0, s)
      | ApiUnregister \<Rightarrow> (CmdUnregister, 0, s)
      | ApiCall target \<Rightarrow> (case host_allocate_call_id (e_host s) of (i, h) \<Rightarrow> (CmdCall i target, i, set_host h s))
      | ApiAnswer i \<Rightarrow> (CmdAnswer i, 0, s)
      | ApiReject i status \<Rightarrow> (CmdReject i status, 0, s)
      | ApiHangup i \<Rightarrow> (CmdHangup i, 0, s))"

text \<open>\<^verbatim>\<open>run\<close> on the network thread itself: the command runs inline.\<close>

definition run_inline :: "system \<Rightarrow> api \<Rightarrow> engine \<Rightarrow> (ketphone_result \<times> int) \<times> engine" where
  "run_inline sys a s =
     (case prepare a s of (c, i, s) \<Rightarrow>
        case execute sys c s of (r, s) \<Rightarrow> ((r, if r = KETPHONE_OK then i else 0), s))"

definition stop_engine :: "system \<Rightarrow> engine \<Rightarrow> engine" where
  "stop_engine sys s =
     (case now_of sys s of (now, s) \<Rightarrow>
        case now_of sys (s\<lparr>e_ua := shutdown (engine_host sys) now (e_ua s), e_stopping := True\<rparr>) of (later, s) \<Rightarrow>
          s\<lparr>e_stop_deadline := later + kShutdownGrace\<rparr>)"

definition run_job :: "system \<Rightarrow> bool \<Rightarrow> job \<Rightarrow> engine \<Rightarrow> engine" where
  "run_job sys run j s =
     (case j of
        StopJob \<Rightarrow> stop_engine sys s
      | Job caller c \<Rightarrow>
          if run then (case execute sys c s of (r, s) \<Rightarrow> s\<lparr>e_answers := (e_answers s)(caller \<mapsto> r)\<rparr>)
          else s\<lparr>e_answers := (e_answers s)(caller \<mapsto> KETPHONE_ERROR_STATE)\<rparr>)"

section \<open>Events\<close>

primrec react :: "reaction \<Rightarrow> system \<Rightarrow> engine \<Rightarrow> engine" where
  "react Return sys s = s"
| "react (Invoke a k) sys s = (case run_inline sys a s of (r, s) \<Rightarrow> react (k r) sys s)"

definition deliver_event :: "system \<Rightarrow> application \<Rightarrow> event \<Rightarrow> engine \<Rightarrow> engine" where
  "deliver_event sys app e s =
     (let s = (if e_tls s \<and> e_link s = Up \<and> ev_kind e = Registration \<and> ev_status e = 408 then s\<lparr>e_relink := True\<rparr> else s)
      in if \<not> e_callback s then s
         else let s = s\<lparr>e_delivered := e_delivered s @ [to_c_event e]\<rparr>
              in react (app (e_delivered s) (h_trace (e_host s))) sys s)"

partial_function (option) deliver_events :: "system \<Rightarrow> application \<Rightarrow> engine \<Rightarrow> engine option" where
  "deliver_events sys app s =
     (case take_events (e_ua s) of (events, ua) \<Rightarrow>
        if events = [] then Some (s\<lparr>e_ua := ua\<rparr>)
        else deliver_events sys app (fold (deliver_event sys app) events (s\<lparr>e_ua := ua\<rparr>)))"

declare deliver_events.simps [code]

section \<open>The TLS connection\<close>

definition destroy_connection :: "engine \<Rightarrow> engine" where
  "destroy_connection s =
     (if h_connection (e_host s)
      then set_host ((e_host s)\<lparr>h_connection := False, h_trace := h_trace (e_host s) @ [TlsDestroy]\<rparr>) s
      else s)"

definition schedule_reconnect :: "time \<Rightarrow> engine \<Rightarrow> engine" where
  "schedule_reconnect now s =
     s\<lparr>e_link := Down, e_reconnect_at := now + e_backoff s, e_backoff := min (e_backoff s * 2) kReconnectMost\<rparr>"

definition send_pending :: "host \<Rightarrow> host" where
  "send_pending h =
     (if h_pending h \<noteq> [] then (tls_send (h_pending h) h)\<lparr>h_pending := []\<rparr> else h)"

definition dial :: "system \<Rightarrow> time \<Rightarrow> engine \<Rightarrow> engine" where
  "dial sys now s =
     (let h = e_host s;
          (ok, tr) = ask (ConnectTls (e_options s) (e_generation s)) (\<lambda>tr. a_connect_tls sys tr (e_options s)) (h_trace h);
          h = h\<lparr>h_connection := ok, h_trace := tr\<rparr>
      in if \<not> ok then schedule_reconnect now (set_host h s)
         else set_host (send_pending h) (s\<lparr>e_link := Connecting\<rparr>))"

definition connect_link :: "system \<Rightarrow> time \<Rightarrow> engine \<Rightarrow> engine" where
  "connect_link sys now s =
     (let s = destroy_connection s;
          g = e_generation s + 1
      in dial sys now (s\<lparr>e_generation := g, e_listener := Some g, e_framer := reset_framer\<rparr>))"

definition drop_link :: "system \<Rightarrow> application \<Rightarrow> time \<Rightarrow> engine \<Rightarrow> engine option" where
  "drop_link sys app now s =
     (let s = destroy_connection s;
          s = s\<lparr>e_listener := None, e_generation := e_generation s + 1, e_framer := reset_framer\<rparr>;
          s = schedule_reconnect now s
      in deliver_events sys app (s\<lparr>e_ua := on_transport_down (engine_host sys) now (e_ua s)\<rparr>))"

text \<open>The loop over the messages the framer has.\<close>

function take_messages :: "system \<Rightarrow> application \<Rightarrow> framer \<Rightarrow> engine \<Rightarrow> engine option" where
  "take_messages sys app f s =
     (case next_message f of
        (None, f') \<Rightarrow> Some (s\<lparr>e_framer := f'\<rparr>)
      | (Some m, f') \<Rightarrow>
          (case now_of sys (s\<lparr>e_framer := f'\<rparr>) of (now, s) \<Rightarrow>
             (case deliver_events sys app (s\<lparr>e_ua := on_message (engine_host sys) m now (e_ua s)\<rparr>) of
                None \<Rightarrow> None
              | Some s \<Rightarrow> take_messages sys app f' s)))"
  by pat_completeness auto
termination
  by (relation "measure (\<lambda>(sys, app, f, s). length (Stream_Framer.buffer f))")
    (auto dest: next_message_decreases [OF sym])

declare take_messages.simps [simp del]

definition on_link_data :: "system \<Rightarrow> application \<Rightarrow> time \<Rightarrow> string \<Rightarrow> engine \<Rightarrow> engine option" where
  "on_link_data sys app now data s =
     (case take_messages sys app (Stream_Framer.push (e_framer s) data) s of
        None \<Rightarrow> None
      | Some s \<Rightarrow> if Stream_Framer.failed (e_framer s) then drop_link sys app now s else Some s)"

definition on_link_up :: "system \<Rightarrow> application \<Rightarrow> time \<Rightarrow> engine \<Rightarrow> engine option" where
  "on_link_up sys app now s =
     (let s = s\<lparr>e_link := Up, e_backoff := kReconnectFirst, e_keepalive_at := now + kKeepAlive\<rparr>
      in deliver_events sys app (s\<lparr>e_ua := on_transport_up (engine_host sys) now (e_ua s)\<rparr>))"

definition on_link_event :: "system \<Rightarrow> application \<Rightarrow> link_event \<Rightarrow> engine \<Rightarrow> engine option" where
  "on_link_event sys app e s =
     (if le_generation e \<noteq> e_generation s then Some s
      else case now_of sys s of (now, s) \<Rightarrow>
        (case le_kind e of
           Connected \<Rightarrow> on_link_up sys app now s
         | Data \<Rightarrow> on_link_data sys app now (le_data e) s
         | Closed \<Rightarrow> drop_link sys app now s))"

section \<open>Media\<close>

text \<open>The buffer of the loop has 65536 bytes on a 4-byte boundary, that of a frame room for the trailer.\<close>

definition hear :: "system \<Rightarrow> byte list \<Rightarrow> host \<Rightarrow> host" where
  "hear sys datagram h =
     (case clock_now sys (h\<lparr>h_trace := h_trace h @ [Hear datagram]\<rparr>) of (now, h) \<Rightarrow>
        (case session_on_packet (h_media h) datagram (micros now) of
           None \<Rightarrow> fail_with Overrun h
         | Some m \<Rightarrow> h\<lparr>h_media := m\<rparr>))"

definition accept_datagram :: "system \<Rightarrow> byte list \<Rightarrow> host \<Rightarrow> host" where
  "accept_datagram sys bytes h =
     (case h_srtp_in h of
        None \<Rightarrow> hear sys bytes h
      | Some st \<Rightarrow>
          (case unprotect sys st 0 65536 bytes (h_trace h) of
             (None, tr) \<Rightarrow> h\<lparr>h_trace := tr\<rparr>
           | (Some plain, tr) \<Rightarrow> hear sys plain (h\<lparr>h_trace := tr\<rparr>)))"

definition protect_packet :: "system \<Rightarrow> byte list \<Rightarrow> host \<Rightarrow> byte list \<times> host" where
  "protect_packet sys packet h =
     (case h_srtp_out h of
        None \<Rightarrow> (packet, h)
      | Some st \<Rightarrow>
          if packet = [] then (packet, h)
          else (case protect sys st 0 (kMaxPacketSize + kSrtpTrailerRoom) packet (h_trace h) of
                  (out, tr) \<Rightarrow> (out, h\<lparr>h_trace := tr\<rparr>)))"

definition send_frame :: "system \<Rightarrow> udp_socket \<Rightarrow> host \<Rightarrow> host" where
  "send_frame sys rtp h =
     (case next_packet (h_media h) (replicate kMaxPacketSize 0) of (sz, out, m) \<Rightarrow>
        case protect_packet sys (take sz out) (h\<lparr>h_media := m\<rparr>) of (packet, h) \<Rightarrow>
          if packet = [] then h else h\<lparr>h_trace := snd (send_to sys rtp packet (h_rtp_remote h) (h_trace h))\<rparr>)"

definition play_next :: "host \<Rightarrow> host" where
  "play_next h =
     (case play_frame (h_media h) (micros (h_next_frame h)) of
        None \<Rightarrow> fail_with PlayUndefined h
      | Some m \<Rightarrow> h\<lparr>h_media := m, h_next_frame := h_next_frame h + kFrame\<rparr>)"

definition do_frame :: "system \<Rightarrow> udp_socket \<Rightarrow> host \<Rightarrow> host" where
  "do_frame sys rtp h = play_next (send_frame sys rtp h)"

section \<open>The loop\<close>

datatype pc =
    AtTop | AtWake | AtCommands | InCommands "job list" | AtLink | InLink "link_event list" | AtRelink
  | AtSip | AtRtp | AtTimer | AtFrames time | InFrames time | AtCheck | AtClose | InAbandon "job list" | AtEnd

text \<open>How long to wait, and for which sockets.\<close>

definition wake_times :: "engine \<Rightarrow> time list" where
  "wake_times s =
     (case next_deadline (e_ua s) of None \<Rightarrow> [] | Some d \<Rightarrow> [d]) @
     (if active (h_media (e_host s)) then [h_next_frame (e_host s)] else []) @
     (if e_stopping s then [e_stop_deadline s] else []) @
     (if e_tls s \<and> e_link s = Down then [e_reconnect_at s] else []) @
     (if e_tls s \<and> e_link s = Up then [e_keepalive_at s] else [])"

definition poll_timeout :: "time \<Rightarrow> engine \<Rightarrow> int" where
  "poll_timeout now s = max 0 ((fold min (wake_times s) (now + 200000000) - now) sdiv 1000000)"

definition poll_step :: "system \<Rightarrow> engine \<Rightarrow> engine" where
  "poll_step sys s =
     (case now_of sys s of (now, s) \<Rightarrow>
        let h = e_host s;
            fds = map us_fd (case h_sip h of None \<Rightarrow> [] | Some a \<Rightarrow> [a]) @ map us_fd (case h_rtp h of None \<Rightarrow> [] | Some a \<Rightarrow> [a])
        in set_host (h\<lparr>h_trace := h_trace h @ [Poll fds (poll_timeout now s)]\<rparr>) s)"

definition relink_step :: "system \<Rightarrow> application \<Rightarrow> engine \<Rightarrow> engine option" where
  "relink_step sys app s =
     (case now_of sys s of (now, s) \<Rightarrow>
        case (if e_relink s
              then (let s = s\<lparr>e_relink := False\<rparr> in if e_link s = Up then drop_link sys app now s else Some s)
              else Some s) of
          None \<Rightarrow> None
        | Some s \<Rightarrow>
            (let s = (if e_link s = Down \<and> now \<ge> e_reconnect_at s then connect_link sys now s else s)
             in Some (if e_link s = Up \<and> now \<ge> e_keepalive_at s
                      then set_host (tls_send (CRLF @ CRLF) (e_host s)) (s\<lparr>e_keepalive_at := now + kKeepAlive\<rparr>)
                      else s)))"

text \<open>The text of a datagram.\<close>

definition text_of :: "byte list \<Rightarrow> string" where
  "text_of bytes = map (\<lambda>b. char_of (unat b)) bytes"

definition sip_step :: "system \<Rightarrow> application \<Rightarrow> engine \<Rightarrow> (pc \<times> engine) option" where
  "sip_step sys app s =
     (case h_sip (e_host s) of
        None \<Rightarrow> Some (AtRtp, s)
      | Some sock \<Rightarrow>
          (case receive_from sys sock 65536 False (h_trace (e_host s)) of (r, tr) \<Rightarrow>
             let s = set_host ((e_host s)\<lparr>h_trace := tr\<rparr>) s
             in case r of
                  None \<Rightarrow> Some (AtRtp, s)
                | Some (bytes, _) \<Rightarrow>
                    if bytes = [] then Some (AtRtp, s)
                    else (case now_of sys s of (now, s) \<Rightarrow>
                            map_option (Pair AtSip)
                              (deliver_events sys app (s\<lparr>e_ua := on_message (engine_host sys) (text_of bytes) now (e_ua s)\<rparr>)))))"

definition rtp_step :: "system \<Rightarrow> engine \<Rightarrow> pc \<times> engine" where
  "rtp_step sys s =
     (case h_rtp (e_host s) of
        None \<Rightarrow> (AtTimer, s)
      | Some sock \<Rightarrow>
          if \<not> active (h_media (e_host s)) then (AtTimer, s)
          else (case receive_from sys sock 65536 False (h_trace (e_host s)) of (r, tr) \<Rightarrow>
             let h = (e_host s)\<lparr>h_trace := tr\<rparr>
             in case r of
                  None \<Rightarrow> (AtTimer, set_host h s)
                | Some (bytes, _) \<Rightarrow>
                    if bytes = [] then (AtTimer, set_host h s)
                    else (AtRtp, set_host (accept_datagram sys bytes h) s)))"

definition timer_step :: "system \<Rightarrow> application \<Rightarrow> engine \<Rightarrow> (pc \<times> engine) option" where
  "timer_step sys app s =
     (case now_of sys s of (now, s) \<Rightarrow>
        map_option (Pair (AtFrames now))
          (deliver_events sys app (s\<lparr>e_ua := on_timer (engine_host sys) now (e_ua s)\<rparr>)))"

definition begin_frames :: "time \<Rightarrow> engine \<Rightarrow> pc \<times> engine" where
  "begin_frames now s =
     (let h = e_host s
      in if active (h_media h) \<and> h_rtp h \<noteq> None \<and> now \<ge> h_next_frame h
         then (InFrames now, if now - h_next_frame h > 10 * kFrame then set_host (h\<lparr>h_next_frame := now\<rparr>) s else s)
         else (AtCheck, s))"

definition frames_step :: "system \<Rightarrow> time \<Rightarrow> engine \<Rightarrow> pc \<times> engine" where
  "frames_step sys now s =
     (let h = e_host s
      in if now \<ge> h_next_frame h
         then (InFrames now, set_host (case h_rtp h of None \<Rightarrow> fail_with NullSocket h | Some rtp \<Rightarrow> do_frame sys rtp h) s)
         else (AtCheck, set_host (publish_stats h) s))"

text \<open>The clock is only read when the user agent is not idle.\<close>

definition check_step :: "system \<Rightarrow> engine \<Rightarrow> pc \<times> engine" where
  "check_step sys s =
     (if \<not> e_stopping s then (AtTop, s)
      else if idle (e_ua s) then (AtClose, s)
      else case now_of sys s of (now, s) \<Rightarrow> (if now \<ge> e_stop_deadline s then AtClose else AtTop, s))"

definition network_step :: "system \<Rightarrow> application \<Rightarrow> pc \<Rightarrow> engine \<Rightarrow> (pc \<times> engine) option" where
  "network_step sys app place s =
     (case place of
        AtTop \<Rightarrow> Some (AtWake, poll_step sys s)
      | AtWake \<Rightarrow> Some (if e_wake s > 0 then (AtWake, s\<lparr>e_wake := e_wake s - min 65536 (e_wake s)\<rparr>) else (AtCommands, s))
      | AtCommands \<Rightarrow> Some (InCommands (e_queue s), s\<lparr>e_queue := []\<rparr>)
      | InCommands [] \<Rightarrow> Some (if e_tls s then AtLink else AtSip, s)
      | InCommands (j # js) \<Rightarrow> map_option (Pair (InCommands js)) (deliver_events sys app (run_job sys True j s))
      | AtLink \<Rightarrow> Some (InLink (e_inbox s), s\<lparr>e_inbox := []\<rparr>)
      | InLink [] \<Rightarrow> Some (AtRelink, s)
      | InLink (e # es) \<Rightarrow> map_option (Pair (InLink es)) (on_link_event sys app e s)
      | AtRelink \<Rightarrow> map_option (Pair AtSip) (relink_step sys app s)
      | AtSip \<Rightarrow> sip_step sys app s
      | AtRtp \<Rightarrow> Some (rtp_step sys s)
      | AtTimer \<Rightarrow> timer_step sys app s
      | AtFrames now \<Rightarrow> Some (begin_frames now s)
      | InFrames now \<Rightarrow> Some (frames_step sys now s)
      | AtCheck \<Rightarrow> Some (check_step sys s)
      | AtClose \<Rightarrow> Some (InAbandon (e_queue s), s\<lparr>e_closed := True, e_queue := []\<rparr>)
      | InAbandon [] \<Rightarrow> Some (AtEnd, s)
      | InAbandon (j # js) \<Rightarrow> Some (InAbandon js, run_job sys False j s)
      | AtEnd \<Rightarrow> Some (AtEnd, s))"

end
