(* ===== verification/Engine_Trace.thy ===== *)
theory Engine_Trace
  imports Engine_Contract "HOL-Library.Sublist"
begin

text \<open>
  Everything the engine asks of the system is recorded: the operations of the host add to the trace
  and take nothing back.
\<close>

lemma prefix_step: "prefix past tr \<Longrightarrow> prefix tr tr' \<Longrightarrow> prefix past tr'"
  by (rule prefix_order.trans)

lemma grows_socket [simp]:
  "prefix tr (reset_optional r tr)" "prefix tr (snd (assign_optional r r' tr))" "prefix tr (snd (open_socket sys f tr))"
  "prefix tr (snd (local sys s tr))" "prefix tr (snd (send sys s d tr))" "prefix tr (snd (send_to sys s d e tr))"
  "prefix tr (snd (receive_from sys s n w tr))" "prefix tr (snd (resolve_all sys hst p tr))" "prefix tr (destroy_stream st tr)"
  by (auto simp: reset_optional_def assign_optional_def open_socket_def bind_any_def give_up_def make_nonblocking_def local_def
      send_def send_to_def receive_from_def resolve_all_def destroy_stream_def destroy_def close_def move_assign_def move_construct_def
      no_socket_def ask_def Let_def prefix_def split: option.splits prod.splits bool.splits sum.splits if_splits)

lemma grows_create: "create sys d k once tr = (st, once', tr') \<Longrightarrow> prefix tr tr'"
  by (auto simp: create_def initialize_def ask_def split: option.splits prod.splits bool.splits)

lemma grows_key: "use_key sys d k old once tr = (ok, st, once', tr') \<Longrightarrow> prefix tr tr'"
  using grows_socket(9) grows_create
  by (fastforce simp: use_key_def split: if_splits prod.splits option.splits intro: prefix_step)

lemma grows_keys: "use_keys sys keys h = (ok, h') \<Longrightarrow> prefix (h_trace h) (h_trace h')"
  by (auto simp: use_keys_def Let_def split: if_splits prod.splits dest!: grows_key intro: prefix_step)

lemma grows_clock [simp]: "prefix (h_trace h) (h_trace (snd (clock_now sys h)))"
  by (simp add: clock_now_def ask_def)

lemma grows_streams [simp]: "prefix (h_trace h) (h_trace (reset_streams h))"
  using prefix_step [OF grows_socket(9) grows_socket(9)] by (simp add: reset_streams_def)

lemma grows_aim [simp]: "prefix (h_trace h) (h_trace (aim_media sys s rm h))"
  using grows_socket(8) [of "h_trace h" sys "rm_address rm" "of_nat (rm_port rm)"]
  by (auto simp: aim_media_def begin_media_def clock_now_def ask_def Let_def case_prod_beta split: option.split)

lemma grows_start [simp]: "prefix (h_trace h) (h_trace (snd (host_start_media sys rm h)))"
  using prefix_step [OF grows_streams grows_aim] prefix_step [OF grows_keys grows_aim]
  by (auto simp: host_start_media_def dest: grows_keys split: option.split prod.split bool.split)

lemma grows_open [simp]: "prefix (h_trace h) (h_trace (snd (host_open_media sys h)))"
proof -
  obtain opened tr1 where o: "open_socket sys (h_media_family h) (h_trace h) = (opened, tr1)" by fastforce
  obtain rtp tr2 where a: "assign_optional (h_rtp h) opened tr1 = (rtp, tr2)" by fastforce
  have p: "prefix (h_trace h) tr2"
    using grows_socket(3) [of "h_trace h" sys "h_media_family h"] grows_socket(2) [of tr1 "h_rtp h" opened] o a
    by (auto intro: prefix_step)
  show ?thesis
  proof (cases rtp)
    case None
    then show ?thesis using p by (simp add: host_open_media_def o a)
  next
    case (Some s)
    obtain e tr3 where l: "local sys s tr2 = (e, tr3)" by fastforce
    then have q: "prefix (h_trace h) tr3" using prefix_step [OF p, of tr3] grows_socket(4) [of tr2 sys s] by simp
    have "h_trace (snd (host_open_media sys h)) = (case e of None \<Rightarrow> reset_optional rtp tr3 | Some e \<Rightarrow> tr3)"
      by (simp add: host_open_media_def o a Some l split: option.split)
    then show ?thesis using q prefix_step [OF q grows_socket(1)] by (simp split: option.split)
  qed
qed

lemma grows_host [simp]:
  "prefix (h_trace h) (h_trace (host_send_sip sys m h))" "prefix (h_trace h) (h_trace (host_close_media h))"
  "prefix (h_trace h) (h_trace (snd (host_allocate_call_id h)))" "prefix (h_trace h) (h_trace (snd (host_getentropy sys n h)))"
proof -
  have same: "h_trace (if active (h_media h) then publish_stats h else h) = h_trace h"
    by (simp add: publish_stats_def fail_with_def split: option.split)
  show "prefix (h_trace h) (h_trace (host_close_media h))"
    unfolding host_close_media_def Let_def
    by (rule prefix_step [OF _ grows_streams]) (simp add: same)
qed (simp_all add: host_send_sip_def tls_send_def fail_with_def host_allocate_call_id_def host_getentropy_def ask_def split: option.split)

end
