(* ===== verification/Engine_Invariant.thy ===== *)
theory Engine_Invariant
  imports Engine Engine_Trace User_Agent_Runs
begin

text \<open>
  The invariant of the engine, kept by every step of its network thread: the user agent and the host
  keep theirs, the link is down exactly when there is no connection, and the delays between attempts
  to connect stay in their range.
\<close>

section \<open>The rest of the engine\<close>

text \<open>What jobs leave alone, and what commands and callbacks leave alone.\<close>

definition frame :: "engine \<Rightarrow> bool \<times> tls_options \<times> nat option \<times> nat \<times> link \<times> time \<times> time \<times> time \<times> framer \<times> link_event list \<times>
    job list \<times> bool \<times> nat" where
  "frame s = (e_callback s, e_options s, e_listener s, e_generation s, e_link s, e_reconnect_at s, e_backoff s, e_keepalive_at s,
     e_framer s, e_inbox s, e_queue s, e_closed s, e_wake s)"

definition rest :: "engine \<Rightarrow> (bool \<times> tls_options \<times> nat option \<times> nat \<times> link \<times> time \<times> time \<times> time \<times> framer \<times> link_event list \<times>
    job list \<times> bool \<times> nat) \<times> (nat \<Rightarrow> ketphone_result option) \<times> bool \<times> time" where
  "rest s = (frame s, e_answers s, e_stopping s, e_stop_deadline s)"

lemma rest_simps [simp]:
  "rest (s\<lparr>e_ua := ua\<rparr>) = rest s" "rest (s\<lparr>e_relink := b\<rparr>) = rest s" "rest (s\<lparr>e_delivered := es\<rparr>) = rest s"
  "rest (set_host h s) = rest s" "frame (s\<lparr>e_ua := ua\<rparr>) = frame s"
  "frame (s\<lparr>e_stopping := b\<rparr>) = frame s" "frame (s\<lparr>e_stop_deadline := t\<rparr>) = frame s" "frame (s\<lparr>e_answers := a\<rparr>) = frame s"
  by (simp_all add: rest_def frame_def set_host_def)

lemma frame_eqD:
  assumes "frame s' = frame s"
  shows "e_callback s' = e_callback s" "e_options s' = e_options s" "e_listener s' = e_listener s"
    "e_generation s' = e_generation s" "e_link s' = e_link s" "e_reconnect_at s' = e_reconnect_at s"
    "e_backoff s' = e_backoff s" "e_keepalive_at s' = e_keepalive_at s" "e_framer s' = e_framer s"
    "e_inbox s' = e_inbox s" "e_queue s' = e_queue s" "e_closed s' = e_closed s" "e_wake s' = e_wake s"
  using assms by (simp_all add: frame_def)

lemma rest_frame: "rest s' = rest s \<Longrightarrow> frame s' = frame s"
  by (simp add: rest_def)

lemmas rest_eqD = frame_eqD [OF rest_frame]

lemma rest_eqD2: "rest s' = rest s \<Longrightarrow> e_answers s' = e_answers s \<and> e_stopping s' = e_stopping s \<and> e_stop_deadline s' = e_stop_deadline s"
  by (simp add: rest_def)

lemma set_host_simps [simp]:
  "e_ua (set_host h s) = (e_ua s)\<lparr>u_host := h\<rparr>" "e_link (set_host h s) = e_link s" "e_backoff (set_host h s) = e_backoff s"
  "e_generation (set_host h s) = e_generation s" "e_listener (set_host h s) = e_listener s"
  "e_inbox (set_host h s) = e_inbox s" "e_queue (set_host h s) = e_queue s" "e_answers (set_host h s) = e_answers s"
  "e_closed (set_host h s) = e_closed s" "e_wake (set_host h s) = e_wake s" "e_stopping (set_host h s) = e_stopping s"
  "e_stop_deadline (set_host h s) = e_stop_deadline s" "e_callback (set_host h s) = e_callback s"
  "e_relink (set_host h s) = e_relink s" "e_framer (set_host h s) = e_framer s"
  by (simp_all add: set_host_def)

lemma rest_now [simp]: "rest (snd (now_of sys s)) = rest s"
  by (simp add: now_of_def case_prod_beta)

lemma rest_with_result [simp]: "rest (snd (with_result f s)) = rest s"
  by (simp add: with_result_def case_prod_beta)

lemma rest_execute [simp]: "rest (snd (execute sys c s)) = rest s"
  by (simp add: execute_def case_prod_beta split: command.split)

lemma rest_prepare: "prepare a s = (c, i, s') \<Longrightarrow> rest s' = rest s"
  by (auto simp: prepare_def case_prod_beta split: api.splits)

lemma rest_run_inline [simp]: "rest (snd (run_inline sys a s)) = rest s"
  using rest_prepare [of a s] by (simp add: run_inline_def case_prod_beta) (metis prod.collapse)

lemma rest_react [simp]: "rest (react r sys s) = rest s"
  by (induction r arbitrary: s) (simp_all add: case_prod_beta)

lemma rest_deliver_event [simp]: "rest (deliver_event sys app e s) = rest s"
  by (simp add: deliver_event_def Let_def)

lemma deliver_events_induct:
  assumes "deliver_events sys app s = Some s'" and "P s"
    and taken: "\<And>s. P s \<Longrightarrow> P (s\<lparr>e_ua := snd (take_events (e_ua s))\<rparr>)"
    and delivered: "\<And>e s. P s \<Longrightarrow> P (deliver_event sys app e s)"
  shows "P s'"
proof -
  have all: "P s \<Longrightarrow> P (fold (deliver_event sys app) es s)" for es s
    by (induction es arbitrary: s) (simp_all add: delivered)
  let ?Q = "\<lambda>sys' app' s s'. sys' = sys \<and> app' = app \<longrightarrow> P s \<longrightarrow> P s'"
  have "?Q sys app s s'"
    by (rule deliver_events.raw_induct [where P = ?Q, OF _ assms(1)])
      (use taken in \<open>auto simp: take_events_def all split: if_splits\<close>)
  with assms(2) show ?thesis by simp
qed

lemma rest_deliver_events: "deliver_events sys app s = Some s' \<Longrightarrow> rest s' = rest s"
  by (rule deliver_events_induct [where P = "\<lambda>t. rest t = rest s"]) auto

section \<open>The invariant\<close>

definition host_up :: "trace \<Rightarrow> bool \<Rightarrow> bool \<Rightarrow> host \<Rightarrow> bool" where
  "host_up past sec c h \<longleftrightarrow> host_ok sec h \<and> h_connection h = c \<and> prefix past (h_trace h)"

lemma connection_simps [simp]:
  "h_connection (host_send_sip sys m h) = h_connection h" "h_connection (snd (host_open_media sys h)) = h_connection h"
  "h_connection (snd (host_start_media sys rm h)) = h_connection h" "h_connection (host_close_media h) = h_connection h"
  "h_connection (snd (host_allocate_call_id h)) = h_connection h"
  "h_connection (snd (host_getentropy sys n h)) = h_connection h" "h_connection (snd (clock_now sys h)) = h_connection h"
proof -
  have "use_keys sys keys h = (ok, h') \<Longrightarrow> h_connection h' = h_connection h" for keys ok h'
    by (auto simp: use_keys_def Let_def split: if_splits prod.splits)
  moreover have "h_connection (aim_media sys s rm h) = h_connection h" for s h
    by (simp add: aim_media_def begin_media_def clock_now_def ask_def Let_def case_prod_beta split: option.split)
  ultimately show "h_connection (snd (host_start_media sys rm h)) = h_connection h"
    by (auto simp: host_start_media_def reset_streams_def split: option.split prod.split bool.split)
qed (simp_all add: host_send_sip_def tls_send_def fail_with_def host_close_media_def publish_stats_def reset_streams_def
    host_allocate_call_id_def host_getentropy_def host_open_media_def clock_now_def ask_def Let_def case_prod_beta
    split: option.split)

lemma up_contract:
  assumes "system_ok sys"
  shows "ua_contract (engine_host sys) (host_up past sec c) media_open sec"
proof -
  note c = engine_contract [OF assms, of sec]
  show ?thesis
    using ua_contract.send [OF c] ua_contract.opens [OF c] ua_contract.starts [OF c] ua_contract.closes [OF c]
      ua_contract.allocates [OF c] ua_contract.entropy [OF c] ua_contract.full [OF c]
    by unfold_locales (auto simp: host_up_def engine_host_def intro: prefix_step)
qed

text \<open>What every operation of the user agent keeps, on the engine.\<close>

definition ua_fine :: "trace \<Rightarrow> bool \<Rightarrow> bool \<Rightarrow> host user_agent \<Rightarrow> bool" where
  "ua_fine past sec c s \<longleftrightarrow> ua_inv (host_up past sec c) media_open sec s"

lemma ua_fine_step:
  assumes "system_ok sys" and "ua_fine past sec c s"
  shows "ua_fine past sec c (ua_step (engine_host sys) (now, x) s)"
  using ua_contract.inv_ua_step [OF up_contract [OF assms(1)]] assms(2) unfolding ua_fine_def by blast

lemma ua_fine_ops:
  assumes "system_ok sys" and "ua_fine past sec c s"
  shows "ua_fine past sec c (start_registration (engine_host sys) now s)" "ua_fine past sec c (stop_registration (engine_host sys) now s)"
    "ua_fine past sec c (snd (make_call (engine_host sys) i target now s))" "ua_fine past sec c (snd (answer (engine_host sys) i now s))"
    "ua_fine past sec c (snd (reject (engine_host sys) i st s))" "ua_fine past sec c (snd (hangup (engine_host sys) i now s))"
    "ua_fine past sec c (shutdown (engine_host sys) now s)" "ua_fine past sec c (on_message (engine_host sys) m now s)"
    "ua_fine past sec c (on_timer (engine_host sys) now s)" "ua_fine past sec c (on_transport_up (engine_host sys) now s)"
    "ua_fine past sec c (on_transport_down (engine_host sys) now s)" "ua_fine past sec c (snd (take_events s))"
  using ua_fine_step [OF assms, of now StartRegistration] ua_fine_step [OF assms, of now StopRegistration]
    ua_fine_step [OF assms, of now "MakeCall i target"] ua_fine_step [OF assms, of now "Answer i"]
    ua_fine_step [OF assms, of now "Reject i st"] ua_fine_step [OF assms, of now "Hangup i"]
    ua_fine_step [OF assms, of now ShutDown] ua_fine_step [OF assms, of now "OnMessage m"]
    ua_fine_step [OF assms, of now OnTimer] ua_fine_step [OF assms, of now TransportUp]
    ua_fine_step [OF assms, of now TransportDown] ua_fine_step [OF assms, of now TakeEvents]
  by simp_all

lemma ua_fine_host:
  "ua_fine past sec c s \<Longrightarrow> host_up past sec c' h \<Longrightarrow> h_rtp h = h_rtp (u_host s) \<Longrightarrow> ua_fine past sec c' (s\<lparr>u_host := h\<rparr>)"
  by (auto simp: ua_fine_def ua_inv_def ua_base_def ua_pre_def call_fine_def split: option.splits)

lemma ua_fine_hostD: "ua_fine past sec c s \<Longrightarrow> host_ok sec (u_host s) \<and> h_connection (u_host s) = c \<and> h_tls (u_host s) = sec \<and>
    prefix past (h_trace (u_host s))"
  by (simp add: ua_fine_def ua_inv_def ua_base_def ua_pre_def host_up_def host_ok_def link_ok_def)

definition engine_ok :: "trace \<Rightarrow> bool \<Rightarrow> engine \<Rightarrow> bool" where
  "engine_ok past sec s \<longleftrightarrow> ua_fine past sec (e_link s \<noteq> Down) (e_ua s) \<and>
     (e_link s \<noteq> Down \<longrightarrow> sec \<and> e_listener s = Some (e_generation s)) \<and>
     kReconnectFirst \<le> e_backoff s \<and> e_backoff s \<le> kReconnectMost"

lemma engine_ok_host:
  assumes "engine_ok past sec s"
  shows "host_ok sec (e_host s)" "h_connection (e_host s) = (e_link s \<noteq> Down)" "e_tls s = sec" "prefix past (h_trace (e_host s))"
  using assms ua_fine_hostD [of past sec "e_link s \<noteq> Down" "e_ua s"] by (simp_all add: engine_ok_def)

lemma engine_ok_past: "engine_ok past sec s \<Longrightarrow> prefix past' (h_trace (e_host s)) \<Longrightarrow> engine_ok past' sec s"
  by (auto simp: engine_ok_def ua_fine_def ua_inv_def ua_base_def ua_pre_def host_up_def)

lemma engine_ok_rest: "engine_ok past sec s \<Longrightarrow> rest s' = rest s \<Longrightarrow> e_ua s' = e_ua s \<Longrightarrow> engine_ok past sec s'"
  using rest_eqD [of s' s] by (simp add: engine_ok_def)

lemma engine_ok_ua: "engine_ok past sec s \<Longrightarrow> ua_fine past sec (e_link s \<noteq> Down) ua \<Longrightarrow> engine_ok past sec (s\<lparr>e_ua := ua\<rparr>)"
  by (simp add: engine_ok_def)

lemma engine_ok_set_host:
  "engine_ok past sec s \<Longrightarrow> host_ok sec h \<Longrightarrow> h_connection h = h_connection (e_host s) \<Longrightarrow> h_rtp h = h_rtp (e_host s) \<Longrightarrow>
   prefix (h_trace (e_host s)) (h_trace h) \<Longrightarrow> engine_ok past sec (set_host h s)"
  using ua_fine_host [of past sec "e_link s \<noteq> Down" "e_ua s" "e_link s \<noteq> Down" h] engine_ok_host(2,4) [of past sec s]
    prefix_step [of past "h_trace (e_host s)" "h_trace h"]
  by (simp add: engine_ok_def host_up_def)

lemma clock_now_frame [simp]: "h_rtp (snd (clock_now sys h)) = h_rtp h"
  by (simp add: clock_now_def ask_def)

lemma engine_ok_now: "engine_ok past sec s \<Longrightarrow> engine_ok past sec (snd (now_of sys s))"
  using engine_ok_set_host [of past sec s "snd (clock_now sys (e_host s))"] engine_ok_host(1) [of past sec s]
  by (simp add: now_of_def case_prod_beta host_ok_clock)

section \<open>Commands and events\<close>

lemma engine_ok_with_result:
  "engine_ok past sec s \<Longrightarrow> (ua_fine past sec (e_link s \<noteq> Down) (e_ua s) \<Longrightarrow> ua_fine past sec (e_link s \<noteq> Down) (snd (f (e_ua s)))) \<Longrightarrow>
   engine_ok past sec (snd (with_result f s))"
  by (simp add: with_result_def case_prod_beta engine_ok_def)

lemma engine_ok_execute:
  assumes "system_ok sys" and "engine_ok past sec s"
  shows "engine_ok past sec (snd (execute sys c s))"
proof -
  let ?s = "snd (now_of sys s)"
  have ok: "engine_ok past sec ?s" by (rule engine_ok_now [OF assms(2)])
  then have fine: "ua_fine past sec (e_link ?s \<noteq> Down) (e_ua ?s)" by (simp add: engine_ok_def)
  note ops = ua_fine_ops [OF assms(1) fine]
  show ?thesis
    using ok ops by (auto simp: execute_def case_prod_beta split: command.split intro: engine_ok_ua engine_ok_with_result)
qed

lemma engine_ok_prepare: "engine_ok past sec s \<Longrightarrow> prepare a s = (c, i, s') \<Longrightarrow> engine_ok past sec s'"
  using engine_ok_set_host [of past sec s "snd (host_allocate_call_id (e_host s))"] host_ok_allocate [of sec "e_host s"]
    engine_ok_host(1) [of past sec s]
  by (auto simp: prepare_def case_prod_beta split: api.splits)

lemma engine_ok_inline: "system_ok sys \<Longrightarrow> engine_ok past sec s \<Longrightarrow> engine_ok past sec (snd (run_inline sys a s))"
  using engine_ok_prepare [of past sec s a] engine_ok_execute [of sys past sec]
  by (cases "prepare a s") (simp add: run_inline_def case_prod_beta)

lemma engine_ok_react: "system_ok sys \<Longrightarrow> engine_ok past sec s \<Longrightarrow> engine_ok past sec (react r sys s)"
  by (induction r arbitrary: s) (simp_all add: case_prod_beta engine_ok_inline)

lemma engine_ok_deliver_event: "system_ok sys \<Longrightarrow> engine_ok past sec s \<Longrightarrow> engine_ok past sec (deliver_event sys app e s)"
  unfolding deliver_event_def Let_def
  by (auto intro!: engine_ok_react intro: engine_ok_rest)

lemma engine_ok_deliver_events:
  assumes "system_ok sys" and "deliver_events sys app s = Some s'" and "engine_ok past sec s"
  shows "engine_ok past sec s'"
  using assms(2,3)
proof (rule deliver_events_induct)
  show "engine_ok past sec (s\<lparr>e_ua := snd (take_events (e_ua s))\<rparr>)" if "engine_ok past sec s" for s
    using that ua_fine_ops(12) [OF assms(1)] by (simp add: engine_ok_def)
qed (rule engine_ok_deliver_event [OF assms(1)])

lemma deliver_ua:
  assumes "system_ok sys" and "engine_ok past sec s" and "deliver_events sys app (s\<lparr>e_ua := ua\<rparr>) = Some s'"
    and "ua_fine past sec (e_link s \<noteq> Down) ua"
  shows "engine_ok past sec s' \<and> rest s' = rest s"
  using engine_ok_deliver_events [OF assms(1,3) engine_ok_ua [OF assms(2,4)]] rest_deliver_events [OF assms(3)] by simp

lemma engine_ok_stop:
  assumes "system_ok sys" and "engine_ok past sec s"
  shows "engine_ok past sec (stop_engine sys s) \<and> frame (stop_engine sys s) = frame s \<and>
    e_answers (stop_engine sys s) = e_answers s \<and> e_stopping (stop_engine sys s)"
proof -
  let ?s = "snd (now_of sys s)"
  let ?t = "?s\<lparr>e_ua := shutdown (engine_host sys) (fst (now_of sys s)) (e_ua ?s), e_stopping := True\<rparr>"
  have "engine_ok past sec ?s" by (rule engine_ok_now [OF assms(2)])
  then have "engine_ok past sec ?t" using ua_fine_ops(7) [OF assms(1)] by (simp add: engine_ok_def)
  then have "engine_ok past sec (snd (now_of sys ?t))" by (rule engine_ok_now)
  moreover have "stop_engine sys s = (snd (now_of sys ?t))\<lparr>e_stop_deadline := fst (now_of sys ?t) + kShutdownGrace\<rparr>"
    by (simp add: stop_engine_def case_prod_beta)
  moreover have "frame (snd (now_of sys ?t)) = frame s"
    using rest_frame [OF rest_now [of sys ?t]] rest_frame [OF rest_now [of sys s]] by simp
  ultimately show ?thesis
    using rest_eqD2 [OF rest_now [of sys ?t]] rest_eqD2 [OF rest_now [of sys s]] by (simp add: engine_ok_def)
qed

lemma engine_ok_job:
  assumes "system_ok sys" and "engine_ok past sec s"
  shows "engine_ok past sec (run_job sys b j s) \<and> frame (run_job sys b j s) = frame s \<and>
    (case j of
       Job t c \<Rightarrow> (\<exists>r. e_answers (run_job sys b j s) = (e_answers s)(t \<mapsto> r)) \<and> e_stopping (run_job sys b j s) = e_stopping s \<and>
         e_stop_deadline (run_job sys b j s) = e_stop_deadline s
     | StopJob \<Rightarrow> e_answers (run_job sys b j s) = e_answers s \<and> e_stopping (run_job sys b j s))"
proof (cases j)
  case (Job t c)
  have "engine_ok past sec (snd (execute sys c s))" by (rule engine_ok_execute [OF assms])
  moreover have "frame (snd (execute sys c s)) = frame s" "e_answers (snd (execute sys c s)) = e_answers s"
    "e_stopping (snd (execute sys c s)) = e_stopping s" "e_stop_deadline (snd (execute sys c s)) = e_stop_deadline s"
    using rest_frame [OF rest_execute] rest_eqD2 [OF rest_execute] by auto
  ultimately show ?thesis using assms(2) Job by (auto simp: run_job_def case_prod_beta engine_ok_def)
qed (simp add: run_job_def engine_ok_stop [OF assms])

section \<open>The link\<close>

lemma holds_tls:
  assumes "holds_ok h" and "held tls_connections tr = (if c then {()} else {})"
    and "held descriptors tr = held descriptors (h_trace h)" and "held srtp_sessions tr = held srtp_sessions (h_trace h)"
    and "created tr = created (h_trace h)"
  shows "holds_ok (h\<lparr>h_connection := c, h_trace := tr\<rparr>)"
  using assms stream_ok_created [OF assms(5)] by (simp add: holds_ok_def)

lemma host_ok_disconnect:
  assumes "host_ok sec h" and "h_connection h"
  shows "host_ok sec (h\<lparr>h_connection := False, h_trace := h_trace h @ [TlsDestroy]\<rparr>)"
proof -
  have h: "() \<in> held tls_connections (h_trace h)" by (rule host_ok_held(5) [OF assms])
  have "holds_ok (h\<lparr>h_connection := False, h_trace := h_trace h @ [TlsDestroy]\<rparr>)"
    using assms(1) by (intro holds_tls) (auto simp: host_ok_def resource_calls created_def)
  then show ?thesis
    using assms(1) h
    by (auto simp: host_ok_def media_ok_def link_ok_def trace_good_def resource_calls secure_call_def)
qed

lemma host_ok_connect:
  assumes "host_ok sec h" and "\<not> h_connection h"
  shows "host_ok sec (h\<lparr>h_trace := h_trace h @ [ConnectTls opts g False]\<rparr>)"
    and "sec \<Longrightarrow> host_ok sec (send_pending (h\<lparr>h_connection := True, h_trace := h_trace h @ [ConnectTls opts g True]\<rparr>))"
proof -
  show "host_ok sec (h\<lparr>h_trace := h_trace h @ [ConnectTls opts g False]\<rparr>)"
    using assms(1) by (intro host_ok_keeps keeps_neutral) (simp_all add: neutral_def)
  assume sec: "sec"
  have empty: "held tls_connections (h_trace h) = {}" using assms by (simp add: host_ok_def holds_ok_def)
  let ?tr = "h_trace h @ [ConnectTls opts g True]"
  have good: "trace_good sec ?tr" using assms(1) empty by (auto simp: host_ok_def trace_good_def resource_calls secure_call_def)
  have good2: "trace_good sec (?tr @ [TlsSend m])" for m
    using good empty by (subst tls_send_call [THEN conjunct1]) (simp_all add: resource_calls)
  have "holds_ok (h\<lparr>h_connection := True, h_trace := ?tr\<rparr>)" "holds_ok (h\<lparr>h_connection := True, h_trace := ?tr @ [TlsSend m]\<rparr>)" for m
    using assms(1) empty by (auto intro!: holds_tls simp: host_ok_def resource_calls created_def)
  then show "host_ok sec (send_pending (h\<lparr>h_connection := True, h_trace := ?tr\<rparr>))"
    using assms(1) sec good good2
    by (simp add: send_pending_def tls_send_def host_ok_def media_ok_def link_ok_def holds_ok_def)
qed

lemma destroy_connection_spec:
  assumes "engine_ok past sec s"
  shows "ua_fine past sec False (e_ua (destroy_connection s)) \<and> rest (destroy_connection s) = rest s"
proof (cases "h_connection (e_host s)")
  case True
  then have "host_up past sec False ((e_host s)\<lparr>h_connection := False, h_trace := h_trace (e_host s) @ [TlsDestroy]\<rparr>)"
    using host_ok_disconnect [OF engine_ok_host(1) [OF assms]] engine_ok_host(4) [OF assms] by (simp add: host_up_def)
  then show ?thesis
    using ua_fine_host [of past sec "e_link s \<noteq> Down" "e_ua s" False] assms True
    by (simp add: destroy_connection_def engine_ok_def)
next
  case False
  then show ?thesis using assms engine_ok_host(2) [OF assms] by (simp add: destroy_connection_def engine_ok_def)
qed

definition others :: "engine \<Rightarrow> link_event list \<times> job list \<times> bool \<times> nat" where
  "others s = (e_inbox s, e_queue s, e_closed s, e_wake s)"

lemma rest_others: "rest s' = rest s \<Longrightarrow> others s' = others s \<and> e_generation s' = e_generation s \<and> e_link s' = e_link s"
  by (simp add: rest_def frame_def others_def)

lemma frame_others: "frame s' = frame s \<Longrightarrow> others s' = others s \<and> e_generation s' = e_generation s \<and> e_link s' = e_link s"
  by (simp add: frame_def others_def)

text \<open>Connecting and dropping start a new generation.\<close>

definition renewed :: "trace \<Rightarrow> bool \<Rightarrow> engine \<Rightarrow> engine \<Rightarrow> bool" where
  "renewed past sec s s' \<longleftrightarrow> engine_ok past sec s' \<and> others s' = others s \<and> e_generation s' = e_generation s + 1 \<and>
     e_answers s' = e_answers s \<and> e_stopping s' = e_stopping s \<and> e_stop_deadline s' = e_stop_deadline s"

lemma drop_link_spec:
  assumes "system_ok sys" and "engine_ok past sec s" and "drop_link sys app now s = Some s'"
  shows "renewed past sec s s' \<and> e_link s' = Down"
proof -
  let ?s = "schedule_reconnect now ((destroy_connection s)\<lparr>e_listener := None,
      e_generation := e_generation (destroy_connection s) + 1, e_framer := reset_framer\<rparr>)"
  note d = destroy_connection_spec [OF assms(2)]
  note r = rest_eqD [OF conjunct2 [OF d]]
  have ok: "engine_ok past sec ?s" using d assms(2) r by (simp add: engine_ok_def schedule_reconnect_def)
  have "deliver_events sys app (?s\<lparr>e_ua := on_transport_down (engine_host sys) now (e_ua ?s)\<rparr>) = Some s'"
    using assms(3) by (simp add: drop_link_def Let_def)
  moreover have "ua_fine past sec (e_link ?s \<noteq> Down) (on_transport_down (engine_host sys) now (e_ua ?s))"
    using ok by (intro ua_fine_ops(11) [OF assms(1)]) (simp add: engine_ok_def)
  ultimately have "engine_ok past sec s' \<and> rest s' = rest ?s" by (rule deliver_ua [OF assms(1) ok])
  moreover have "others ?s = others s" "e_generation ?s = e_generation s + 1" "e_link ?s = Down"
    using r by (simp_all add: others_def schedule_reconnect_def)
  moreover have "e_answers ?s = e_answers s" "e_stopping ?s = e_stopping s" "e_stop_deadline ?s = e_stop_deadline s"
    using rest_eqD2 [OF conjunct2 [OF d]] by (simp_all add: schedule_reconnect_def)
  ultimately show ?thesis unfolding renewed_def using rest_others [of s' ?s] rest_eqD2 [of s' ?s] by metis
qed

lemma dial_spec:
  assumes "ua_fine past sec False (e_ua s)" and "sec" and "e_listener s = Some (e_generation s)"
    and "kReconnectFirst \<le> e_backoff s" and "e_backoff s \<le> kReconnectMost"
  shows "engine_ok past sec (dial sys now s) \<and> others (dial sys now s) = others s \<and> e_generation (dial sys now s) = e_generation s \<and>
    e_answers (dial sys now s) = e_answers s \<and> e_stopping (dial sys now s) = e_stopping s \<and>
    e_stop_deadline (dial sys now s) = e_stop_deadline s"
proof -
  define h where "h = e_host s"
  have h: "host_ok sec h" "\<not> h_connection h" "prefix past (h_trace h)" using ua_fine_hostD [OF assms(1)] by (simp_all add: h_def)
  define ok where "ok = a_connect_tls sys (h_trace h) (e_options s)"
  define h1 where "h1 = h\<lparr>h_connection := ok, h_trace := h_trace h @ [ConnectTls (e_options s) (e_generation s) ok]\<rparr>"
  have d: "dial sys now s = (if \<not> ok then schedule_reconnect now (set_host h1 s)
      else set_host (send_pending h1) (s\<lparr>e_link := Connecting\<rparr>))"
    by (simp add: dial_def Let_def ask_def h1_def ok_def h_def)
  have "engine_ok past sec (dial sys now s)"
  proof (cases ok)
    case True
    then have "host_up past sec True (send_pending h1)"
      using host_ok_connect(2) [OF h(1,2)] assms(2) h(3) by (simp add: host_up_def h1_def send_pending_def tls_send_def)
    moreover have "h_rtp (send_pending h1) = h_rtp (u_host (e_ua s))"
      using True by (simp add: send_pending_def tls_send_def h1_def h_def)
    ultimately show ?thesis using ua_fine_host [OF assms(1)] True d assms(2-5) by (simp add: engine_ok_def)
  next
    case False
    then have same: "h1 = h\<lparr>h_trace := h_trace h @ [ConnectTls (e_options s) (e_generation s) False]\<rparr>"
      using h(2) by (cases h) (simp add: h1_def)
    have "host_up past sec False h1" using host_ok_connect(1) [OF h(1,2)] h(2,3) by (simp add: same host_up_def)
    moreover have "h_rtp h1 = h_rtp (u_host (e_ua s))" by (simp add: h1_def h_def)
    ultimately show ?thesis
      using ua_fine_host [OF assms(1)] False d assms(4,5) by (simp add: engine_ok_def schedule_reconnect_def)
  qed
  then show ?thesis using d by (simp add: others_def schedule_reconnect_def)
qed

lemma connect_link_spec:
  assumes "engine_ok past sec s" and "sec"
  shows "renewed past sec s (connect_link sys now s)"
proof -
  let ?s = "(destroy_connection s)\<lparr>e_generation := e_generation (destroy_connection s) + 1,
      e_listener := Some (e_generation (destroy_connection s) + 1), e_framer := reset_framer\<rparr>"
  note d = destroy_connection_spec [OF assms(1)]
  note r = rest_eqD [OF conjunct2 [OF d]]
  have "others ?s = others s" "e_generation ?s = e_generation s + 1" using r by (simp_all add: others_def)
  moreover have "kReconnectFirst \<le> e_backoff ?s" "e_backoff ?s \<le> kReconnectMost"
    using assms(1) r by (simp_all add: engine_ok_def)
  ultimately show ?thesis
    using dial_spec [of past sec ?s sys now] d rest_eqD2 [OF conjunct2 [OF d]] assms(2)
    by (simp add: renewed_def connect_link_def Let_def)
qed

section \<open>Media\<close>

lemma session_active [simp]:
  "active (accept_packet s p t) = active s" "active (snd (snd (next_packet s out))) = active s"
  by (simp_all add: accept_packet_def switch_source_def next_packet_def case_prod_beta Let_def)

lemma play_frame_active: "play_frame s t = Some s' \<Longrightarrow> active s' = active s"
proof -
  have c: "active (snd (conceal x)) = active x" for x by (simp add: conceal_def Let_def)
  have "active (snd (frame_samples x r)) = active x" for x r
    by (simp add: frame_samples_def c Let_def split: pop_result.split)
  then show "play_frame s t = Some s' \<Longrightarrow> active s' = active s"
    by (auto simp: play_frame_def case_prod_beta Let_def split: option.splits)
qed

lemma host_ok_media:
  "host_ok sec h \<Longrightarrow> session_ok m \<Longrightarrow> active m = active (h_media h) \<Longrightarrow> host_ok sec (h\<lparr>h_media := m\<rparr>)"
  by (simp add: host_ok_def holds_ok_def media_ok_def link_ok_def)

lemma host_ok_session: "host_ok sec h \<Longrightarrow> session_ok (h_media h)"
  by (simp add: host_ok_def media_ok_def)

lemma host_ok_overrun: "host_ok sec h \<Longrightarrow> host_ok sec (fail_with Overrun h)"
  by (simp add: host_ok_def holds_ok_def media_ok_def link_ok_def fail_with_def)

lemma host_ok_hear:
  assumes "host_ok sec h" and "sec \<Longrightarrow> authentic (h_trace h) d"
  shows "host_ok sec (hear sys d h) \<and> h_rtp (hear sys d h) = h_rtp h \<and> h_connection (hear sys d h) = h_connection h"
proof -
  let ?h = "h\<lparr>h_trace := h_trace h @ [Hear d]\<rparr>"
  have "host_ok sec ?h"
    using assms by (intro host_ok_same [OF assms(1)])
      (auto simp: host_ok_def trace_good_def same_held_def resource_calls secure_call_def created_def)
  then have ok: "host_ok sec (snd (clock_now sys ?h))" by (rule host_ok_clock)
  have acc: "session_ok (accept_packet (h_media h) p t)" for p t by (rule accept_packet_ok [OF host_ok_session [OF assms(1)]])
  show ?thesis
    using ok host_ok_media [OF ok] acc host_ok_session [OF ok] host_ok_overrun [OF ok]
    by (auto simp: hear_def case_prod_beta session_on_packet_def clock_now_def ask_def fail_with_def
        split: option.split)
qed

lemma grows_hear [simp]: "prefix (h_trace h) (h_trace (hear sys d h))"
  by (simp add: hear_def clock_now_def ask_def fail_with_def split: option.split)

lemma grows_accept [simp]: "prefix (h_trace h) (h_trace (accept_datagram sys d h))"
proof (cases "h_srtp_in h")
  case (Some st)
  obtain r tr where u: "unprotect sys st 0 65536 d (h_trace h) = (r, tr)" by fastforce
  then have p: "prefix (h_trace h) tr" by (auto simp: unprotect_def ask_def split: if_splits prod.splits)
  have "prefix tr (h_trace (hear sys plain (h\<lparr>h_trace := tr\<rparr>)))" for plain
    using grows_hear [of "h\<lparr>h_trace := tr\<rparr>"] by simp
  then show ?thesis using prefix_step [OF p] p by (simp add: accept_datagram_def Some u split: option.split)
qed (simp add: accept_datagram_def)

lemma srtp_call:
  "s \<in> held srtp_sessions tr \<Longrightarrow> keeps tr (tr @ [SrtpProtect s p r])"
  "s \<in> held srtp_sessions tr \<Longrightarrow> keeps tr (tr @ [SrtpUnprotect s p r])"
  by (auto simp: keeps_def trace_good_def same_held_def resource_calls secure_call_def created_def)

lemma host_ok_accept:
  assumes "host_ok sec h" and "active (h_media h)"
  shows "host_ok sec (accept_datagram sys d h) \<and> h_rtp (accept_datagram sys d h) = h_rtp h \<and>
    h_connection (accept_datagram sys d h) = h_connection h"
proof (cases "h_srtp_in h")
  case None
  then have "\<not> sec" using assms by (auto simp: host_ok_def media_ok_def)
  then show ?thesis using None host_ok_hear [OF assms(1)] by (simp add: accept_datagram_def)
next
  case (Some st)
  have c: "created (h_trace h) (ss_handle st) = Some (Inbound, ss_key st)"
    using assms(1) Some by (simp add: host_ok_def holds_ok_def stream_ok_def)
  let ?a = "a_srtp_unprotect sys (h_trace h) (ss_handle st) d"
  let ?tr = "h_trace h @ [SrtpUnprotect (ss_handle st) d ?a]"
  have ok: "host_ok sec (h\<lparr>h_trace := ?tr\<rparr>)"
    by (rule host_ok_keeps [OF assms(1) srtp_call(2) [OF host_ok_held(4) [OF assms(1) Some]]])
  obtain good n buf where a: "?a = (good, n, buf)" by (cases ?a)
  have "authentic ?tr (take (nat n) buf)" if "good" "0 \<le> n"
    using that c a by (auto simp: authentic_def)
  with host_ok_hear [OF ok] have heard: "good \<Longrightarrow> 0 \<le> n \<Longrightarrow>
      host_ok sec (hear sys (take (nat n) buf) (h\<lparr>h_trace := ?tr\<rparr>)) \<and>
      h_rtp (hear sys (take (nat n) buf) (h\<lparr>h_trace := ?tr\<rparr>)) = h_rtp h \<and>
      h_connection (hear sys (take (nat n) buf) (h\<lparr>h_trace := ?tr\<rparr>)) = h_connection h" by simp
  show ?thesis
  proof (cases "length d < 22 \<or> \<not> fits 0 65536 (length d) 0")
    case True
    then have "unprotect sys st 0 65536 d (h_trace h) = (None, h_trace h)" by (simp add: unprotect_def)
    then show ?thesis using assms(1) Some by (simp add: accept_datagram_def)
  next
    case False
    then have "unprotect sys st 0 65536 d (h_trace h) = (if \<not> good \<or> n < 0 then None else Some (take (nat n) buf), ?tr)"
      using a by (simp add: unprotect_def ask_def)
    then show ?thesis using heard ok Some by (auto simp: accept_datagram_def)
  qed
qed

lemma sendto_call:
  assumes "fd \<in> held descriptors tr" and "sec \<Longrightarrow> protected_by tr d"
  shows "trace_good sec (tr @ [Sendto fd d sa len r]) = trace_good sec tr \<and> same_held tr (tr @ [Sendto fd d sa len r])"
  using assms by (auto simp: trace_good_def same_held_def resource_calls secure_call_def created_def)

lemma host_ok_send_to:
  assumes "host_ok sec h" and "h_rtp h = Some rtp" and "sec \<Longrightarrow> protected_by (h_trace h) d"
  shows "host_ok sec (h\<lparr>h_trace := snd (send_to sys rtp d remote (h_trace h))\<rparr>)"
proof (cases "destination rtp remote")
  case None
  then show ?thesis using assms(1) by (simp add: send_to_def)
next
  case (Some e)
  have "trace_good sec (h_trace h)" using assms(1) by (simp add: host_ok_def)
  then show ?thesis
    using Some sendto_call [OF host_ok_held(2) [OF assms(1,2)] assms(3)]
    by (auto simp: send_to_def ask_def intro: host_ok_same [OF assms(1)])
qed

lemma send_frame_frame [simp]:
  "h_rtp (send_frame sys rtp h) = h_rtp h" "h_connection (send_frame sys rtp h) = h_connection h"
  "active (h_media (send_frame sys rtp h)) = active (h_media h)" "h_next_frame (send_frame sys rtp h) = h_next_frame h"
  by (simp_all add: send_frame_def protect_packet_def case_prod_beta split: option.split)

lemma grows_frame [simp]: "prefix (h_trace h) (h_trace (do_frame sys rtp h))"
proof -
  have "prefix (h_trace k) (h_trace (snd (protect_packet sys p k)))" for p k
    by (simp add: protect_packet_def protect_def ask_def case_prod_beta split: option.split)
  then have p: "prefix (h_trace h) (h_trace (snd (protect_packet sys p (h\<lparr>h_media := m\<rparr>))))" for p m
    by (metis (no_types) host.select_convs(16) host.surjective host.update_convs(9))
  show ?thesis
    using p prefix_step [OF p grows_socket(6)]
    by (auto simp: do_frame_def play_next_def fail_with_def send_frame_def case_prod_beta split: option.split)
qed

lemma host_ok_frame:
  assumes "host_ok sec h" and "h_rtp h = Some rtp" and "active (h_media h)"
  shows "host_ok sec (send_frame sys rtp h)"
proof -
  obtain sz out m where n: "next_packet (h_media h) (replicate kMaxPacketSize 0) = (sz, out, m)"
    by (cases "next_packet (h_media h) (replicate kMaxPacketSize 0)")
  let ?p = "take sz out" and ?h = "h\<lparr>h_media := m\<rparr>"
  have m: "session_ok m" "active m"
    using next_packet_ok [OF host_ok_session [OF assms(1)], of "replicate kMaxPacketSize 0"]
      session_active(2) [of "h_media h" "replicate kMaxPacketSize 0"] n assms(3) by simp_all
  have ok: "host_ok sec ?h" using host_ok_media [OF assms(1) m(1)] m(2) assms(3) by simp
  show ?thesis
  proof (cases "h_srtp_out h")
    case None
    then have "\<not> sec" using assms by (auto simp: host_ok_def media_ok_def)
    then show ?thesis
      using n None ok m host_ok_send_to [OF ok] assms(2)
      by (simp add: send_frame_def protect_packet_def)
  next
    case (Some st)
    have c: "created (h_trace h) (ss_handle st) = Some (Outbound, ss_key st)"
      using assms(1) Some by (simp add: host_ok_def holds_ok_def stream_ok_def)
    let ?a = "a_srtp_protect sys (h_trace h) (ss_handle st) ?p"
    let ?tr = "h_trace h @ [SrtpProtect (ss_handle st) ?p ?a]"
    obtain good len buf where a: "?a = (good, len, buf)" by (cases ?a)
    have "keeps (h_trace ?h) ?tr" using srtp_call(1) [OF host_ok_held(3) [OF assms(1) Some]] by simp
    then have ok2: "host_ok sec (?h\<lparr>h_trace := ?tr\<rparr>)" by (rule host_ok_keeps [OF ok])
    have p: "protected_by ?tr (take (nat len) buf)" if "good" "0 \<le> len" using that c a by (auto simp: protected_by_def)
    let ?q = "protect sys st 0 (kMaxPacketSize + kSrtpTrailerRoom) ?p (h_trace h)"
    have q: "?q = ([], h_trace h) \<or> ?q = ([], ?tr) \<or> good \<and> 0 \<le> len \<and> ?q = (take (nat len) buf, ?tr)"
      using a by (auto simp: protect_def ask_def)
    have "host_ok sec (?h\<lparr>h_trace := snd (send_to sys rtp (take (nat len) buf) (h_rtp_remote h) ?tr)\<rparr>)"
      if "good" "0 \<le> len"
      using host_ok_send_to [OF ok2, of rtp "take (nat len) buf"] p [OF that] assms(2) by simp
    then show ?thesis
      using n Some ok ok2 q by (auto simp: send_frame_def protect_packet_def)
  qed
qed

lemma host_ok_do_frame:
  assumes "host_ok sec h" and "h_rtp h = Some rtp" and "active (h_media h)"
  shows "host_ok sec (do_frame sys rtp h) \<and> h_rtp (do_frame sys rtp h) = Some rtp \<and>
    h_connection (do_frame sys rtp h) = h_connection h \<and> active (h_media (do_frame sys rtp h)) \<and>
    h_next_frame (do_frame sys rtp h) = h_next_frame h + kFrame"
proof -
  let ?h = "send_frame sys rtp h"
  note f = host_ok_frame [OF assms, of sys]
  obtain m where m: "play_frame (h_media ?h) (micros (h_next_frame ?h)) = Some m" "session_ok m"
    using play_frame_ok [of "h_media ?h"] host_ok_session [of sec ?h] f by blast
  then have "host_ok sec (?h\<lparr>h_media := m, h_next_frame := t\<rparr>)" for t
    using host_ok_media [of sec ?h m] f play_frame_active [OF m(1)]
    by (simp add: host_ok_def holds_ok_def media_ok_def link_ok_def)
  then show ?thesis using f m play_frame_active [OF m(1)] assms(2,3) by (simp add: do_frame_def play_next_def)
qed

end
