(* ===== verification/Engine_Create.thy ===== *)
theory Engine_Create
  imports Engine_Invariant
begin

text \<open>
  Making and destroying an engine: \<^verbatim>\<open>Engine::create\<close>, \<^verbatim>\<open>Engine::~Engine\<close> and
  \<^verbatim>\<open>ketphone_engine_create\<close> of \<^verbatim>\<open>src/core/engine.cpp\<close>. A pointer of the configuration that is null is
  \<^term>\<open>None\<close>; the transport is the number the caller stored.
\<close>

section \<open>The configuration\<close>

record ketphone_config =
  struct_size :: nat
  server_host :: "string option"
  server_port :: u16
  kc_extension :: "string option"
  kc_password :: "string option"
  kc_register_expires :: u32
  jitter_buffer_ms :: u32
  kc_user_agent :: "string option"
  kc_correlation_header :: "string option"
  kc_transport :: u32
  kc_tls_trust_anchors :: "string option"
  kc_tls_server_name :: "string option"

definition or_default :: "string option \<Rightarrow> string \<Rightarrow> string" where
  "or_default value fallback = (case value of None \<Rightarrow> fallback | Some v \<Rightarrow> if v = [] then fallback else v)"

definition given :: "string option \<Rightarrow> bool" where
  "given value \<longleftrightarrow> value \<noteq> None \<and> value \<noteq> Some []"

abbreviation (input) KETPHONE_TRANSPORT_UDP :: u32 where "KETPHONE_TRANSPORT_UDP \<equiv> 0"
abbreviation (input) KETPHONE_TRANSPORT_TLS :: u32 where "KETPHONE_TRANSPORT_TLS \<equiv> 1"

definition port_of :: "bool \<Rightarrow> ketphone_config \<Rightarrow> u16" where
  "port_of tls config = (if server_port config \<noteq> 0 then server_port config else if tls then 5061 else 5060)"

definition options_of :: "ketphone_config \<Rightarrow> tls_options" where
  "options_of config =
     \<lparr>tls_host = the (server_host config), tls_port = (if server_port config \<noteq> 0 then server_port config else 5061),
      tls_server_name = or_default (kc_tls_server_name config) [],
      tls_trust_anchors_pem = or_default (kc_tls_trust_anchors config) []\<rparr>"

definition no_options :: tls_options where
  "no_options = \<lparr>tls_host = [], tls_port = 5061, tls_server_name = [], tls_trust_anchors_pem = []\<rparr>"

section \<open>Creation\<close>

text \<open>The first server address that a socket can be connected to; a candidate that fails is destroyed.\<close>

fun connect_first :: "system \<Rightarrow> endpoint list \<Rightarrow> trace \<Rightarrow> udp_socket option \<times> trace" where
  "connect_first sys [] tr = (None, tr)"
| "connect_first sys (server # servers) tr =
     (case open_socket sys (ep_family server) tr of
        (None, tr) \<Rightarrow> connect_first sys servers tr
      | (Some candidate, tr) \<Rightarrow>
          (case connect sys candidate server tr of
             (True, tr) \<Rightarrow> assign_optional None (Some candidate) tr
           | (False, tr) \<Rightarrow> connect_first sys servers (destroy candidate tr)))"

definition ua_config_of :: "system \<Rightarrow> string \<Rightarrow> bool \<Rightarrow> ketphone_config \<Rightarrow> endpoint \<Rightarrow> ua_config" where
  "ua_config_of sys version tls config here =
     \<lparr>domain = the (server_host config), extension = the (kc_extension config), ua_password = the (kc_password config),
      local_address = address_string sys here, local_port = (if tls then 0 else ep_port here),
      transport = (if tls then ''TLS'' else ''UDP''), srtp = tls,
      register_expires = (if kc_register_expires config \<noteq> 0 then unat (kc_register_expires config) else 300),
      user_agent_name = or_default (kc_user_agent config) (''KetPhone/'' @ version),
      correlation_header = or_default (kc_correlation_header config) []\<rparr>"

abbreviation (input) kRingSamples :: nat where "kRingSamples \<equiv> 1600"

definition new_host :: "bool \<Rightarrow> udp_socket option \<Rightarrow> int \<Rightarrow> int \<Rightarrow> generator \<Rightarrow> trace \<Rightarrow> host" where
  "new_host tls sip family delay g tr =
     \<lparr>h_tls = tls, h_sip = sip, h_media_family = family, h_rtp = None, h_rtp_remote = new_endpoint, h_srtp_out = None,
      h_srtp_in = None, h_srtp_once = None, h_media = new_session (new_ring 0 kRingSamples) (new_ring 0 kRingSamples) delay,
      h_stats = no_stats, h_next_call_id = 1, h_next_frame = 0, h_connection = False, h_pending = [], h_random = g,
      h_trace = tr, h_fault = None\<rparr>"

definition new_engine :: "ua_config \<Rightarrow> host \<Rightarrow> tls_options \<Rightarrow> bool \<Rightarrow> generator \<Rightarrow> engine" where
  "new_engine config h options callback g =
     \<lparr>e_ua = new_user_agent config h g, e_callback = callback, e_options = options, e_listener = None, e_generation = 0,
      e_link = Down, e_reconnect_at = 0, e_backoff = kReconnectFirst, e_keepalive_at = 0, e_relink = False,
      e_framer = reset_framer, e_inbox = [], e_queue = [], e_closed = False, e_stopping = False, e_stop_deadline = 0,
      e_wake = 0, e_answers = Map.empty, e_delivered = []\<rparr>"

text \<open>
  What the destructor does when the thread is gone: the connection first, then the members from the
  last to the first.
\<close>

definition destroy_members :: "host \<Rightarrow> trace" where
  "destroy_members h =
     (let tr = (if h_connection h then h_trace h @ [TlsDestroy] else h_trace h);
          tr = destroy_stream (h_srtp_in h) tr;
          tr = destroy_stream (h_srtp_out h) tr;
          tr = reset_optional (h_rtp h) tr
      in reset_optional (h_sip h) tr)"

text \<open>\<^verbatim>\<open>start()\<close>: without a pipe there is no engine.\<close>

definition start_engine :: "system \<Rightarrow> engine \<Rightarrow> engine option \<times> trace" where
  "start_engine sys s =
     (case ask Pipe (a_pipe sys) (h_trace (e_host s)) of (ok, tr) \<Rightarrow>
        let s = set_host ((e_host s)\<lparr>h_trace := tr\<rparr>) s
        in if ok then (Some s, tr) else (None, destroy_members (e_host s)))"

definition make_engine ::
  "system \<Rightarrow> string \<Rightarrow> generator \<Rightarrow> generator \<Rightarrow> bool \<Rightarrow> ketphone_config \<Rightarrow> bool \<Rightarrow> trace \<Rightarrow> engine option \<times> trace" where
  "make_engine sys version g1 g2 tls config callback tr =
     (let (servers, tr) = resolve_all sys (the (server_host config)) (port_of tls config) tr
      in case connect_first sys servers tr of
           (None, tr) \<Rightarrow> (None, tr)
         | (Some sip, tr) \<Rightarrow>
             (case local sys sip tr of
                (None, tr) \<Rightarrow> (None, destroy sip tr)
              | (Some here, tr) \<Rightarrow>
                  (let (kept, tr) = (if tls then (None, reset_optional (Some sip) tr) else (Some sip, tr));
                       ms = (if jitter_buffer_ms config \<noteq> 0 then uint (jitter_buffer_ms config) else 60)
                   in start_engine sys
                        (new_engine (ua_config_of sys version tls config here)
                           (new_host tls kept (us_family sip) (ms * 1000) g1 tr)
                           (if tls then options_of config else no_options) callback g2))))"

definition create_engine ::
  "system \<Rightarrow> string \<Rightarrow> generator \<Rightarrow> generator \<Rightarrow> ketphone_config \<Rightarrow> bool \<Rightarrow> trace \<Rightarrow> engine option \<times> trace" where
  "create_engine sys version g1 g2 config callback tr =
     (if kc_password config = None \<or> \<not> given (server_host config) \<or> \<not> given (kc_extension config) then (None, tr)
      else if kc_transport config \<noteq> KETPHONE_TRANSPORT_UDP \<and> kc_transport config \<noteq> KETPHONE_TRANSPORT_TLS then (None, tr)
      else let tls = (kc_transport config = KETPHONE_TRANSPORT_TLS);
               anchors = tls_trust_anchors_pem (options_of config)
           in if tls \<and> (\<not> a_tls_supported sys \<or> anchors \<noteq> [] \<and> pem_certificates anchors = None) then (None, tr)
              else make_engine sys version g1 g2 tls config callback tr)"

text \<open>
  The structure of the configuration in memory: \<^verbatim>\<open>transport\<close> is at offset 64, the two pointers
  at 72 and 80, the whole has 88 bytes. What the caller's structure does not cover reads as zero; of a
  transport that is covered in part the low bytes are read.
\<close>

definition full_config :: "ketphone_config \<Rightarrow> ketphone_config" where
  "full_config config =
     (let n = min (struct_size config) 88
      in config\<lparr>struct_size := 88,
           kc_transport := (if n \<ge> 68 then kc_transport config else take_bit (8 * (n - 64)) (kc_transport config)),
           kc_tls_trust_anchors := (if n \<ge> 80 then kc_tls_trust_anchors config else None),
           kc_tls_server_name := (if n \<ge> 88 then kc_tls_server_name config else None)\<rparr>)"

text \<open>A pointer that is covered in part would be read torn.\<close>

definition torn :: "ketphone_config \<Rightarrow> bool" where
  "torn config \<longleftrightarrow> 72 < struct_size config \<and> struct_size config < 80 \<and> kc_tls_trust_anchors config \<noteq> None \<or>
     80 < struct_size config \<and> struct_size config < 88 \<and> kc_tls_server_name config \<noteq> None"

definition ketphone_engine_create ::
  "system \<Rightarrow> string \<Rightarrow> generator \<Rightarrow> generator \<Rightarrow> ketphone_config option \<Rightarrow> bool \<Rightarrow> trace \<Rightarrow> (engine option \<times> trace) option" where
  "ketphone_engine_create sys version g1 g2 config callback tr =
     (case config of
        None \<Rightarrow> Some (None, tr)
      | Some config \<Rightarrow>
          if struct_size config < 64 then Some (None, tr)
          else if kc_transport (full_config config) = KETPHONE_TRANSPORT_TLS \<and> torn config then None
          else Some (create_engine sys version g1 g2 (full_config config) callback tr))"

section \<open>What creation leaves behind\<close>

text \<open>One socket more, or nothing.\<close>

definition obtained :: "trace \<Rightarrow> udp_socket option \<times> trace \<Rightarrow> bool" where
  "obtained tr = (\<lambda>(r, tr').
     (\<forall>sec. trace_good sec tr' = trace_good sec tr) \<and> same_streams tr tr' \<and>
     (case r of
        None \<Rightarrow> held descriptors tr' = held descriptors tr
      | Some s \<Rightarrow> us_fd s \<ge> 0 \<and> us_fd s \<notin> held descriptors tr \<and>
          held descriptors tr' = insert (us_fd s) (held descriptors tr)))"

lemma obtained_opened: "opened tr x \<Longrightarrow> obtained tr x"
  by (auto simp: opened_def obtained_def split: option.splits)

lemma obtained_keeps: "obtained tr (r, tr1) \<Longrightarrow> keeps tr1 tr2 \<Longrightarrow> obtained tr (r, tr2)"
  by (auto simp: obtained_def keeps_def same_held_def same_streams_def split: option.splits)

lemma obtained_destroy:
  assumes "obtained tr (Some s, tr1)"
  shows "obtained tr (None, destroy s tr1)"
proof -
  have fd: "us_fd s \<in> held descriptors tr1" "us_fd s \<ge> 0" using assms by (simp_all add: obtained_def)
  then show ?thesis using close_call [OF fd(1)] assms
    by (auto simp: obtained_def destroy_def close_def same_streams_def)
qed

lemma obtained_after: "obtained tr (None, tr1) \<Longrightarrow> obtained tr1 x \<Longrightarrow> obtained tr x"
  by (auto simp: obtained_def same_streams_def split: option.splits)

lemma connect_first_obtained:
  assumes "fresh_resources sys"
  shows "obtained tr (connect_first sys servers tr)"
proof (induction servers arbitrary: tr)
  case Nil
  show ?case by (simp add: obtained_def same_streams_def)
next
  case (Cons e es)
  obtain r tr1 where o: "open_socket sys (ep_family e) tr = (r, tr1)" by force
  then have ob: "obtained tr (r, tr1)" using obtained_opened [OF open_socket_opened [OF assms]] by metis
  show ?case
  proof (cases r)
    case None
    then show ?thesis using o obtained_after [OF _ Cons.IH] ob by simp
  next
    case (Some s)
    obtain ok tr2 where c: "connect sys s e tr1 = (ok, tr2)" by force
    have "us_fd s \<in> held descriptors tr1" using ob Some by (simp add: obtained_def)
    then have "keeps tr1 tr2" using connect_keeps [of s tr1 sys e] c by simp
    then have ob2: "obtained tr (Some s, tr2)" using obtained_keeps ob Some by simp
    show ?thesis
      using o c Some ob2 obtained_after [OF obtained_destroy [OF ob2] Cons.IH]
      by (cases ok) (simp_all add: assign_empty)
  qed
qed

lemma good_Nil [simp]: "trace_good sec []"
  by (simp add: trace_good_def secured_trace_def)

text \<open>A host without media, and with a socket exactly if it does not signal over TLS.\<close>

lemma new_host_ok:
  assumes "obtained [] (sip, tr)" and "(sip = None) = tls"
  shows "host_ok tls (new_host tls sip family delay g tr)"
proof -
  have "session_ok (new_session (new_ring 0 kRingSamples) (new_ring 0 kRingSamples) delay)"
    by (intro new_session_ok new_ring_ok) simp_all
  then show ?thesis
    using assms
    by (cases sip)
      (auto simp: obtained_def new_host_def host_ok_def holds_ok_def media_ok_def link_ok_def stream_ok_def same_streams_def
        new_session_def)
qed

lemma reset_optional_spec:
  assumes "\<forall>s \<in> set_option x. us_fd s \<ge> 0 \<and> us_fd s \<in> held descriptors tr"
  shows "trace_good sec (reset_optional x tr) = trace_good sec tr \<and>
    held descriptors (reset_optional x tr) = held descriptors tr - us_fd ` set_option x \<and>
    same_streams tr (reset_optional x tr)"
proof (cases x)
  case (Some s)
  then show ?thesis using assms close_call [of "us_fd s" tr sec] by (simp add: reset_optional_def destroy_def close_def)
qed (simp add: reset_optional_def same_streams_def)

lemma destroy_members_spec:
  assumes "host_ok sec h"
  shows "trace_good sec (destroy_members h) \<and> held descriptors (destroy_members h) = {} \<and>
    held srtp_sessions (destroy_members h) = {} \<and> held tls_connections (destroy_members h) = {}"
proof -
  define tr1 where "tr1 = (if h_connection h then h_trace h @ [TlsDestroy] else h_trace h)"
  define tr2 where "tr2 = destroy_stream (h_srtp_in h) tr1"
  define tr3 where "tr3 = destroy_stream (h_srtp_out h) tr2"
  have eq: "destroy_members h = reset_optional (h_sip h) (reset_optional (h_rtp h) tr3)"
    by (simp add: destroy_members_def tr1_def tr2_def tr3_def Let_def)
  have inv: "holds_ok h" "trace_good sec (h_trace h)" using assms by (simp_all add: host_ok_def)
  have h1: "held tls_connections tr1 = {}" "held descriptors tr1 = held descriptors (h_trace h)"
    "held srtp_sessions tr1 = ss_handle ` (set_option (h_srtp_out h) \<union> set_option (h_srtp_in h))" "trace_good sec tr1"
    using inv by (auto simp: tr1_def holds_ok_def trace_good_def resource_calls secure_call_def)
  have apart: "ss_handle ` set_option (h_srtp_out h) \<inter> ss_handle ` set_option (h_srtp_in h) = {}"
    using inv(1) streams_apart [of "h_trace h" Outbound] by (simp add: holds_ok_def other_way_def)
  have l2: "loses (ss_handle ` set_option (h_srtp_in h)) tr1 tr2"
    unfolding tr2_def using h1(3) by (intro destroy_loses) auto
  have l3: "loses (ss_handle ` set_option (h_srtp_out h)) tr2 tr3"
    unfolding tr3_def using h1(3) l2 apart by (intro destroy_loses) (auto simp: loses_def)
  have h3: "held descriptors tr3 = us_fd ` (set_option (h_sip h) \<union> set_option (h_rtp h))"
    "held srtp_sessions tr3 = {}" "held tls_connections tr3 = {}" "trace_good sec tr3"
    using h1 l2 l3 inv(1) by (auto simp: loses_def holds_ok_def)
  let ?tr4 = "reset_optional (h_rtp h) tr3"
  have fds: "\<forall>s \<in> set_option (h_sip h) \<union> set_option (h_rtp h). us_fd s \<ge> 0"
    "us_fd ` set_option (h_sip h) \<inter> us_fd ` set_option (h_rtp h) = {}"
    using inv(1) by (auto simp: holds_ok_def)
  have r4: "trace_good sec ?tr4 = trace_good sec tr3 \<and> held descriptors ?tr4 = us_fd ` set_option (h_sip h) \<and> same_streams tr3 ?tr4"
    using reset_optional_spec [of "h_rtp h" tr3 sec] h3(1) fds by (auto simp: image_Un)
  have r5: "trace_good sec (destroy_members h) = trace_good sec ?tr4 \<and>
      held descriptors (destroy_members h) = {} \<and> same_streams ?tr4 (destroy_members h)"
    unfolding eq using reset_optional_spec [of "h_sip h" ?tr4 sec] r4 fds by auto
  show ?thesis using h3 r4 r5 by (simp add: same_streams_def)
qed

lemma engine_ok_new:
  assumes "host_ok sec h" and "h_connection h = False" and "h_rtp h = None" and "srtp cfg = sec"
  shows "engine_ok [] sec (new_engine cfg h opts callback g)"
  using new_user_agent_inv [of "host_up [] sec False" h media_open cfg g] assms
  by (simp add: engine_ok_def new_engine_def ua_fine_def host_up_def)

text \<open>
  Creation gives an engine whose invariant holds and whose trace is the trace of the calls, or nothing,
  and then nothing is held.
\<close>

definition created_well :: "bool \<Rightarrow> engine option \<times> trace \<Rightarrow> bool" where
  "created_well sec = (\<lambda>(r, tr).
     trace_good sec tr \<and>
     (case r of
        None \<Rightarrow> held descriptors tr = {} \<and> held srtp_sessions tr = {} \<and> held tls_connections tr = {}
      | Some s \<Rightarrow> engine_ok [] sec s \<and> h_trace (e_host s) = tr \<and> e_inbox s = [] \<and> e_queue s = [] \<and>
          \<not> e_closed s \<and> \<not> e_stopping s \<and> e_answers s = Map.empty))"

lemma start_engine_well:
  assumes "host_ok sec h" and "h_connection h = False" and "h_rtp h = None" and "srtp cfg = sec"
  shows "created_well sec (start_engine sys (new_engine cfg h opts callback g))"
proof -
  define ok where "ok = a_pipe sys (h_trace h)"
  let ?tr = "h_trace h @ [Pipe ok]"
  let ?s = "new_engine cfg h opts callback g"
  have h: "e_host ?s = h" by (simp add: new_engine_def new_user_agent_def Let_def case_prod_beta)
  have k: "keeps (h_trace h) ?tr" by (rule keeps_neutral) (simp_all add: neutral_def)
  then have hok: "host_ok sec (h\<lparr>h_trace := ?tr\<rparr>)" by (rule host_ok_keeps [OF assms(1)])
  then have "engine_ok [] sec (set_host (h\<lparr>h_trace := ?tr\<rparr>) ?s)"
    using engine_ok_set_host [OF engine_ok_new [OF assms]] h by simp
  moreover have "trace_good sec ?tr" using hok by (simp add: host_ok_def)
  ultimately show ?thesis
    using destroy_members_spec [OF hok] h
    by (cases ok) (simp_all add: start_engine_def ask_def ok_def [symmetric] created_well_def Let_def new_engine_def)
qed

lemma make_engine_well:
  assumes "system_ok sys"
  shows "created_well tls (make_engine sys version g1 g2 tls config callback [])"
proof -
  have fresh: "fresh_resources sys" using assms by (simp add: system_ok_def)
  obtain servers tr1 where r: "resolve_all sys (the (server_host config)) (port_of tls config) [] = (servers, tr1)" by force
  have ob1: "obtained [] (None, tr1)"
    using resolve_all_keeps [of "[]" sys "the (server_host config)" "port_of tls config"] r
    by (simp add: obtained_def keeps_def same_held_def same_streams_def)
  obtain sip tr2 where c: "connect_first sys servers tr1 = (sip, tr2)" by force
  then have ob2: "obtained [] (sip, tr2)" using obtained_after [OF ob1 connect_first_obtained [OF fresh]] by metis
  have none: "created_well tls (None, tr)" if "obtained [] (None, tr)" for tr
    using that by (simp add: created_well_def obtained_def same_streams_def)
  show ?thesis
  proof (cases sip)
    case None
    then show ?thesis using r c none ob2 by (simp add: make_engine_def)
  next
    case (Some s)
    obtain here tr3 where l: "local sys s tr2 = (here, tr3)" by force
    have "us_fd s \<in> held descriptors tr2" using ob2 Some by (simp add: obtained_def)
    then have "keeps tr2 tr3" using local_keeps [of s tr2 sys] l by simp
    then have ob3: "obtained [] (Some s, tr3)" using obtained_keeps ob2 Some by simp
    define kept where "kept = (if tls then None else Some s)"
    define tr4 where "tr4 = (if tls then destroy s tr3 else tr3)"
    have "obtained [] (kept, tr4)" using ob3 obtained_destroy [OF ob3] by (simp add: kept_def tr4_def)
    then have hok: "host_ok tls (new_host tls kept f d g1 tr4)" for f d by (rule new_host_ok) (simp add: kept_def)
    have nh: "h_connection (new_host tls kept f d g1 tr4) = False" "h_rtp (new_host tls kept f d g1 tr4) = None" for f d
      by (simp_all add: new_host_def)
    show ?thesis
    proof (cases here)
      case None
      then show ?thesis using r c l Some none [OF obtained_destroy [OF ob3]] by (simp add: make_engine_def)
    next
      case (Some e)
      have "srtp (ua_config_of sys version tls config e) = tls" by (simp add: ua_config_of_def)
      from start_engine_well [OF hok nh this] show ?thesis
        using r c l \<open>sip = Some s\<close> Some
        by (cases tls) (simp_all add: make_engine_def Let_def kept_def tr4_def reset_optional_def)
    qed
  qed
qed

lemma create_engine_well:
  assumes "system_ok sys"
  shows "created_well (kc_transport config = KETPHONE_TRANSPORT_TLS) (create_engine sys version g1 g2 config callback [])"
proof -
  have none: "created_well sec (None, [])" for sec by (simp add: created_well_def)
  show ?thesis using make_engine_well [OF assms] none by (simp add: create_engine_def Let_def)
qed

end
