(* ===== verification/Engine_Loop.thy ===== *)
theory Engine_Loop
  imports Engine_Create
begin

text \<open>
  The loop of the network thread keeps the invariant of the engine: every step of the loop, whatever
  the system answers and whatever the application does in its callback.
\<close>

section \<open>The invariant of the loop\<close>

text \<open>
  An event of the connection that is still to be handled is of a generation that is over, or of the
  current one, which then has a connection.
\<close>

definition events_ok :: "engine \<Rightarrow> link_event list \<Rightarrow> bool" where
  "events_ok s es \<longleftrightarrow> (\<forall>e \<in> set es. le_generation e \<le> e_generation s \<and> (le_generation e = e_generation s \<longrightarrow> e_link s \<noteq> Down))"

definition events_at :: "pc \<Rightarrow> link_event list" where
  "events_at place = (case place of InLink es \<Rightarrow> es | _ \<Rightarrow> [])"

definition jobs_at :: "pc \<Rightarrow> job list" where
  "jobs_at place = (case place of InCommands js \<Rightarrow> js | InAbandon js \<Rightarrow> js | _ \<Rightarrow> [])"

definition place_ok :: "bool \<Rightarrow> pc \<Rightarrow> engine \<Rightarrow> bool" where
  "place_ok sec place s \<longleftrightarrow>
     (case place of
        AtLink \<Rightarrow> sec | InLink es \<Rightarrow> sec | AtRelink \<Rightarrow> sec
      | InFrames now \<Rightarrow> active (h_media (e_host s)) \<and> h_rtp (e_host s) \<noteq> None
      | _ \<Rightarrow> True)"

definition loop_ok :: "trace \<Rightarrow> bool \<Rightarrow> pc \<Rightarrow> engine \<Rightarrow> bool" where
  "loop_ok past sec place s \<longleftrightarrow> engine_ok past sec s \<and> place_ok sec place s \<and> events_ok s (events_at place) \<and> events_ok s (e_inbox s) \<and>
     (\<not> sec \<longrightarrow> e_inbox s = [])"

lemma events_ok_simps [simp]:
  "events_ok s []" "events_ok s (e # es) \<longleftrightarrow> (le_generation e \<le> e_generation s \<and>
     (le_generation e = e_generation s \<longrightarrow> e_link s \<noteq> Down)) \<and> events_ok s es"
  "events_ok s (es @ fs) \<longleftrightarrow> events_ok s es \<and> events_ok s fs"
  by (auto simp: events_ok_def)

lemma events_ok_frame: "e_generation s' = e_generation s \<Longrightarrow> e_link s' = e_link s \<Longrightarrow> events_ok s' = events_ok s"
  by (simp add: events_ok_def fun_eq_iff)

lemma events_ok_renewed: "events_ok s es \<Longrightarrow> e_generation s' = e_generation s + 1 \<Longrightarrow> events_ok s' es"
  by (auto simp: events_ok_def)

section \<open>What a step leaves alone\<close>

text \<open>Most steps take nothing from the queue and the inbox and make no promise true.\<close>

definition advance :: "trace \<Rightarrow> bool \<Rightarrow> engine \<Rightarrow> engine \<Rightarrow> bool" where
  "advance past sec s s' \<longleftrightarrow> engine_ok past sec s' \<and> others s' = others s \<and> e_answers s' = e_answers s \<and>
     e_stopping s' = e_stopping s \<and> e_stop_deadline s' = e_stop_deadline s \<and> (\<forall>es. events_ok s es \<longrightarrow> events_ok s' es)"

lemma advance_trans: "advance past sec s s' \<Longrightarrow> advance past sec s' s'' \<Longrightarrow> advance past sec s s''"
  by (simp add: advance_def)

lemma advance_ok: "advance past sec s s' \<Longrightarrow> engine_ok past sec s'"
  by (simp add: advance_def)

lemma advance_refl: "engine_ok past sec s \<Longrightarrow> advance past sec s s"
  by (simp add: advance_def)

lemma advance_rest: "engine_ok past sec s' \<Longrightarrow> rest s' = rest s \<Longrightarrow> advance past sec s s'"
  using rest_others [of s' s] rest_eqD2 [of s' s] events_ok_frame [of s' s] by (simp add: advance_def)

lemma advance_renewed: "renewed past sec s s' \<Longrightarrow> advance past sec s s'"
  using events_ok_renewed [of s _ s'] by (simp add: advance_def renewed_def)

lemma advance_now: "engine_ok past sec s \<Longrightarrow> advance past sec s (snd (now_of sys s))"
  by (simp add: advance_rest engine_ok_now)

lemma advance_host:
  "engine_ok past sec s \<Longrightarrow> host_ok sec h \<Longrightarrow> h_connection h = h_connection (e_host s) \<Longrightarrow> h_rtp h = h_rtp (e_host s) \<Longrightarrow>
   prefix (h_trace (e_host s)) (h_trace h) \<Longrightarrow> advance past sec s (set_host h s)"
  by (simp add: advance_rest engine_ok_set_host)

lemma advance_deliver:
  "system_ok sys \<Longrightarrow> engine_ok past sec s \<Longrightarrow> deliver_events sys app (s\<lparr>e_ua := ua\<rparr>) = Some s' \<Longrightarrow>
   ua_fine past sec (e_link s \<noteq> Down) ua \<Longrightarrow> advance past sec s s'"
  using deliver_ua [of sys past sec s app ua s'] by (simp add: advance_rest)

lemma advance_drop: "system_ok sys \<Longrightarrow> engine_ok past sec s \<Longrightarrow> drop_link sys app now s = Some s' \<Longrightarrow> advance past sec s s'"
  using drop_link_spec [of sys past sec s app now s'] by (simp add: advance_renewed)

section \<open>The steps\<close>

lemma advance_messages:
  assumes "system_ok sys"
  shows "engine_ok past sec s \<Longrightarrow> take_messages sys app f s = Some s' \<Longrightarrow> advance past sec s s'"
proof (induction "length (Stream_Framer.buffer f)" arbitrary: f s rule: less_induct)
  case less
  obtain r f' where n: "next_message f = (r, f')" by fastforce
  have framed: "advance past sec s (s\<lparr>e_framer := f'\<rparr>)"
    using less.prems(1) by (auto simp: advance_def others_def events_ok_def engine_ok_def)
  show ?case
  proof (cases r)
    case None
    then show ?thesis using less.prems(2) n framed by (subst (asm) take_messages.simps) auto
  next
    case (Some m)
    define t where "t = snd (now_of sys (s\<lparr>e_framer := f'\<rparr>))"
    have t: "advance past sec s t"
      using framed advance_now [OF advance_ok [OF framed]] unfolding t_def by (rule advance_trans)
    obtain u where u: "deliver_events sys app (t\<lparr>e_ua := on_message (engine_host sys) m (fst (now_of sys (s\<lparr>e_framer := f'\<rparr>))) (e_ua t)\<rparr>) = Some u"
        "take_messages sys app f' u = Some s'"
      using less.prems(2) n Some t_def by (subst (asm) take_messages.simps) (auto simp: case_prod_beta split: option.splits)
    have "advance past sec t u"
      using u(1) advance_ok [OF t] by (intro advance_deliver [OF assms]) (auto simp: engine_ok_def intro: ua_fine_ops [OF assms])
    moreover have "advance past sec u s'"
      using next_message_decreases [of f m f'] n Some calculation u(2) by (intro less.hyps) (auto simp: advance_def)
    ultimately show ?thesis using t advance_trans by blast
  qed
qed

lemma advance_link_up:
  assumes "system_ok sys" and "engine_ok past sec s" and "e_link s \<noteq> Down" and "on_link_up sys app now s = Some s'"
  shows "advance past sec s s'"
proof -
  let ?s = "s\<lparr>e_link := Up, e_backoff := kReconnectFirst, e_keepalive_at := now + kKeepAlive\<rparr>"
  have up: "advance past sec s ?s"
    using assms(2,3) by (auto simp: advance_def others_def events_ok_def engine_ok_def)
  have "advance past sec ?s s'"
    using assms(4) advance_ok [OF up]
    by (intro advance_deliver [OF assms(1)]) (auto simp: on_link_up_def engine_ok_def intro: ua_fine_ops [OF assms(1)])
  with up show ?thesis by (rule advance_trans)
qed

lemma advance_link_data:
  assumes "system_ok sys" and "engine_ok past sec s" and "on_link_data sys app now d s = Some s'"
  shows "advance past sec s s'"
proof -
  obtain t where t: "take_messages sys app (Stream_Framer.push (e_framer s) d) s = Some t"
      "(if Stream_Framer.failed (e_framer t) then drop_link sys app now t else Some t) = Some s'"
    using assms(3) by (auto simp: on_link_data_def split: option.splits)
  have a: "advance past sec s t" by (rule advance_messages [OF assms(1,2) t(1)])
  have "advance past sec t s'"
    using t(2) advance_drop [OF assms(1) advance_ok [OF a]] advance_refl [OF advance_ok [OF a]] by (auto split: if_splits)
  with a show ?thesis by (rule advance_trans)
qed

lemma advance_link_event:
  assumes "system_ok sys" and "engine_ok past sec s" and "events_ok s [e]" and "on_link_event sys app e s = Some s'"
  shows "advance past sec s s'"
proof (cases "le_generation e = e_generation s")
  case True
  let ?t = "snd (now_of sys s)"
  have t: "advance past sec s ?t" by (rule advance_now [OF assms(2)])
  have "e_link ?t \<noteq> Down" using True assms(3) rest_others [OF rest_now [of sys s]] by simp
  then have "advance past sec ?t s'"
    using assms(1,4) advance_ok [OF t] True
    by (auto simp: on_link_event_def case_prod_beta split: link_event_kind.splits
        intro: advance_link_up advance_link_data advance_drop)
  with t show ?thesis by (rule advance_trans)
qed (use assms advance_refl in \<open>simp add: on_link_event_def\<close>)

lemma host_ok_tls_send:
  assumes "host_ok sec h" and "h_connection h"
  shows "host_ok sec (tls_send m h)"
  using tls_send_call [OF host_ok_held(5) [OF assms]] host_ok_same [OF assms(1)] assms
  by (simp add: tls_send_def host_ok_def)

lemma advance_relink:
  assumes "system_ok sys" and "engine_ok past sec s" and "sec" and "relink_step sys app s = Some s'"
  shows "advance past sec s s'"
proof -
  obtain now t where n: "now_of sys s = (now, t)" by fastforce
  have t: "advance past sec s t" using advance_now [OF assms(2), of sys] n by simp
  obtain u where u: "(if e_relink t then (let t = t\<lparr>e_relink := False\<rparr> in if e_link t = Up then drop_link sys app now t else Some t)
      else Some t) = Some u"
    and s': "s' = (let v = (if e_link u = Down \<and> now \<ge> e_reconnect_at u then connect_link sys now u else u)
       in if e_link v = Up \<and> now \<ge> e_keepalive_at v
          then set_host (tls_send (CRLF @ CRLF) (e_host v)) (v\<lparr>e_keepalive_at := now + kKeepAlive\<rparr>) else v)"
    using assms(4) by (auto simp: relink_step_def n Let_def split: option.splits)
  have r: "advance past sec t (t\<lparr>e_relink := False\<rparr>)"
    using engine_ok_rest [OF advance_ok [OF t]] by (intro advance_rest) simp_all
  have u: "advance past sec t u"
    using u advance_drop [OF assms(1) advance_ok [OF r]] advance_refl [OF advance_ok [OF t]] r
    by (auto simp: Let_def split: if_splits intro: advance_trans)
  define v where "v = (if e_link u = Down \<and> now \<ge> e_reconnect_at u then connect_link sys now u else u)"
  have v: "advance past sec u v"
    using advance_renewed [OF connect_link_spec [OF advance_ok [OF u] assms(3)]] advance_refl [OF advance_ok [OF u]]
    by (simp add: v_def)
  have "advance past sec v s'"
  proof (cases "e_link v = Up \<and> now \<ge> e_keepalive_at v")
    case True
    have k: "advance past sec v (v\<lparr>e_keepalive_at := now + kKeepAlive\<rparr>)"
      using advance_ok [OF v] by (auto simp: advance_def others_def events_ok_def engine_ok_def)
    have c: "h_connection (e_host v)" using engine_ok_host(2) [OF advance_ok [OF v]] True by simp
    have "host_ok sec (tls_send (CRLF @ CRLF) (e_host v))"
      by (rule host_ok_tls_send [OF engine_ok_host(1) [OF advance_ok [OF v]] c])
    then have "advance past sec (v\<lparr>e_keepalive_at := now + kKeepAlive\<rparr>)
        (set_host (tls_send (CRLF @ CRLF) (e_host v)) (v\<lparr>e_keepalive_at := now + kKeepAlive\<rparr>))"
      using c by (intro advance_host [OF advance_ok [OF k]]) (simp_all add: tls_send_def)
    with k show ?thesis using True s' by (auto simp: v_def [symmetric] Let_def intro: advance_trans)
  qed (use s' advance_refl [OF advance_ok [OF v]] in \<open>auto simp: v_def [symmetric] Let_def\<close>)
  then show ?thesis using t u v advance_trans by blast
qed


lemma advance_poll: "engine_ok past sec s \<Longrightarrow> advance past sec s (poll_step sys s)"
proof -
  assume ok: "engine_ok past sec s"
  obtain now t where n: "now_of sys s = (now, t)" by fastforce
  have t: "advance past sec s t" using advance_now [OF ok, of sys] n by simp
  define fds where "fds = map us_fd (case h_sip (e_host t) of None \<Rightarrow> [] | Some a \<Rightarrow> [a]) @
    map us_fd (case h_rtp (e_host t) of None \<Rightarrow> [] | Some a \<Rightarrow> [a])"
  note h = engine_ok_host(1) [OF advance_ok [OF t]]
  have "set fds \<subseteq> held descriptors (h_trace (e_host t))"
    using host_ok_held(1,2) [OF h] by (auto simp: fds_def split: option.splits)
  then have "keeps (h_trace (e_host t)) (h_trace (e_host t) @ [Poll fds d])" for d
    by (auto simp: keeps_def trace_good_def same_held_def resource_calls secure_call_def created_def)
  then have "advance past sec t (set_host ((e_host t)\<lparr>h_trace := h_trace (e_host t) @ [Poll fds (poll_timeout now t)]\<rparr>) t)"
    using host_ok_keeps [OF h] by (intro advance_host [OF advance_ok [OF t]]) simp_all
  with t show ?thesis by (auto simp: poll_step_def n Let_def fds_def intro: advance_trans)
qed

lemma advance_received:
  assumes "engine_ok past sec s" and "h_sip (e_host s) = Some sock \<or> h_rtp (e_host s) = Some sock"
    and "receive_from sys sock n w (h_trace (e_host s)) = (r, tr)"
  shows "advance past sec s (set_host ((e_host s)\<lparr>h_trace := tr\<rparr>) s)"
proof -
  note h = engine_ok_host(1) [OF assms(1)]
  have "us_fd sock \<in> held descriptors (h_trace (e_host s))" using host_ok_held(1,2) [OF h] assms(2) by blast
  then have "keeps (h_trace (e_host s)) tr" using receive_keeps [of sock "h_trace (e_host s)" sys n w] assms(3) by simp
  moreover have "prefix (h_trace (e_host s)) tr" using grows_socket(7) [of "h_trace (e_host s)" sys sock n w] assms(3) by simp
  ultimately show ?thesis using host_ok_keeps [OF h] by (intro advance_host [OF assms(1)]) simp_all
qed

lemma advance_heard:
  assumes "system_ok sys" and "engine_ok past sec s" and "now_of sys s = (now, t)"
    and "deliver_events sys app (t\<lparr>e_ua := on_message (engine_host sys) m now (e_ua t)\<rparr>) = Some s' \<or>
      deliver_events sys app (t\<lparr>e_ua := on_timer (engine_host sys) now (e_ua t)\<rparr>) = Some s'"
  shows "advance past sec s s'"
proof -
  have t: "advance past sec s t" using advance_now [OF assms(2), of sys] assms(3) by simp
  have "ua_fine past sec (e_link t \<noteq> Down) (e_ua t)" using advance_ok [OF t] by (simp add: engine_ok_def)
  note ops = ua_fine_ops(8,9) [OF assms(1) this]
  have "advance past sec t s'"
    using assms(4) advance_deliver [OF assms(1) advance_ok [OF t]] ops by blast
  with t show ?thesis by (rule advance_trans)
qed

lemma advance_sip:
  assumes "system_ok sys" and "engine_ok past sec s" and "sip_step sys app s = Some (place, s')"
  shows "advance past sec s s' \<and> (place = AtSip \<or> place = AtRtp)"
proof (cases "h_sip (e_host s)")
  case None
  then show ?thesis using assms(2,3) advance_refl by (simp add: sip_step_def)
next
  case (Some sock)
  obtain r tr where g: "receive_from sys sock 65536 False (h_trace (e_host s)) = (r, tr)" by fastforce
  let ?t = "set_host ((e_host s)\<lparr>h_trace := tr\<rparr>) s"
  have t: "advance past sec s ?t" using advance_received [OF assms(2) _ g] Some by simp
  obtain now u where n: "now_of sys ?t = (now, u)" by fastforce
  have "place = AtRtp \<and> s' = ?t \<or> place = AtSip \<and>
      (\<exists>m. deliver_events sys app (u\<lparr>e_ua := on_message (engine_host sys) m now (e_ua u)\<rparr>) = Some s')"
    using assms(3) by (auto simp: sip_step_def Some g n Let_def split: option.splits prod.splits if_splits)
  then show ?thesis using t advance_heard [OF assms(1) advance_ok [OF t] n] by (blast intro: advance_trans)
qed

lemma advance_rtp:
  assumes "engine_ok past sec s"
  shows "advance past sec s (snd (rtp_step sys s)) \<and> (fst (rtp_step sys s) = AtRtp \<or> fst (rtp_step sys s) = AtTimer)"
proof (cases "h_rtp (e_host s) \<noteq> None \<and> active (h_media (e_host s))")
  case False
  then show ?thesis using advance_refl [OF assms] by (auto simp: rtp_step_def split: option.split)
next
  case True
  then obtain sock where sock: "h_rtp (e_host s) = Some sock" by blast
  obtain r tr where g: "receive_from sys sock 65536 False (h_trace (e_host s)) = (r, tr)" by fastforce
  let ?h = "(e_host s)\<lparr>h_trace := tr\<rparr>" and ?t = "set_host ((e_host s)\<lparr>h_trace := tr\<rparr>) s"
  have t: "advance past sec s ?t" using advance_received [OF assms _ g] sock by simp
  have "active (h_media ?h)" using True by simp
  moreover have "host_ok sec ?h" using engine_ok_host(1) [OF advance_ok [OF t]] by simp
  ultimately have "advance past sec ?t (set_host (accept_datagram sys d ?h) ?t)" for d
    using host_ok_accept [of sec ?h sys d] grows_accept [of ?h sys d] by (intro advance_host [OF advance_ok [OF t]]) simp_all
  then have "advance past sec s (set_host (accept_datagram sys d ?h) s)" for d
    using t advance_trans by (fastforce simp: set_host_def)
  then show ?thesis using t True by (auto simp: rtp_step_def sock g Let_def split: option.split prod.split)
qed

lemma advance_timer:
  assumes "system_ok sys" and "engine_ok past sec s" and "timer_step sys app s = Some (place, s')"
  shows "advance past sec s s' \<and> (\<exists>now. place = AtFrames now)"
  using assms(3) advance_heard [OF assms(1,2)] by (auto simp: timer_step_def split: prod.splits)


lemma advance_frames:
  assumes "engine_ok past sec s"
  shows "advance past sec s (snd (begin_frames now s)) \<and> place_ok sec (fst (begin_frames now s)) (snd (begin_frames now s)) \<and>
    (fst (begin_frames now s) = InFrames now \<or> fst (begin_frames now s) = AtCheck)"
proof -
  have "host_ok sec ((e_host s)\<lparr>h_next_frame := now\<rparr>)"
    using engine_ok_host(1) [OF assms] by (simp add: host_ok_defs)
  then have "advance past sec s (set_host ((e_host s)\<lparr>h_next_frame := now\<rparr>) s)"
    by (intro advance_host [OF assms]) simp_all
  then show ?thesis using advance_refl [OF assms] by (auto simp: begin_frames_def Let_def place_ok_def)
qed

lemma advance_frame:
  assumes "engine_ok past sec s" and "place_ok sec (InFrames now) s"
  shows "advance past sec s (snd (frames_step sys now s)) \<and>
    (fst (frames_step sys now s) = AtCheck \<or>
     fst (frames_step sys now s) = InFrames now \<and> place_ok sec (InFrames now) (snd (frames_step sys now s)))"
proof -
  note h = engine_ok_host(1) [OF assms(1)]
  obtain rtp where rtp: "h_rtp (e_host s) = Some rtp" "active (h_media (e_host s))"
    using assms(2) by (auto simp: place_ok_def)
  note f = host_ok_do_frame [OF h rtp, of sys]
  have frame: "advance past sec s (set_host (do_frame sys rtp (e_host s)) s)"
    using f rtp by (intro advance_host [OF assms(1)]) simp_all
  have publish: "advance past sec s (set_host (publish_stats (e_host s)) s)"
    using host_ok_publish [OF h] by (intro advance_host [OF assms(1)]) (simp_all add: publish_stats_def fail_with_def split: option.split)
  show ?thesis using frame publish f rtp by (simp add: frames_step_def Let_def place_ok_def)
qed

lemma advance_check:
  "engine_ok past sec s \<Longrightarrow> advance past sec s (snd (check_step sys s)) \<and>
   (fst (check_step sys s) = AtTop \<or> fst (check_step sys s) = AtClose \<and> e_stopping (snd (check_step sys s)))"
  using advance_refl [of past sec s] advance_now [of past sec s sys] rest_eqD2 [OF rest_now [of sys s]]
  by (simp add: check_step_def case_prod_beta)

section \<open>The loop\<close>

lemma network_simps [simp]:
  "network_step sys app AtTop s = Some (AtWake, poll_step sys s)"
  "network_step sys app AtWake s = Some (if e_wake s > 0 then (AtWake, s\<lparr>e_wake := e_wake s - min 65536 (e_wake s)\<rparr>) else (AtCommands, s))"
  "network_step sys app AtCommands s = Some (InCommands (e_queue s), s\<lparr>e_queue := []\<rparr>)"
  "network_step sys app (InCommands []) s = Some (if e_tls s then AtLink else AtSip, s)"
  "network_step sys app (InCommands (j # js)) s = map_option (Pair (InCommands js)) (deliver_events sys app (run_job sys True j s))"
  "network_step sys app AtLink s = Some (InLink (e_inbox s), s\<lparr>e_inbox := []\<rparr>)"
  "network_step sys app (InLink []) s = Some (AtRelink, s)"
  "network_step sys app (InLink (e # es)) s = map_option (Pair (InLink es)) (on_link_event sys app e s)"
  "network_step sys app AtRelink s = map_option (Pair AtSip) (relink_step sys app s)"
  "network_step sys app AtSip s = sip_step sys app s"
  "network_step sys app AtRtp s = Some (rtp_step sys s)"
  "network_step sys app AtTimer s = timer_step sys app s"
  "network_step sys app (AtFrames now) s = Some (begin_frames now s)"
  "network_step sys app (InFrames now) s = Some (frames_step sys now s)"
  "network_step sys app AtCheck s = Some (check_step sys s)"
  "network_step sys app AtClose s = Some (InAbandon (e_queue s), s\<lparr>e_closed := True, e_queue := []\<rparr>)"
  "network_step sys app (InAbandon []) s = Some (AtEnd, s)"
  "network_step sys app (InAbandon (j # js)) s = Some (InAbandon js, run_job sys False j s)"
  "network_step sys app AtEnd s = Some (AtEnd, s)"
  by (simp_all add: network_step_def)

text \<open>A step of the loop that is not about the queue, the inbox or the wake-up pipe.\<close>

fun quiet_place :: "pc \<Rightarrow> bool" where
  "quiet_place AtWake = False"
| "quiet_place AtCommands = False"
| "quiet_place (InCommands (j # js)) = False"
| "quiet_place AtLink = False"
| "quiet_place AtClose = False"
| "quiet_place (InAbandon (j # js)) = False"
| "quiet_place _ = True"

text \<open>The order of the places of the loop; a step goes to the same place or to the next.\<close>

fun rank :: "pc \<Rightarrow> nat" where
  "rank AtTop = 0" | "rank AtWake = 1" | "rank AtCommands = 2" | "rank (InCommands js) = 3" | "rank AtLink = 4"
| "rank (InLink es) = 5" | "rank AtRelink = 6" | "rank AtSip = 7" | "rank AtRtp = 8" | "rank AtTimer = 9"
| "rank (AtFrames t) = 10" | "rank (InFrames t) = 11" | "rank AtCheck = 12" | "rank AtClose = 13" | "rank (InAbandon js) = 14" | "rank AtEnd = 15"

lemma quiet_step:
  assumes "system_ok sys" and "loop_ok past sec place s" and "quiet_place place" and "network_step sys app place s = Some (place', s')"
  shows "advance past sec s s' \<and> place_ok sec place' s' \<and> set (events_at place') \<subseteq> set (events_at place) \<and> jobs_at place' = [] \<and>
    (place' = AtTop \<and> place = AtCheck \<or> place' = AtEnd \<and> (place = InAbandon [] \<or> place = AtEnd) \<or>
     2 < rank place' \<and> rank place' < 13 \<and> 2 < rank place \<and> rank place < 13 \<or>
     place' = AtWake \<and> place = AtTop \<or> place' = AtClose \<and> place = AtCheck \<and> e_stopping s')"
proof -
  have ok: "engine_ok past sec s" "place_ok sec place s" "events_ok s (events_at place)" using assms(2) by (simp_all add: loop_ok_def)
  note step = advance_refl [OF ok(1)] advance_poll [OF ok(1), of sys] engine_ok_host(3) [OF ok(1)]
    advance_rtp [OF ok(1), of sys] advance_check [OF ok(1), of sys]
  show ?thesis
  proof (cases place)
    case (InCommands js)
    then show ?thesis using assms(3,4) step by (cases js) (auto simp: place_ok_def events_at_def jobs_at_def)
  next
    case (InLink es)
    then show ?thesis
      using assms(4) step ok advance_link_event [OF assms(1) ok(1)]
      by (cases es) (auto simp: place_ok_def events_at_def jobs_at_def)
  next
    case AtRelink
    then show ?thesis
      using assms(4) ok advance_relink [OF assms(1) ok(1)] by (auto simp: place_ok_def events_at_def jobs_at_def)
  next
    case AtSip
    then show ?thesis
      using assms(4) advance_sip [OF assms(1) ok(1), of app place' s'] by (auto simp: place_ok_def events_at_def jobs_at_def)
  next
    case AtTimer
    then show ?thesis
      using assms(4) advance_timer [OF assms(1) ok(1), of app place' s'] by (auto simp: place_ok_def events_at_def jobs_at_def)
  next
    case (AtFrames now)
    then show ?thesis
      using assms(4) advance_frames [OF ok(1), of now] by (auto simp: events_at_def jobs_at_def)
  next
    case (InFrames now)
    then show ?thesis
      using assms(4) advance_frame [OF ok(1), of now sys] ok(2) by (auto simp: events_at_def jobs_at_def place_ok_def [of sec AtCheck])
  next
    case (InAbandon js)
    then show ?thesis using assms(3,4) step by (cases js) (auto simp: place_ok_def events_at_def jobs_at_def)
  qed (use assms(3,4) step in \<open>auto simp: place_ok_def events_at_def jobs_at_def\<close>)
qed


end
