(* ===== verification/Engine_Threads.thy ===== *)
theory Engine_Threads
  imports Engine_Loop
begin

text \<open>
  The engine among its threads: the network thread does one step of its loop at a time, and between
  these steps callers of the C interface queue commands and wait for their promises, the TLS
  connection posts what happened to it, the audio threads push and pop samples, and the destructor asks
  the loop to stop. A caller holds the lock of the queue only while it changes the queue; the byte it
  writes to the wake-up pipe comes later, in a step of its own.
\<close>

section \<open>Threads\<close>

text \<open>
  Where a caller of the interface is: not calling, about to queue a command, waiting for its promise,
  or back with the result. The number of threads that have changed the queue or the inbox and
  have still to write to the pipe is kept apart.
\<close>

datatype caller = Away | Ready command | Awaiting | Back ketphone_result

record world =
  w_pc :: pc
  w_engine :: engine
  w_callers :: "nat \<Rightarrow> caller"
  w_wakes :: nat
  w_destroying :: bool

definition new_world :: "engine \<Rightarrow> world" where
  "new_world s = \<lparr>w_pc = AtTop, w_engine = s, w_callers = (\<lambda>_. Away), w_wakes = 0, w_destroying = False\<rparr>"

definition on_session :: "(media_session \<Rightarrow> media_session) \<Rightarrow> engine \<Rightarrow> engine" where
  "on_session f s = set_host ((e_host s)\<lparr>h_media := f (h_media (e_host s))\<rparr>) s"

text \<open>\<^verbatim>\<open>Engine::capture\<close> and \<^verbatim>\<open>Engine::playout\<close>.\<close>

definition capture_samples :: "int list \<Rightarrow> engine \<Rightarrow> nat \<times> engine" where
  "capture_samples samples s =
     (fst (Spsc_Ring.push (capture (h_media (e_host s))) samples),
      on_session (\<lambda>m. m\<lparr>capture := snd (Spsc_Ring.push (capture m) samples)\<rparr>) s)"

definition playout_samples :: "nat \<Rightarrow> engine \<Rightarrow> nat \<times> int list \<times> engine" where
  "playout_samples n s =
     (let got = fst (Spsc_Ring.pop (playout (h_media (e_host s))) n)
      in (length got, got @ replicate (n - length got) 0,
          on_session (\<lambda>m. m\<lparr>playout := snd (Spsc_Ring.pop (playout m) n)\<rparr>) s))"

inductive engine_step :: "system \<Rightarrow> application \<Rightarrow> world \<Rightarrow> world \<Rightarrow> bool" for sys app where
  network: "network_step sys app (w_pc w) (w_engine w) = Some (place, s) \<Longrightarrow>
    engine_step sys app w (w\<lparr>w_pc := place, w_engine := s\<rparr>)"
| begin_call: "w_callers w t = Away \<Longrightarrow> prepare a (w_engine w) = (c, i, s) \<Longrightarrow>
    engine_step sys app w (w\<lparr>w_engine := s, w_callers := (w_callers w)(t := Ready c)\<rparr>)"
| enqueue: "w_callers w t = Ready c \<Longrightarrow> \<not> e_closed (w_engine w) \<Longrightarrow>
    engine_step sys app w (w\<lparr>w_engine := (w_engine w)\<lparr>e_queue := e_queue (w_engine w) @ [Job t c]\<rparr>,
      w_callers := (w_callers w)(t := Awaiting), w_wakes := w_wakes w + 1\<rparr>)"
| refused: "w_callers w t = Ready c \<Longrightarrow> e_closed (w_engine w) \<Longrightarrow>
    engine_step sys app w (w\<lparr>w_callers := (w_callers w)(t := Back KETPHONE_ERROR_STATE)\<rparr>)"
| waken: "0 < w_wakes w \<Longrightarrow>
    engine_step sys app w (w\<lparr>w_engine := wake (w_engine w), w_wakes := w_wakes w - 1\<rparr>)"
| fulfilled: "w_callers w t = Awaiting \<Longrightarrow> e_answers (w_engine w) t = Some r \<Longrightarrow>
    engine_step sys app w (w\<lparr>w_engine := (w_engine w)\<lparr>e_answers := (e_answers (w_engine w))(t := None)\<rparr>,
      w_callers := (w_callers w)(t := Back r)\<rparr>)"
| leave: "w_callers w t = Back r \<Longrightarrow> engine_step sys app w (w\<lparr>w_callers := (w_callers w)(t := Away)\<rparr>)"
| post: "h_connection (e_host (w_engine w)) \<Longrightarrow> e_listener (w_engine w) = Some (le_generation e) \<Longrightarrow>
    engine_step sys app w (w\<lparr>w_engine := (w_engine w)\<lparr>e_inbox := e_inbox (w_engine w) @ [e]\<rparr>, w_wakes := w_wakes w + 1\<rparr>)"
| captured: "engine_step sys app w (w\<lparr>w_engine := snd (capture_samples samples (w_engine w))\<rparr>)"
| played: "engine_step sys app w (w\<lparr>w_engine := snd (snd (playout_samples n (w_engine w)))\<rparr>)"
| order_stop: "\<not> w_destroying w \<Longrightarrow>
    engine_step sys app w (w\<lparr>w_engine := (if e_closed (w_engine w) then w_engine w
        else (w_engine w)\<lparr>e_queue := e_queue (w_engine w) @ [StopJob]\<rparr>),
      w_wakes := w_wakes w + 1, w_destroying := True\<rparr>)"

inductive reachable_world :: "system \<Rightarrow> application \<Rightarrow> engine \<Rightarrow> world \<Rightarrow> bool" for sys app s where
  start: "reachable_world sys app s (new_world s)"
| step: "reachable_world sys app s w \<Longrightarrow> engine_step sys app w w' \<Longrightarrow> reachable_world sys app s w'"

section \<open>The invariant of the world\<close>

text \<open>A caller waits exactly if its command is queued or being carried out, or its promise is kept but not yet seen.\<close>

definition of_caller :: "nat \<Rightarrow> job \<Rightarrow> bool" where
  "of_caller t j = (case j of Job t' c \<Rightarrow> t' = t | StopJob \<Rightarrow> False)"

definition callers_ok :: "(nat \<Rightarrow> caller) \<Rightarrow> job list \<Rightarrow> (nat \<rightharpoonup> ketphone_result) \<Rightarrow> bool" where
  "callers_ok callers js answers \<longleftrightarrow>
     (\<forall>t. length (filter (of_caller t) js) + (if answers t = None then 0 else 1) = (if callers t = Awaiting then 1 else 0))"

definition closed_ok :: "pc \<Rightarrow> engine \<Rightarrow> bool" where
  "closed_ok place s \<longleftrightarrow> e_closed s = (13 < rank place) \<and> (e_closed s \<longrightarrow> e_queue s = [])"

text \<open>Work that the loop will not come to before it sleeps has a byte in the pipe, or one on its way.\<close>

definition woken :: "pc \<Rightarrow> nat \<Rightarrow> engine \<Rightarrow> bool" where
  "woken place n s \<longleftrightarrow>
     (e_queue s \<noteq> [] \<and> rank place \<notin> {1, 2} \<longrightarrow> 0 < e_wake s + n) \<and>
     (e_inbox s \<noteq> [] \<and> rank place \<notin> {1, 2, 3, 4} \<longrightarrow> 0 < e_wake s + n)"

definition stop_ok :: "pc \<Rightarrow> bool \<Rightarrow> engine \<Rightarrow> bool" where
  "stop_ok place destroying s \<longleftrightarrow>
     destroying = (StopJob \<in> set (jobs_at place @ e_queue s) \<or> e_stopping s) \<and> (12 < rank place \<longrightarrow> e_stopping s)"

definition world_ok :: "trace \<Rightarrow> bool \<Rightarrow> world \<Rightarrow> bool" where
  "world_ok past sec w \<longleftrightarrow> loop_ok past sec (w_pc w) (w_engine w) \<and>
     callers_ok (w_callers w) (jobs_at (w_pc w) @ e_queue (w_engine w)) (e_answers (w_engine w)) \<and>
     closed_ok (w_pc w) (w_engine w) \<and> woken (w_pc w) (w_wakes w) (w_engine w) \<and> stop_ok (w_pc w) (w_destroying w) (w_engine w)"

lemmas world_defs = world_ok_def callers_ok_def closed_ok_def woken_def stop_ok_def

lemma of_caller_simps [simp]: "of_caller t (Job t' c) = (t' = t)" "\<not> of_caller t StopJob"
  by (simp_all add: of_caller_def)

section \<open>Steps of the network thread\<close>

lemma callers_answered:
  assumes "callers_ok callers (j # js) answers"
    and "case j of Job t c \<Rightarrow> \<exists>r. answers' = answers(t \<mapsto> r) | StopJob \<Rightarrow> answers' = answers"
  shows "callers_ok callers js answers'"
proof (cases j)
  case (Job t c)
  then obtain r where r: "answers' = answers(t \<mapsto> r)" using assms(2) by auto
  have "length (filter (of_caller u) js) + (if answers' u = None then 0 else 1) = (if callers u = Awaiting then 1 else 0)" for u
    using assms(1) Job r unfolding callers_ok_def by (cases "u = t") (auto split: if_splits dest!: spec [of _ u])
  then show ?thesis by (simp add: callers_ok_def)
qed (use assms in \<open>simp add: callers_ok_def\<close>)

lemma network_quiet:
  assumes "system_ok sys" and "world_ok past sec w" and "quiet_place (w_pc w)" and "network_step sys app (w_pc w) (w_engine w) = Some (place, s)"
  shows "world_ok past sec (w\<lparr>w_pc := place, w_engine := s\<rparr>)"
proof -
  note q = quiet_step [OF assms(1) _ assms(3,4)]
  have l: "loop_ok past sec (w_pc w) (w_engine w)" using assms(2) by (simp add: world_ok_def)
  have a: "engine_ok past sec s" "others s = others (w_engine w)" "e_answers s = e_answers (w_engine w)"
      "e_stopping s = e_stopping (w_engine w)" "\<And>es. events_ok (w_engine w) es \<Longrightarrow> events_ok s es"
      "place_ok sec place s" "set (events_at place) \<subseteq> set (events_at (w_pc w))" "jobs_at place = []"
    using q [OF l] by (simp_all add: advance_def)
  have j: "jobs_at (w_pc w) = []" using assms(3) by (cases "w_pc w" rule: quiet_place.cases) (simp_all add: jobs_at_def)
  have "events_ok s (events_at place)"
    using a(5) [of "events_at (w_pc w)"] a(7) l unfolding loop_ok_def events_ok_def by blast
  then have loop: "loop_ok past sec place s" using a l by (simp add: loop_ok_def others_def)
  have callers: "callers_ok (w_callers w) (jobs_at place @ e_queue s) (e_answers s)"
    using assms(2) a(2,3,8) j by (simp add: world_ok_def others_def)
  have closed: "closed_ok place s"
    using assms(2) a(2) q [OF l] by (elim conjE disjE) (simp_all add: world_ok_def closed_ok_def others_def)
  have "rank (w_pc w) \<notin> {1, 2, 4}" using assms(3) by (cases "w_pc w" rule: quiet_place.cases) simp_all
  moreover have "rank place = 4 \<or> e_inbox s = []" if "rank (w_pc w) = 3"
  proof -
    have "w_pc w = InCommands []" using assms(3) that by (cases "w_pc w" rule: quiet_place.cases) simp_all
    then have "place = (if e_tls (w_engine w) then AtLink else AtSip)" using assms(4) by auto
    moreover have "e_tls (w_engine w) = sec" using l engine_ok_host(3) by (auto simp: loop_ok_def)
    ultimately show ?thesis using l a(2) by (simp add: loop_ok_def others_def)
  qed
  ultimately have woken: "woken place (w_wakes w) s"
    using assms(2) a(2) by (auto simp: world_ok_def woken_def others_def)
  have "stop_ok place (w_destroying w) s"
    using assms(2) a(2,4,8) j q [OF l] by (elim conjE disjE) (simp_all add: world_ok_def stop_ok_def others_def)
  with loop callers closed woken show ?thesis by (simp add: world_ok_def)
qed

lemma network_job:
  assumes "system_ok sys" and "engine_ok past sec s" and "deliver_events sys app (run_job sys b j s) = Some s' \<or> run_job sys b j s = s'"
  shows "engine_ok past sec s' \<and> frame s' = frame s \<and>
    (case j of
       Job t c \<Rightarrow> (\<exists>r. e_answers s' = (e_answers s)(t \<mapsto> r)) \<and> e_stopping s' = e_stopping s \<and> e_stop_deadline s' = e_stop_deadline s
     | StopJob \<Rightarrow> e_answers s' = e_answers s \<and> e_stopping s')"
proof -
  note job = engine_ok_job [OF assms(1,2), of b j]
  have "engine_ok past sec s' \<and> rest s' = rest (run_job sys b j s)"
    using assms(3) job engine_ok_deliver_events [OF assms(1)] rest_deliver_events by blast
  then show ?thesis using job rest_eqD2 [of s' "run_job sys b j s"] rest_frame [of s' "run_job sys b j s"] by (auto split: job.splits)
qed

lemma network_jobs:
  assumes "system_ok sys" and "world_ok past sec w"
    and "w_pc w = InCommands (j # js) \<and> place = InCommands js \<and> deliver_events sys app (run_job sys True j (w_engine w)) = Some s \<or>
      w_pc w = InAbandon (j # js) \<and> place = InAbandon js \<and> run_job sys False j (w_engine w) = s"
  shows "world_ok past sec (w\<lparr>w_pc := place, w_engine := s\<rparr>)"
proof -
  have ok: "engine_ok past sec (w_engine w)" using assms(2) by (simp add: world_ok_def loop_ok_def)
  have job: "engine_ok past sec s \<and> frame s = frame (w_engine w) \<and>
    (case j of
       Job t c \<Rightarrow> (\<exists>r. e_answers s = (e_answers (w_engine w))(t \<mapsto> r)) \<and> e_stopping s = e_stopping (w_engine w) \<and>
         e_stop_deadline s = e_stop_deadline (w_engine w)
     | StopJob \<Rightarrow> e_answers s = e_answers (w_engine w) \<and> e_stopping s)"
    using assms(3) network_job [OF assms(1) ok] by blast
  note f = frame_eqD [OF conjunct1 [OF conjunct2 [OF job]]]
  have "loop_ok past sec place s"
    using assms(2,3) job f events_ok_frame [of s "w_engine w"] by (auto simp: world_ok_def loop_ok_def place_ok_def events_at_def)
  moreover have "callers_ok (w_callers w) (j # js @ e_queue s) (e_answers (w_engine w))"
    using assms(2,3) f by (auto simp: world_ok_def jobs_at_def)
  then have "callers_ok (w_callers w) (jobs_at place @ e_queue s) (e_answers s)"
    using assms(3) job callers_answered [of "w_callers w" j "js @ e_queue s" "e_answers (w_engine w)" "e_answers s"]
    by (auto simp: jobs_at_def split: job.splits)
  moreover have "closed_ok place s" "woken place (w_wakes w) s"
    using assms(2,3) f(10-13) by (simp_all add: world_ok_def closed_ok_def woken_def) (elim disjE conjE; simp)+
  moreover have "stop_ok place (w_destroying w) s"
    using assms(2,3) f job by (auto simp: world_ok_def stop_ok_def jobs_at_def split: job.splits)
  ultimately show ?thesis by (simp add: world_ok_def)
qed

lemma loop_ok_frame:
  "loop_ok past sec place s \<Longrightarrow> e_ua s' = e_ua s \<Longrightarrow> e_link s' = e_link s \<Longrightarrow> e_listener s' = e_listener s \<Longrightarrow>
   e_generation s' = e_generation s \<Longrightarrow> e_backoff s' = e_backoff s \<Longrightarrow> e_inbox s' = e_inbox s \<Longrightarrow>
   place_ok sec place' s' \<Longrightarrow> events_at place' = [] \<Longrightarrow> loop_ok past sec place' s'"
  using events_ok_frame [of s' s] by (simp add: loop_ok_def engine_ok_def)

lemma network_ok:
  assumes "system_ok sys" and "world_ok past sec w" and "network_step sys app (w_pc w) (w_engine w) = Some (place, s)"
  shows "world_ok past sec (w\<lparr>w_pc := place, w_engine := s\<rparr>)"
proof (cases "quiet_place (w_pc w)")
  case True
  then show ?thesis by (rule network_quiet [OF assms(1,2) _ assms(3)])
next
  case False
  have l: "loop_ok past sec (w_pc w) (w_engine w)" using assms(2) by (simp add: world_ok_def)
  note w = assms(2) [unfolded world_ok_def closed_ok_def woken_def stop_ok_def]
  show ?thesis
  proof (cases "w_pc w")
    case AtWake
    then have e: "place = AtWake \<and> s = (w_engine w)\<lparr>e_wake := e_wake (w_engine w) - min 65536 (e_wake (w_engine w))\<rparr> \<or>
        place = AtCommands \<and> s = w_engine w"
      using assms(3) by (auto split: if_splits)
    then have "loop_ok past sec place s" by (elim disjE) (auto intro!: loop_ok_frame [OF l] simp: place_ok_def events_at_def)
    with e w AtWake show ?thesis by (elim disjE) (simp_all add: world_ok_def closed_ok_def woken_def stop_ok_def jobs_at_def)
  next
    case AtCommands
    then have e: "place = InCommands (e_queue (w_engine w))" "s = (w_engine w)\<lparr>e_queue := []\<rparr>" using assms(3) by auto
    then have "loop_ok past sec place s" by (auto intro!: loop_ok_frame [OF l] simp: place_ok_def events_at_def)
    with e w AtCommands show ?thesis by (simp add: world_ok_def closed_ok_def woken_def stop_ok_def jobs_at_def)
  next
    case (InCommands js)
    then show ?thesis using False assms(3) network_jobs [OF assms(1,2)] by (cases js) auto
  next
    case AtLink
    then have e: "place = InLink (e_inbox (w_engine w))" "s = (w_engine w)\<lparr>e_inbox := []\<rparr>" using assms(3) by auto
    have "loop_ok past sec place s"
      using l AtLink by (auto simp: e loop_ok_def engine_ok_def place_ok_def events_at_def events_ok_def)
    with e w AtLink show ?thesis by (simp add: world_ok_def closed_ok_def woken_def stop_ok_def jobs_at_def)
  next
    case AtClose
    then have e: "place = InAbandon (e_queue (w_engine w))" "s = (w_engine w)\<lparr>e_closed := True, e_queue := []\<rparr>" using assms(3) by auto
    then have "loop_ok past sec place s" by (auto intro!: loop_ok_frame [OF l] simp: place_ok_def events_at_def)
    with e w AtClose show ?thesis by (simp add: world_ok_def closed_ok_def woken_def stop_ok_def jobs_at_def)
  next
    case (InAbandon js)
    then show ?thesis using False assms(3) network_jobs [OF assms(1,2)] by (cases js) auto
  qed (use False in simp_all)
qed


section \<open>Steps of the other threads\<close>

lemma world_same:
  assumes "world_ok past sec w" and "engine_ok past sec s" and "rest s = rest (w_engine w)" and "place_ok sec (w_pc w) s"
    and "\<And>t. (callers t = Awaiting) = (w_callers w t = Awaiting)"
  shows "world_ok past sec (w\<lparr>w_engine := s, w_callers := callers\<rparr>)"
  using assms rest_others [OF assms(3)] rest_eqD2 [OF assms(3)] events_ok_frame [of s "w_engine w"]
  by (simp add: world_defs loop_ok_def others_def)

lemma session_step:
  assumes "world_ok past sec w" and "session_ok (f (h_media (e_host (w_engine w))))"
    and "active (f (h_media (e_host (w_engine w)))) = active (h_media (e_host (w_engine w)))"
  shows "world_ok past sec (w\<lparr>w_engine := on_session f (w_engine w)\<rparr>)"
proof -
  let ?s = "w_engine w"
  have ok: "engine_ok past sec ?s" "place_ok sec (w_pc w) ?s" using assms(1) by (simp_all add: world_ok_def loop_ok_def)
  have "engine_ok past sec (on_session f ?s)"
    unfolding on_session_def using host_ok_media [OF engine_ok_host(1) [OF ok(1)] assms(2,3)]
    by (intro engine_ok_set_host [OF ok(1)]) simp_all
  moreover have "place_ok sec (w_pc w) (on_session f ?s)"
    using ok(2) assms(3) by (simp add: place_ok_def on_session_def split: pc.splits)
  ultimately show ?thesis
    using world_same [OF assms(1), of "on_session f ?s" "w_callers w"] by (simp add: on_session_def)
qed

lemma audio_steps:
  assumes "world_ok past sec w"
  shows "world_ok past sec (w\<lparr>w_engine := snd (capture_samples samples (w_engine w))\<rparr>)"
    and "world_ok past sec (w\<lparr>w_engine := snd (snd (playout_samples n (w_engine w)))\<rparr>)"
proof -
  have "session_ok (h_media (e_host (w_engine w)))"
    using host_ok_session [OF engine_ok_host(1) [of past sec]] assms by (simp add: world_ok_def loop_ok_def)
  then show "world_ok past sec (w\<lparr>w_engine := snd (capture_samples samples (w_engine w))\<rparr>)"
      "world_ok past sec (w\<lparr>w_engine := snd (snd (playout_samples n (w_engine w)))\<rparr>)"
    unfolding capture_samples_def playout_samples_def Let_def snd_conv
    by (auto intro!: session_step [OF assms] simp: session_ok_def ring.put ring.get)
qed

lemma queue_step:
  assumes "world_ok past sec w" and "\<not> e_closed (w_engine w)"
    and "callers_ok callers (jobs_at (w_pc w) @ e_queue (w_engine w) @ [j]) (e_answers (w_engine w))"
    and "destroying = (w_destroying w \<or> j = StopJob)"
  shows "world_ok past sec (w\<lparr>w_engine := (w_engine w)\<lparr>e_queue := e_queue (w_engine w) @ [j]\<rparr>, w_callers := callers,
    w_wakes := w_wakes w + 1, w_destroying := destroying\<rparr>)"
proof -
  let ?s = "(w_engine w)\<lparr>e_queue := e_queue (w_engine w) @ [j]\<rparr>"
  have "loop_ok past sec (w_pc w) ?s"
    using assms(1) events_ok_frame [of ?s "w_engine w"]
    by (simp add: world_ok_def loop_ok_def engine_ok_def place_ok_def split: pc.splits)
  then show ?thesis using assms by (auto simp: world_ok_def closed_ok_def woken_def stop_ok_def)
qed

lemma post_step:
  assumes "world_ok past sec w" and "h_connection (e_host (w_engine w))" and "e_listener (w_engine w) = Some (le_generation e)"
  shows "world_ok past sec (w\<lparr>w_engine := (w_engine w)\<lparr>e_inbox := e_inbox (w_engine w) @ [e]\<rparr>, w_wakes := w_wakes w + 1\<rparr>)"
proof -
  let ?s = "(w_engine w)\<lparr>e_inbox := e_inbox (w_engine w) @ [e]\<rparr>"
  have ok: "engine_ok past sec (w_engine w)" using assms(1) by (simp add: world_ok_def loop_ok_def)
  then have "e_link (w_engine w) \<noteq> Down" "sec" "le_generation e = e_generation (w_engine w)"
    using assms(2,3) engine_ok_host(2) [OF ok] by (simp_all add: engine_ok_def)
  then have "loop_ok past sec (w_pc w) ?s"
    using assms(1) ok events_ok_frame [of ?s "w_engine w"]
    by (simp add: world_ok_def loop_ok_def engine_ok_def place_ok_def split: pc.splits)
  then show ?thesis using assms(1) by (simp add: world_ok_def closed_ok_def woken_def stop_ok_def)
qed

lemma place_ok_host: "place_ok sec place s \<Longrightarrow> h_media (e_host s') = h_media (e_host s) \<Longrightarrow> h_rtp (e_host s') = h_rtp (e_host s) \<Longrightarrow>
  place_ok sec place s'"
  by (simp add: place_ok_def split: pc.splits)

lemma place_ok_prepare: "prepare a s = (c, i, s') \<Longrightarrow> place_ok sec place s \<Longrightarrow> place_ok sec place s'"
  by (erule place_ok_host) (auto simp: prepare_def host_allocate_call_id_def split: api.splits)

lemma callers_fulfilled:
  assumes "callers_ok callers js answers" and "callers t = Awaiting" and "answers t = Some r"
  shows "callers_ok (callers(t := Back r)) js (answers(t := None))"
  unfolding callers_ok_def
proof (rule allI)
  fix u
  show "length (filter (of_caller u) js) + (if (answers(t := None)) u = None then 0 else 1) =
      (if (callers(t := Back r)) u = Awaiting then 1 else 0)"
    using spec [OF assms(1) [unfolded callers_ok_def], of u] assms(2,3) by (cases "u = t") simp_all
qed

lemma callers_queued:
  assumes "callers_ok callers js answers" and "callers t = Ready c"
  shows "callers_ok (callers(t := Awaiting)) (js @ [Job t c]) answers"
  unfolding callers_ok_def
proof (rule allI)
  fix u
  show "length (filter (of_caller u) (js @ [Job t c])) + (if answers u = None then 0 else 1) =
      (if (callers(t := Awaiting)) u = Awaiting then 1 else 0)"
    using spec [OF assms(1) [unfolded callers_ok_def], of u] assms(2) by (cases "u = t") (simp_all split: if_splits)
qed

lemma engine_step_ok:
  assumes "system_ok sys" and "world_ok past sec w" and "engine_step sys app w w'"
  shows "world_ok past sec w'"
  using assms(3)
proof cases
  case (network place s)
  then show ?thesis using network_ok [OF assms(1,2)] by simp
next
  case (begin_call t a c i s)
  have "engine_ok past sec s" "place_ok sec (w_pc w) s"
    using assms(2) engine_ok_prepare place_ok_prepare begin_call(3) by (auto simp: world_ok_def loop_ok_def)
  then show ?thesis using begin_call rest_prepare [OF begin_call(3)] by (auto intro!: world_same [OF assms(2)] split: if_splits)
next
  case (enqueue t c)
  have "callers_ok (w_callers w) (jobs_at (w_pc w) @ e_queue (w_engine w)) (e_answers (w_engine w))"
    using assms(2) by (simp add: world_ok_def)
  from callers_queued [OF this enqueue(2)] show ?thesis
    using queue_step [OF assms(2) enqueue(3), of "(w_callers w)(t := Awaiting)" "Job t c" "w_destroying w"] enqueue(1) by simp
next
  case (refused t c)
  then show ?thesis using world_same [OF assms(2), of "w_engine w"] assms(2) by (auto simp: world_ok_def loop_ok_def)
next
  case waken
  have "loop_ok past sec (w_pc w) (wake (w_engine w))"
    using assms(2) events_ok_frame [of "wake (w_engine w)" "w_engine w"]
    by (simp add: world_ok_def loop_ok_def engine_ok_def place_ok_def wake_def split: pc.splits)
  then show ?thesis using waken assms(2) by (auto simp: world_ok_def closed_ok_def woken_def stop_ok_def wake_def)
next
  case (fulfilled t r)
  let ?s = "(w_engine w)\<lparr>e_answers := (e_answers (w_engine w))(t := None)\<rparr>"
  have "loop_ok past sec (w_pc w) ?s"
    using assms(2) events_ok_frame [of ?s "w_engine w"]
    by (simp add: world_ok_def loop_ok_def engine_ok_def place_ok_def split: pc.splits)
  then show ?thesis
    using fulfilled assms(2) callers_fulfilled [of "w_callers w" _ "e_answers (w_engine w)" t r]
    by (simp add: world_ok_def closed_ok_def woken_def stop_ok_def)
next
  case (leave t r)
  then show ?thesis using world_same [OF assms(2), of "w_engine w"] assms(2) by (auto simp: world_ok_def loop_ok_def)
next
  case (post e)
  then show ?thesis using post_step [OF assms(2)] by simp
next
  case (captured samples)
  then show ?thesis using audio_steps [OF assms(2)] by simp
next
  case (played n)
  then show ?thesis using audio_steps [OF assms(2)] by simp
next
  case order_stop
  have "\<not> e_closed (w_engine w)" using assms(2) order_stop(2) by (auto simp: world_ok_def closed_ok_def stop_ok_def)
  moreover have "callers_ok (w_callers w) (jobs_at (w_pc w) @ e_queue (w_engine w) @ [StopJob]) (e_answers (w_engine w))"
    using assms(2) by (simp add: world_ok_def callers_ok_def)
  ultimately show ?thesis using queue_step [OF assms(2), of "w_callers w" StopJob True] order_stop by simp
qed


end
