(* ===== verification/Engine_Shutdown.thy ===== *)
theory Engine_Shutdown
  imports Engine_Threads
begin

text \<open>
  The loop of the network thread comes to its end: every burst of frames ends, every pass of the loop
  ends if the callback returns and the sockets run dry, and after the order to stop the loop ends
  if time passes.
\<close>

section \<open>Runs of the network thread alone\<close>

primrec network_steps :: "system \<Rightarrow> application \<Rightarrow> nat \<Rightarrow> pc \<times> engine \<Rightarrow> (pc \<times> engine) option" where
  "network_steps sys app 0 x = Some x"
| "network_steps sys app (Suc n) x =
     (case network_step sys app (fst x) (snd x) of None \<Rightarrow> None | Some y \<Rightarrow> network_steps sys app n y)"

definition goes :: "system \<Rightarrow> application \<Rightarrow> pc \<times> engine \<Rightarrow> pc \<times> engine \<Rightarrow> bool" where
  "goes sys app x y \<longleftrightarrow> (\<exists>n. network_steps sys app n x = Some y)"

lemma network_steps_add:
  "network_steps sys app m x = Some y \<Longrightarrow> network_steps sys app (m + n) x = network_steps sys app n y"
  by (induction m arbitrary: x) (auto split: option.splits)

lemma goes_refl: "goes sys app x x"
  unfolding goes_def by (rule exI [of _ 0]) simp

lemma goes_trans: "goes sys app x y \<Longrightarrow> goes sys app y z \<Longrightarrow> goes sys app x z"
  unfolding goes_def by (metis network_steps_add)

lemma goes_step: "network_step sys app (fst x) (snd x) = Some y \<Longrightarrow> goes sys app y z \<Longrightarrow> goes sys app x z"
  unfolding goes_def by (metis network_steps.simps(2) option.simps(5))

section \<open>What the loop relies on to make progress\<close>

text \<open>
  The application returns from its callbacks; there is an end to the datagrams that come in; and time
  passes as calls are made. The first is about the application, the others are about the
  surroundings during the shutdown.
\<close>

definition callbacks_return :: "system \<Rightarrow> application \<Rightarrow> bool" where
  "callbacks_return sys app \<longleftrightarrow> (\<forall>s. \<exists>s'. deliver_events sys app s = Some s')"

definition receives :: "trace \<Rightarrow> nat" where
  "receives tr = length (filter (\<lambda>c. case c of Recvfrom fd n r \<Rightarrow> True | _ \<Rightarrow> False) tr)"

definition input_ends :: "system \<Rightarrow> nat \<Rightarrow> bool" where
  "input_ends sys n \<longleftrightarrow> (\<forall>tr fd room. n \<le> receives tr \<longrightarrow>
     (case a_recvfrom sys tr fd room of Inl e \<Rightarrow> True | Inr (bytes, sa, len) \<Rightarrow> bytes = []))"

definition time_passes :: "system \<Rightarrow> bool" where
  "time_passes sys \<longleftrightarrow> (\<forall>t. \<exists>n. \<forall>tr. n \<le> length tr \<longrightarrow> t \<le> a_now sys tr)"

lemma receives_prefix: "prefix tr tr' \<Longrightarrow> receives tr \<le> receives tr'"
  by (auto simp: prefix_def receives_def)

lemma messages_end:
  assumes "callbacks_return sys app"
  shows "\<exists>s'. take_messages sys app f s = Some s'"
proof (induction "length (Stream_Framer.buffer f)" arbitrary: f s rule: less_induct)
  case less
  obtain r f' where n: "next_message f = (r, f')" by fastforce
  obtain now t where w: "now_of sys (s\<lparr>e_framer := f'\<rparr>) = (now, t)" by fastforce
  show ?case
  proof (cases r)
    case (Some m)
    obtain u where "deliver_events sys app (t\<lparr>e_ua := on_message (engine_host sys) m now (e_ua t)\<rparr>) = Some u"
      using assms by (auto simp: callbacks_return_def)
    moreover obtain v where "take_messages sys app f' u = Some v"
      using less [of f' u] next_message_decreases [of f m f'] n Some by auto
    ultimately show ?thesis using n w Some by (subst take_messages.simps) simp
  qed (subst take_messages.simps, simp add: n)
qed

lemma drop_ends: "callbacks_return sys app \<Longrightarrow> \<exists>s'. drop_link sys app now s = Some s'"
  by (simp add: drop_link_def Let_def callbacks_return_def)

lemma link_event_ends:
  assumes "callbacks_return sys app"
  shows "\<exists>s'. on_link_event sys app e s = Some s'"
proof -
  have "\<exists>s'. on_link_data sys app now d s = Some s'" for now d s
  proof -
    obtain t where "take_messages sys app (Stream_Framer.push (e_framer s) d) s = Some t" using messages_end [OF assms] by blast
    then show ?thesis using drop_ends [OF assms] by (simp add: on_link_data_def)
  qed
  moreover have "\<exists>s'. on_link_up sys app now s = Some s'" for now s
    using assms by (simp add: on_link_up_def Let_def callbacks_return_def)
  ultimately show ?thesis
    using drop_ends [OF assms] by (simp add: on_link_event_def split: prod.split link_event_kind.split)
qed

lemma relink_ends: "callbacks_return sys app \<Longrightarrow> \<exists>s'. relink_step sys app s = Some s'"
  using drop_ends [of sys app] by (auto simp: relink_step_def Let_def split: prod.split option.split if_split) (metis option.distinct(1))+

section \<open>Progress\<close>

text \<open>What is left to do at a place before the loop goes on to the next one.\<close>

definition left_over :: "nat \<Rightarrow> pc \<Rightarrow> engine \<Rightarrow> nat" where
  "left_over n place s =
     (case place of
        AtWake \<Rightarrow> e_wake s
      | InCommands js \<Rightarrow> length js
      | InLink es \<Rightarrow> length es
      | AtSip \<Rightarrow> n - receives (h_trace (e_host s))
      | AtRtp \<Rightarrow> n - receives (h_trace (e_host s))
      | InFrames now \<Rightarrow> nat (now - h_next_frame (e_host s) + 1)
      | InAbandon js \<Rightarrow> length js
      | _ \<Rightarrow> 0)"

definition closer :: "nat \<Rightarrow> pc \<times> engine \<Rightarrow> pc \<times> engine \<Rightarrow> bool" where
  "closer n x y \<longleftrightarrow> rank (fst x) < rank (fst y) \<and> (rank (fst x) < 12 \<longrightarrow> rank (fst y) \<le> 12) \<or>
     rank (fst y) = rank (fst x) \<and> left_over n (fst y) (snd y) < left_over n (fst x) (snd x)"

lemma received_nothing:
  assumes "input_ends sys n" and "n \<le> receives tr" and "receive_from sys sock room False tr = (r, tr')"
  shows "r = None \<or> (\<exists>a. r = Some ([], a))"
proof -
  have "case a_recvfrom sys tr (us_fd sock) room of Inl e \<Rightarrow> True | Inr (bytes, sa, len) \<Rightarrow> bytes = []"
    using assms(1,2) by (simp add: input_ends_def)
  then show ?thesis using assms(3) by (auto simp: receive_from_def ask_def split: sum.splits if_splits prod.splits)
qed

lemma received_trace: "receive_from sys sock room w tr = (r, tr') \<Longrightarrow> receives tr' = Suc (receives tr)"
  by (auto simp: receive_from_def ask_def receives_def split: sum.splits if_splits prod.splits option.splits)

lemma sip_closer:
  assumes "system_ok sys" and "callbacks_return sys app" and "input_ends sys n" and "engine_ok past sec s"
  shows "\<exists>y. sip_step sys app s = Some y \<and> closer n (AtSip, s) y"
proof (cases "h_sip (e_host s)")
  case None
  then show ?thesis by (simp add: sip_step_def closer_def)
next
  case (Some sock)
  let ?tr = "h_trace (e_host s)"
  obtain r tr where g: "receive_from sys sock 65536 False ?tr = (r, tr)" by fastforce
  let ?t = "set_host ((e_host s)\<lparr>h_trace := tr\<rparr>) s"
  obtain now u where n: "now_of sys ?t = (now, u)" by fastforce
  obtain v where v: "deliver_events sys app (u\<lparr>e_ua := on_message (engine_host sys) (text_of (fst (the r))) now (e_ua u)\<rparr>) = Some v"
    using assms(2) by (auto simp: callbacks_return_def)
  have ok: "engine_ok past sec ?t" using advance_received [OF assms(4) _ g] Some by (simp add: advance_ok)
  then have "engine_ok tr sec ?t" by (rule engine_ok_past) simp
  then have "engine_ok tr sec v" using advance_heard [OF assms(1) _ n] v advance_ok by blast
  then have "receives tr \<le> receives (h_trace (e_host v))" using engine_ok_host(4) receives_prefix by blast
  then have "receives ?tr < receives (h_trace (e_host v))" using received_trace [OF g] by simp
  moreover have "receives ?tr < n" if "r \<noteq> None" "fst (the r) \<noteq> []"
    using received_nothing [OF assms(3) _ g] that by (cases "n \<le> receives ?tr") auto
  ultimately show ?thesis
    using v by (cases r; cases "fst (the r) = []") (auto simp: sip_step_def Some g n closer_def left_over_def)
qed

lemma rtp_closer:
  assumes "input_ends sys n"
  shows "closer n (AtRtp, s) (rtp_step sys s)"
proof (cases "h_rtp (e_host s) \<noteq> None \<and> active (h_media (e_host s))")
  case False
  then show ?thesis by (auto simp: rtp_step_def closer_def split: option.split)
next
  case True
  then obtain sock where sock: "h_rtp (e_host s) = Some sock" by blast
  let ?tr = "h_trace (e_host s)"
  obtain r tr where g: "receive_from sys sock 65536 False ?tr = (r, tr)" by fastforce
  let ?h = "(e_host s)\<lparr>h_trace := tr\<rparr>"
  have "receives tr \<le> receives (h_trace (accept_datagram sys d ?h))" for d
    using receives_prefix [OF grows_accept [of ?h sys d]] by simp
  then have "n - receives (h_trace (accept_datagram sys d ?h)) < n - receives ?tr" if "receives ?tr < n" for d
    using received_trace [OF g] that diff_less_mono2 by (metis Suc_le_lessD)
  moreover have "receives ?tr < n" if "r \<noteq> None" "fst (the r) \<noteq> []"
    using received_nothing [OF assms _ g] that by (cases "n \<le> receives ?tr") auto
  ultimately show ?thesis
    using True by (cases r; cases "fst (the r) = []")
      (auto simp: rtp_step_def sock g closer_def left_over_def Let_def)
qed

lemma frame_closer:
  assumes "engine_ok past sec s" and "place_ok sec (InFrames now) s"
  shows "closer n (InFrames now, s) (frames_step sys now s)"
proof -
  obtain rtp where rtp: "h_rtp (e_host s) = Some rtp" "active (h_media (e_host s))"
    using assms(2) by (auto simp: place_ok_def)
  show ?thesis
    using host_ok_do_frame [OF engine_ok_host(1) [OF assms(1)] rtp, of sys] rtp
    by (auto simp: frames_step_def closer_def left_over_def Let_def)
qed

lemma network_closer:
  assumes "system_ok sys" and "callbacks_return sys app" and "input_ends sys n" and "loop_ok past sec place s"
    and "rank place \<noteq> 12" and "rank place \<noteq> 15"
  shows "\<exists>y. network_step sys app place s = Some y \<and> closer n (place, s) y"
proof -
  have ok: "engine_ok past sec s" "place_ok sec place s" using assms(4) by (simp_all add: loop_ok_def)
  have events: "\<exists>s'. deliver_events sys app s = Some s'" for s using assms(2) by (simp add: callbacks_return_def)
  show ?thesis
  proof (cases place)
    case (InCommands js)
    then show ?thesis using events by (cases js) (auto simp: closer_def left_over_def)
  next
    case (InLink es)
    then show ?thesis using link_event_ends [OF assms(2)] by (cases es) (auto simp: closer_def left_over_def)
  next
    case AtRelink
    then show ?thesis using relink_ends [OF assms(2), of s] by (auto simp: closer_def)
  next
    case AtSip
    then show ?thesis using sip_closer [OF assms(1-3) ok(1)] by simp
  next
    case AtRtp
    then show ?thesis using rtp_closer [OF assms(3)] by simp
  next
    case AtTimer
    then show ?thesis using events by (auto simp: timer_step_def closer_def split: prod.split)
  next
    case (InFrames now)
    then show ?thesis using frame_closer [OF ok(1), of now n sys] ok(2) by simp
  next
    case (InAbandon js)
    then show ?thesis by (cases js) (auto simp: closer_def left_over_def)
  qed (use assms(5,6) in \<open>auto simp: closer_def left_over_def begin_frames_def Let_def\<close>)
qed


lemma rank_bound: "rank place \<le> 15"
  by (cases place) simp_all

lemma pass_ends:
  assumes "system_ok sys" and "callbacks_return sys app" and "input_ends sys n"
    and step: "\<And>x y. I x \<Longrightarrow> network_step sys app (fst x) (snd x) = Some y \<Longrightarrow> I y"
    and ok: "\<And>x. I x \<Longrightarrow> loop_ok past sec (fst x) (snd x)"
  shows "I x \<Longrightarrow> \<exists>y. goes sys app x y \<and> I y \<and> (rank (fst y) = 12 \<or> rank (fst y) = 15) \<and> rank (fst x) \<le> rank (fst y)"
proof (induction x rule: wf_induct_rule [OF wf_measures [of "[\<lambda>x. 15 - rank (fst x), \<lambda>x. left_over n (fst x) (snd x)]"]])
  case (1 x)
  show ?case
  proof (cases "rank (fst x) = 12 \<or> rank (fst x) = 15")
    case True
    then show ?thesis using "1.prems" goes_refl by blast
  next
    case False
    obtain y where y: "network_step sys app (fst x) (snd x) = Some y" "closer n x y"
      using network_closer [OF assms(1-3) ok [OF "1.prems"]] False by auto
    then have "rank (fst x) \<le> rank (fst y)" by (auto simp: closer_def)
    moreover have "(y, x) \<in> measures [\<lambda>x. 15 - rank (fst x), \<lambda>x. left_over n (fst x) (snd x)]"
      using y(2) rank_bound [of "fst y"] by (auto simp: closer_def intro: diff_less_mono2)
    ultimately show ?thesis using "1.IH" [OF _ step [OF "1.prems" y(1)]] goes_step [OF y(1)] le_trans by blast
  qed
qed

section \<open>Shutdown\<close>

definition seen :: "trace \<Rightarrow> bool \<Rightarrow> world \<Rightarrow> pc \<times> engine \<Rightarrow> bool" where
  "seen past sec w x \<longleftrightarrow> world_ok past sec (w\<lparr>w_pc := fst x, w_engine := snd x\<rparr>)"

lemma seen_step: "system_ok sys \<Longrightarrow> seen past sec w x \<Longrightarrow> network_step sys app (fst x) (snd x) = Some y \<Longrightarrow> seen past sec w y"
  using network_ok [of sys past sec "w\<lparr>w_pc := fst x, w_engine := snd x\<rparr>" app "fst y" "snd y"] by (simp add: seen_def)

lemma seen_loop: "seen past sec w x \<Longrightarrow> loop_ok past sec (fst x) (snd x)"
  by (simp add: seen_def world_ok_def)

lemma seen_past: "seen past sec w x \<Longrightarrow> prefix past' (h_trace (e_host (snd x))) \<Longrightarrow> seen past' sec w x"
  using engine_ok_past by (auto simp: seen_def world_ok_def loop_ok_def)

text \<open>Once the queue is taken, the thread alone puts nothing into it.\<close>

definition taken :: "pc \<times> engine \<Rightarrow> bool" where
  "taken x \<longleftrightarrow> (2 < rank (fst x) \<longrightarrow> e_queue (snd x) = [])"

lemma job_queue:
  assumes "system_ok sys" and "engine_ok past sec s" and "deliver_events sys app (run_job sys b j s) = Some s' \<or> run_job sys b j s = s'"
  shows "e_queue s' = e_queue s"
  using network_job [OF assms] by (simp add: frame_def)

lemma taken_step:
  assumes "system_ok sys" and "loop_ok past sec (fst x) (snd x)" and "taken x" and "network_step sys app (fst x) (snd x) = Some y"
  shows "taken y"
proof (cases "quiet_place (fst x)")
  case True
  have "others (snd y) = others (snd x) \<and> (2 < rank (fst y) \<longrightarrow> 2 < rank (fst x))"
    using quiet_step [OF assms(1,2) True, of app "fst y" "snd y"] assms(4) by (auto simp: advance_def)
  then show ?thesis using assms(3) by (simp add: taken_def others_def)
next
  case False
  have ok: "engine_ok past sec (snd x)" using assms(2) by (simp add: loop_ok_def)
  show ?thesis
  proof (cases "fst x")
    case (InCommands js)
    then show ?thesis using False assms(3,4) job_queue [OF assms(1) ok disjI1] job_queue [OF assms(1) ok disjI2] by (cases js) (auto simp: taken_def)
  next
    case (InAbandon js)
    then show ?thesis using False assms(3,4) job_queue [OF assms(1) ok disjI1] job_queue [OF assms(1) ok disjI2] by (cases js) (auto simp: taken_def)
  qed (use False assms(3,4) in \<open>auto simp: taken_def split: if_splits\<close>)
qed

text \<open>The engine has taken the order to stop, and nothing else is to be done.\<close>

definition calm :: "time \<Rightarrow> pc \<times> engine \<Rightarrow> bool" where
  "calm deadline x \<longleftrightarrow> e_queue (snd x) = [] \<and> jobs_at (fst x) = [] \<and> e_stopping (snd x) \<and> e_stop_deadline (snd x) = deadline"

lemma calm_step:
  assumes "system_ok sys" and "loop_ok past sec (fst x) (snd x)" and "calm d x" and "network_step sys app (fst x) (snd x) = Some y"
  shows "calm d y"
proof (cases "quiet_place (fst x)")
  case True
  then show ?thesis
    using quiet_step [OF assms(1,2) True, of app "fst y" "snd y"] assms(3,4) by (auto simp: calm_def advance_def others_def)
next
  case False
  then show ?thesis
    using assms(3,4) by (cases "fst x" rule: quiet_place.cases) (auto simp: calm_def jobs_at_def split: if_splits)
qed

lemma calm_pass:
  assumes "system_ok sys" and "callbacks_return sys app" and "input_ends sys n" and "seen past sec w x" and "calm d x"
  shows "\<exists>y. goes sys app x y \<and> seen past sec w y \<and> calm d y \<and> (rank (fst y) = 12 \<or> rank (fst y) = 15) \<and> rank (fst x) \<le> rank (fst y)"
proof -
  have "\<exists>y. goes sys app x y \<and> (seen past sec w y \<and> calm d y) \<and> (rank (fst y) = 12 \<or> rank (fst y) = 15) \<and> rank (fst x) \<le> rank (fst y)"
  proof (rule pass_ends [OF assms(1-3)])
    fix u v assume "seen past sec w u \<and> calm d u" "network_step sys app (fst u) (snd u) = Some v"
    then show "seen past sec w v \<and> calm d v" using seen_step [OF assms(1)] calm_step [OF assms(1) seen_loop] by blast
  qed (use seen_loop assms(4,5) in auto)
  then show ?thesis by blast
qed

lemma poll_trace: "h_trace (e_host (poll_step sys s)) = h_trace (e_host s) @ [Now (a_now sys (h_trace (e_host s))),
    Poll (map us_fd (case h_sip (e_host s) of None \<Rightarrow> [] | Some a \<Rightarrow> [a]) @ map us_fd (case h_rtp (e_host s) of None \<Rightarrow> [] | Some a \<Rightarrow> [a]))
      (poll_timeout (a_now sys (h_trace (e_host s))) (snd (now_of sys s)))]"
  by (simp add: poll_step_def now_of_def clock_now_def ask_def Let_def)

lemma end_places: "rank place = 12 \<Longrightarrow> place = AtCheck" "rank place = 15 \<Longrightarrow> place = AtEnd"
  by (cases place; simp)+

lemma calm_ends:
  assumes "system_ok sys" and "callbacks_return sys app" and "input_ends sys n"
    and time: "\<And>tr. m \<le> length tr \<Longrightarrow> d \<le> a_now sys tr"
  shows "seen past sec w x \<Longrightarrow> calm d x \<Longrightarrow> fst x = AtCheck \<Longrightarrow> \<exists>y. goes sys app x y \<and> seen [] sec w y \<and> fst y = AtEnd"
proof (induction "m - length (h_trace (e_host (snd x)))" arbitrary: x past rule: less_induct)
  case less
  define y where "y = check_step sys (snd x)"
  have step: "network_step sys app (fst x) (snd x) = Some y" using less.prems(3) by (simp add: y_def)
  have y: "seen past sec w y" "calm d y"
    using seen_step [OF assms(1) less.prems(1) step] calm_step [OF assms(1) seen_loop [OF less.prems(1)] less.prems(2) step] by auto
  have longer: "length (h_trace (e_host (snd x))) \<le> length (h_trace (e_host (snd y)))"
    by (simp add: y_def check_step_def now_of_def clock_now_def ask_def)
  show ?case
  proof (cases "fst y = AtClose")
    case True
    obtain z where z: "goes sys app y z" "seen past sec w z" "fst z = AtEnd"
      using calm_pass [OF assms(1-3) y] True end_places by force
    then show ?thesis using goes_step [OF step] seen_past by (metis prefix_bot.bot_least)
  next
    case False
    then have top: "fst y = AtTop" "a_now sys (h_trace (e_host (snd x))) < d"
      using less.prems(2) by (auto simp: y_def check_step_def calm_def now_of_def clock_now_def ask_def split: if_splits)
    then have early: "length (h_trace (e_host (snd x))) < m" using time [of "h_trace (e_host (snd x))"] by linarith
    define z where "z = (AtWake, poll_step sys (snd y))"
    have step2: "network_step sys app (fst y) (snd y) = Some z" by (simp add: top z_def)
    let ?past = "h_trace (e_host (snd z))"
    have z: "seen ?past sec w z" "calm d z"
      using seen_past [OF seen_step [OF assms(1) y(1) step2]] calm_step [OF assms(1) seen_loop [OF y(1)] y(2) step2] by auto
    obtain u where u: "goes sys app z u" "seen ?past sec w u" "calm d u" "rank (fst u) = 12 \<or> rank (fst u) = 15"
      using calm_pass [OF assms(1-3) z] by blast
    have go: "goes sys app x u" using goes_step [OF step goes_step [OF step2 u(1)]] .
    show ?thesis
    proof (cases "fst u = AtEnd")
      case False
      then have check: "fst u = AtCheck" using u(4) end_places by blast
      have "prefix ?past (h_trace (e_host (snd u)))"
        using seen_loop [OF u(2)] engine_ok_host(4) by (auto simp: loop_ok_def)
      then have "length (h_trace (e_host (snd x))) < length (h_trace (e_host (snd u)))"
        using prefix_length_le longer by (fastforce simp: z_def poll_trace)
      then obtain v where "goes sys app u v" "seen [] sec w v" "fst v = AtEnd"
        using less.hyps [OF _ u(2,3) check] early by (meson diff_less_mono2)
      then show ?thesis using goes_trans [OF go] by blast
    qed (use go seen_past [OF u(2) Nil_prefix] in blast)
  qed
qed


lemma seen_pass:
  assumes "system_ok sys" and "callbacks_return sys app" and "input_ends sys n" and "seen past sec w x" and "taken x \<or> \<not> b"
  shows "\<exists>y. goes sys app x y \<and> seen past sec w y \<and> (b \<longrightarrow> taken y) \<and> (fst y = AtCheck \<or> fst y = AtEnd) \<and> rank (fst x) \<le> rank (fst y)"
proof -
  have "\<exists>y. goes sys app x y \<and> (seen past sec w y \<and> (b \<longrightarrow> taken y)) \<and> (rank (fst y) = 12 \<or> rank (fst y) = 15) \<and> rank (fst x) \<le> rank (fst y)"
  proof (rule pass_ends [OF assms(1-3)])
    fix u v assume "seen past sec w u \<and> (b \<longrightarrow> taken u)" "network_step sys app (fst u) (snd u) = Some v"
    then show "seen past sec w v \<and> (b \<longrightarrow> taken v)" using seen_step [OF assms(1)] taken_step [OF assms(1) seen_loop] by blast
  qed (use seen_loop assms(4,5) in auto)
  then show ?thesis using end_places by blast
qed

lemma stop_ends:
  assumes "system_ok sys" and "callbacks_return sys app" and "input_ends sys n" and "time_passes sys"
    and "seen past sec w x" and "w_destroying w"
  shows "\<exists>y. goes sys app x y \<and> seen [] sec w y \<and> fst y = AtEnd"
proof -
  obtain y where y: "goes sys app x y" "seen past sec w y" "fst y = AtCheck \<or> fst y = AtEnd"
    using seen_pass [OF assms(1-3,5), of False] by blast
  have fin: "\<exists>u. goes sys app x u \<and> seen [] sec w u \<and> fst u = AtEnd"
    if "goes sys app x z" "seen past sec w z" "rank (fst z) > 12" for z
    using seen_pass [OF assms(1-3) that(2), of False] that(1,3) goes_trans seen_past [OF _ Nil_prefix]
    by (metis leD rank.simps(13))
  show ?thesis
  proof (cases "fst y = AtCheck")
    case True
    let ?z = "check_step sys (snd y)"
    have step: "network_step sys app (fst y) (snd y) = Some ?z" using True by simp
    have z: "seen past sec w ?z" "goes sys app x ?z"
      using seen_step [OF assms(1) y(2) step] goes_trans [OF y(1) goes_step [OF step goes_refl]] by auto
    have "fst ?z = AtTop \<or> fst ?z = AtClose" by (auto simp: check_step_def case_prod_beta)
    then show ?thesis
    proof
      assume "fst ?z = AtTop"
      then have "taken ?z" by (simp add: taken_def)
      then obtain u where u: "goes sys app ?z u" "seen past sec w u" "taken u" "fst u = AtCheck \<or> fst u = AtEnd"
        using seen_pass [OF assms(1-3) z(1), of True] by blast
      have go: "goes sys app x u" using goes_trans [OF z(2) u(1)] .
      show ?thesis
      proof (cases "fst u = AtCheck")
        case True
        then have "calm (e_stop_deadline (snd u)) u"
          using u(2,3) assms(6) by (auto simp: calm_def taken_def seen_def world_ok_def stop_ok_def jobs_at_def)
        moreover obtain m where "\<And>tr. m \<le> length tr \<Longrightarrow> e_stop_deadline (snd u) \<le> a_now sys tr"
          using assms(4) by (auto simp: time_passes_def)
        ultimately obtain v where "goes sys app u v" "seen [] sec w v" "fst v = AtEnd"
          using calm_ends [OF assms(1-3) _ u(2) _ True] by blast
        then show ?thesis using goes_trans [OF go] by blast
      qed (use fin [OF go u(2)] u(4) in simp)
    qed (use fin [OF z(2,1)] in simp)
  qed (use fin [OF y(1,2)] y(3) in simp)
qed


end
