(* ===== verification/Engine_Guarantees.thy ===== *)
theory Engine_Guarantees
  imports Engine_Shutdown
begin

text \<open>
  What an engine made by \<^verbatim>\<open>ketphone_engine_create\<close> guarantees in every interleaving of its threads: for
  every application, whatever comes over the network and whatever the system answers, as long as the
  system gives out descriptors, sessions and ports as documented.
\<close>

section \<open>Engines that run\<close>

definition engine_runs :: "system \<Rightarrow> application \<Rightarrow> ketphone_config \<Rightarrow> world \<Rightarrow> bool" where
  "engine_runs sys app config w \<longleftrightarrow>
     (\<exists>version g1 g2 callback s tr. ketphone_engine_create sys version g1 g2 (Some config) callback [] = Some (Some s, tr) \<and>
        reachable_world sys app s w)"

definition wants_tls :: "ketphone_config \<Rightarrow> bool" where
  "wants_tls config \<longleftrightarrow> kc_transport (full_config config) = KETPHONE_TRANSPORT_TLS"

lemma new_world_ok:
  assumes "created_well sec (Some s, tr)"
  shows "world_ok [] sec (new_world s)"
  using assms by (simp add: created_well_def new_world_def world_defs loop_ok_def place_ok_def events_at_def jobs_at_def)

lemma engine_created:
  "system_ok sys \<Longrightarrow> ketphone_engine_create sys version g1 g2 (Some config) callback [] = Some x \<Longrightarrow> created_well (wants_tls config) x"
  using create_engine_well [of sys "full_config config" version g1 g2 callback]
  by (auto simp: ketphone_engine_create_def wants_tls_def created_well_def split: if_splits)

lemma engine_runs_ok:
  assumes "system_ok sys" and "engine_runs sys app config w"
  shows "world_ok [] (wants_tls config) w"
proof -
  obtain version g1 g2 callback s tr
    where c: "ketphone_engine_create sys version g1 g2 (Some config) callback [] = Some (Some s, tr)"
      and r: "reachable_world sys app s w"
    using assms(2) by (auto simp: engine_runs_def)
  from r show ?thesis
    by induction (use new_world_ok [OF engine_created [OF assms(1) c]] engine_step_ok [OF assms(1)] in auto)
qed

lemma engine_runs_engine:
  assumes "system_ok sys" and "engine_runs sys app config w"
  shows "engine_ok [] (wants_tls config) (w_engine w)"
  using engine_runs_ok [OF assms] by (simp add: world_ok_def loop_ok_def)

lemma engine_runs_steps:
  assumes "engine_runs sys app config w" and "network_steps sys app n (w_pc w, w_engine w) = Some (place, s)"
  shows "engine_runs sys app config (w\<lparr>w_pc := place, w_engine := s\<rparr>)"
  using assms
proof (induction n arbitrary: w)
  case (Suc n)
  obtain y where y: "network_step sys app (w_pc w) (w_engine w) = Some y" "network_steps sys app n y = Some (place, s)"
    using Suc.prems(2) by (auto split: option.splits)
  have "engine_step sys app w (w\<lparr>w_pc := fst y, w_engine := snd y\<rparr>)" using y(1) by (intro engine_step.network) simp
  then have "engine_runs sys app config (w\<lparr>w_pc := fst y, w_engine := snd y\<rparr>)"
    using Suc.prems(1) reachable_world.step by (fastforce simp: engine_runs_def)
  then show ?case using Suc.IH [of "w\<lparr>w_pc := fst y, w_engine := snd y\<rparr>"] y(2) by simp
qed (auto simp: world.equality)

lemma engine_runs_step: "engine_runs sys app config w \<Longrightarrow> engine_step sys app w w' \<Longrightarrow> engine_runs sys app config w'"
  using reachable_world.step by (fastforce simp: engine_runs_def)

section \<open>A system and an application\<close>

text \<open>A system that does what is relied on: every socket opens, nothing comes in, each call takes a second.\<close>

definition demo_system :: system where
  "demo_system =
     \<lparr>a_now = (\<lambda>tr. int (length tr) * 1000000000),
      a_socket = (\<lambda>tr f. fold (\<lambda>c m. case c of Socket f fd \<Rightarrow> max m (fd + 1) | _ \<Rightarrow> m) tr 3),
      a_option = (\<lambda>tr fd. 0), a_bind = (\<lambda>tr fd sa. 0), a_connect = (\<lambda>tr fd sa. 0),
      a_getsockname = (\<lambda>tr fd. Some (Sockaddr_in [10, 0, 0, 1] (htons 4000), 16)),
      a_send = (\<lambda>tr fd d. int (length d)), a_recvfrom = (\<lambda>tr fd n. Inl EAGAIN),
      a_getaddrinfo = (\<lambda>tr host service. Some [(Some (Sockaddr_in [10, 0, 0, 9] (htons 5060)), 16)]),
      a_inet_ntop = (\<lambda>f a. Some ''10.0.0.1''), a_getentropy = (\<lambda>tr n. Some (replicate n 7)),
      a_srtp_init = (\<lambda>tr. True),
      a_srtp_create = (\<lambda>tr d k. Some (fold (\<lambda>c m. case c of SrtpCreate d k (Some s) \<Rightarrow> max m (Suc s) | _ \<Rightarrow> m) tr 0)),
      a_srtp_protect = (\<lambda>tr s p. (True, int (length p) + 10, p @ replicate 10 0)),
      a_srtp_unprotect = (\<lambda>tr s p. (True, int (length p) - 10, p)),
      a_pipe = (\<lambda>tr. True), a_tls_supported = True, a_connect_tls = (\<lambda>tr opts. True)\<rparr>"

definition quiet_application :: application where
  "quiet_application events tr = Return"

definition demo_settings :: "u32 \<Rightarrow> ketphone_config" where
  "demo_settings kind =
     \<lparr>struct_size = 88, server_host = Some ''pbx'', server_port = 0, kc_extension = Some ''101'', kc_password = Some ''s'',
      kc_register_expires = 0, jitter_buffer_ms = 0, kc_user_agent = None, kc_correlation_header = None,
      kc_transport = kind, kc_tls_trust_anchors = None, kc_tls_server_name = None\<rparr>"

lemma demo_sockets: "fd \<in> held descriptors tr \<Longrightarrow> fd < fold (\<lambda>c m. case c of Socket f fd \<Rightarrow> max m (fd + 1) | _ \<Rightarrow> m) tr m"
proof (induction tr rule: rev_induct)
  case (snoc c tr)
  then show ?case by (cases c) (auto simp: resource_calls split: if_splits)
qed simp

lemma demo_sessions:
  "s \<in> held srtp_sessions tr \<Longrightarrow> s < fold (\<lambda>c m. case c of SrtpCreate d k (Some s) \<Rightarrow> max m (Suc s) | _ \<Rightarrow> m) tr m"
proof (induction tr rule: rev_induct)
  case (snoc c tr)
  then show ?case by (cases c) (auto simp: resource_calls split: option.splits)
qed simp

lemma demo_system_ok: "system_ok demo_system" "system_ok (demo_system\<lparr>a_pipe := (\<lambda>tr. False)\<rparr>)"
proof -
  have fresh: "a_socket demo_system tr f \<notin> held descriptors tr" "a_srtp_create demo_system tr d k = Some s \<Longrightarrow> s \<notin> held srtp_sessions tr"
    for tr f d k s
    using demo_sockets [of "a_socket demo_system tr f" tr 3] demo_sessions [of s tr 0] by (auto simp: demo_system_def)
  then show "system_ok demo_system"
    by (simp add: system_ok_def fresh_resources_def) (simp add: full_entropy_def ports_given_def demo_system_def from_sockaddr_def new_endpoint_def)
  show "system_ok (demo_system\<lparr>a_pipe := (\<lambda>tr. False)\<rparr>)"
    using fresh by (simp add: system_ok_def fresh_resources_def) (simp add: full_entropy_def ports_given_def demo_system_def from_sockaddr_def new_endpoint_def)
qed

lemma demo_progress: "input_ends demo_system 0" "time_passes demo_system"
proof -
  have "t \<le> int n * 1000000000" if "nat t \<le> n" for t n using that by linarith
  then show "time_passes demo_system" unfolding time_passes_def demo_system_def by auto
qed (simp add: input_ends_def demo_system_def)

lemma quiet_callbacks: "callbacks_return sys quiet_application"
proof -
  have quiet: "e_ua (fold (deliver_event sys quiet_application) es s) = e_ua s" for es s
    by (induction es arbitrary: s) (simp_all add: deliver_event_def quiet_application_def Let_def)
  have "\<exists>s'. deliver_events sys quiet_application s = Some s'" if "u_events (e_ua s) = []" for s
    using that by (subst deliver_events.simps) (simp add: take_events_def)
  then show ?thesis
    unfolding callbacks_return_def
    by (subst deliver_events.simps) (auto simp: take_events_def quiet)
qed

definition demo_engine :: "u32 \<Rightarrow> engine" where
  "demo_engine kind = the (fst (the (ketphone_engine_create demo_system ''1.0'' (\<lambda>n. of_nat n) (\<lambda>n. of_nat n) (Some (demo_settings kind)) True [])))"

lemma demo_created:
  "kind = 0 \<or> kind = 1 \<Longrightarrow> \<exists>tr. ketphone_engine_create demo_system ''1.0'' (\<lambda>n. of_nat n) (\<lambda>n. of_nat n) (Some (demo_settings kind)) True [] =
     Some (Some (demo_engine kind), tr)"
proof -
  have some: "\<exists>tr. x = Some (Some (the (fst (the x))), tr)" if "x \<noteq> None" "fst (the x) \<noteq> None"
    for x :: "(engine option \<times> trace) option"
    using that by (cases x) auto
  have "\<exists>s tr. ketphone_engine_create demo_system ''1.0'' g1 g2 (Some (demo_settings kind)) True [] = Some (Some s, tr)"
    if "kind = 0 \<or> kind = 1" for g1 g2
    using that
    by (auto simp: ketphone_engine_create_def full_config_def torn_def create_engine_def demo_settings_def given_def options_of_def
        or_default_def make_engine_def resolve_all_def start_engine_def local_def connect_def open_socket_def make_nonblocking_def bind_any_def
        destination_def from_sockaddr_def new_endpoint_def move_construct_def assign_optional_def copy_into_def ask_def
        demo_system_def Let_def split: prod.split)
  then show "kind = 0 \<or> kind = 1 \<Longrightarrow> ?thesis" using some unfolding demo_engine_def by (metis fst_conv option.distinct(1) option.sel)
qed

lemma demo_runs: "kind = 0 \<or> kind = 1 \<Longrightarrow> engine_runs demo_system app (demo_settings kind) (new_world (demo_engine kind))"
  using demo_created [of kind] reachable_world.start unfolding engine_runs_def by blast

section \<open>Guarantees\<close>

lemma engine_runs_host:
  assumes "system_ok sys" and "engine_runs sys app config w"
  shows "host_ok (wants_tls config) (e_host (w_engine w))"
  by (rule engine_ok_host(1) [OF engine_runs_engine [OF assms]])

text \<open>
  C1: In a run of an engine that signals over TLS, no datagram leaves the engine but the output of a
  successful call of libsrtp on an outbound session, made just before; nothing is sent over a
  signalling socket; and every datagram the media session hears is the output of a successful call on
  an inbound session, made just before.
\<close>

theorem tls_media_is_protected:
  assumes "system_ok sys" and "engine_runs sys app config w" and "kc_transport (full_config config) = KETPHONE_TRANSPORT_TLS"
  shows "secured_trace (h_trace (e_host (w_engine w)))"
  using engine_runs_host [OF assms(1,2)] assms(3) by (simp add: host_ok_def trace_good_def wants_tls_def)

theorem tls_media_is_protected_witness:
  "system_ok demo_system \<and> engine_runs demo_system quiet_application (demo_settings 1) (new_world (demo_engine 1)) \<and>
   kc_transport (full_config (demo_settings 1)) = KETPHONE_TRANSPORT_TLS \<and>
   secured_trace (h_trace (e_host (w_engine (new_world (demo_engine 1)))))"
proof -
  have "kc_transport (full_config (demo_settings 1)) = KETPHONE_TRANSPORT_TLS" by (simp add: full_config_def demo_settings_def)
  with tls_media_is_protected [OF demo_system_ok(1) demo_runs this] demo_runs demo_system_ok(1) show ?thesis by simp
qed



text \<open>
  C37: If the creation of an engine fails, whatever the reason, every descriptor it opened is closed
  again, once, and was used only in between.
\<close>

theorem failed_creation_keeps_nothing:
  assumes "system_ok sys" and "ketphone_engine_create sys version g1 g2 config callback [] = Some (None, tr)"
  shows "disciplined descriptors tr \<and> held descriptors tr = {} \<and> held srtp_sessions tr = {} \<and> held tls_connections tr = {}"
proof (cases config)
  case (Some c)
  then show ?thesis using engine_created [OF assms(1)] assms(2) by (fastforce simp: created_well_def trace_good_def)
qed (use assms(2) in \<open>simp add: ketphone_engine_create_def\<close>)

lemma demo_fails:
  "\<exists>tr. ketphone_engine_create (demo_system\<lparr>a_pipe := (\<lambda>tr. False)\<rparr>) ''1.0'' g1 g2 (Some (demo_settings 0)) True [] = Some (None, tr)"
  by (auto simp: ketphone_engine_create_def full_config_def torn_def create_engine_def demo_settings_def given_def options_of_def
      or_default_def make_engine_def resolve_all_def start_engine_def local_def connect_def open_socket_def make_nonblocking_def bind_any_def
      destination_def from_sockaddr_def new_endpoint_def move_construct_def assign_optional_def copy_into_def ask_def
      demo_system_def Let_def split: prod.split)

theorem failed_creation_keeps_nothing_witness:
  "\<exists>tr. ketphone_engine_create (demo_system\<lparr>a_pipe := (\<lambda>tr. False)\<rparr>) ''1.0'' (\<lambda>n. 0) (\<lambda>n. 0) (Some (demo_settings 0)) True [] = Some (None, tr) \<and>
     held descriptors tr = {}"
proof -
  obtain tr where "ketphone_engine_create (demo_system\<lparr>a_pipe := (\<lambda>tr. False)\<rparr>) ''1.0'' (\<lambda>n. 0) (\<lambda>n. 0) (Some (demo_settings 0)) True [] = Some (None, tr)"
    using demo_fails by blast
  with failed_creation_keeps_nothing [OF demo_system_ok(2) this] show ?thesis by simp
qed

text \<open>
  C8: In every run the engine stays sound. No operation meets undefined behaviour, but for the one
  RTP datagram that the parser reads past its end. There is a TLS connection exactly while the
  link is not down, and what was sent before waits in at most 64 KiB. The delay before the next attempt
  to connect is between one and thirty seconds. While media flow there is a socket for them, and
  under TLS both directions have their SRTP stream.
\<close>

theorem engine_stays_sound:
  assumes "system_ok sys" and "engine_runs sys app config w" and "s = w_engine w" and "h = e_host s"
  shows "(h_fault h = None \<or> h_fault h = Some Overrun) \<and> h_connection h = (e_link s \<noteq> Down) \<and>
    length (h_pending h) \<le> 65536 \<and> (h_connection h \<longrightarrow> h_pending h = [] \<and> e_listener s = Some (e_generation s)) \<and>
    kReconnectFirst \<le> e_backoff s \<and> e_backoff s \<le> kReconnectMost \<and>
    (active (h_media h) \<longrightarrow> h_rtp h \<noteq> None) \<and> (active (h_media h) \<and> h_tls h \<longrightarrow> h_srtp_out h \<noteq> None \<and> h_srtp_in h \<noteq> None)"
proof -
  note ok = engine_runs_engine [OF assms(1,2)]
  have "host_ok (wants_tls config) h" "h_connection h = (e_link s \<noteq> Down)" "h_tls h = wants_tls config"
    using engine_ok_host [OF ok] assms(3,4) by simp_all
  then show ?thesis using ok assms(3) by (auto simp: host_ok_def media_ok_def link_ok_def engine_ok_def)
qed

theorem engine_stays_sound_witness:
  "engine_runs demo_system quiet_application (demo_settings 1) (new_world (demo_engine 1)) \<and>
   length (h_pending (e_host (demo_engine 1))) \<le> 65536"
  using engine_stays_sound [OF demo_system_ok(1) demo_runs refl refl, of 1] demo_runs [of 1 quiet_application]
  by (simp add: new_world_def)

text \<open>
  C7: No wake-up is lost. When the network thread is about to sleep and there is a command in the queue
  or an event of the connection in the inbox, there is a byte in the pipe it waits for, or the thread
  that left the work is about to write one.
\<close>

theorem no_wakeup_is_lost:
  assumes "system_ok sys" and "engine_runs sys app config w" and "w_pc w = AtTop"
    and "e_queue (w_engine w) \<noteq> [] \<or> e_inbox (w_engine w) \<noteq> []"
  shows "0 < e_wake (w_engine w) \<or> 0 < w_wakes w"
  using engine_runs_ok [OF assms(1,2)] assms(3,4) by (auto simp: world_ok_def woken_def)

text \<open>A run in which a caller has queued a command, and one in which the engine is told to stop.\<close>

definition demo_queued :: world where
  "demo_queued = (new_world (demo_engine 0))\<lparr>w_engine := (demo_engine 0)\<lparr>e_queue := [Job 7 CmdRegister]\<rparr>,
     w_callers := (\<lambda>_. Away)(7 := Awaiting), w_wakes := 1\<rparr>"

lemma demo_engine_facts: "e_queue (demo_engine 0) = []" "\<not> e_closed (demo_engine 0)"
  using engine_created [OF demo_system_ok(1)] demo_created [of 0] by (fastforce simp: created_well_def)+

lemma demo_queued_runs: "engine_runs demo_system app (demo_settings 0) demo_queued"
proof -
  let ?w = "new_world (demo_engine 0)"
  let ?v = "?w\<lparr>w_engine := demo_engine 0, w_callers := (w_callers ?w)(7 := Ready CmdRegister)\<rparr>"
  have "engine_step demo_system app ?w ?v"
    by (rule engine_step.begin_call [where a = ApiRegister and i = 0]) (simp_all add: new_world_def prepare_def)
  moreover have "engine_step demo_system app ?v (?v\<lparr>w_engine := (w_engine ?v)\<lparr>e_queue := e_queue (w_engine ?v) @ [Job 7 CmdRegister]\<rparr>,
      w_callers := (w_callers ?v)(7 := Awaiting), w_wakes := w_wakes ?v + 1\<rparr>)"
    by (rule engine_step.enqueue) (simp_all add: demo_engine_facts)
  moreover have "?v\<lparr>w_engine := (w_engine ?v)\<lparr>e_queue := e_queue (w_engine ?v) @ [Job 7 CmdRegister]\<rparr>,
      w_callers := (w_callers ?v)(7 := Awaiting), w_wakes := w_wakes ?v + 1\<rparr> = demo_queued"
    by (simp add: demo_queued_def new_world_def demo_engine_facts)
  ultimately show ?thesis using demo_runs [of 0] engine_runs_step by metis
qed

theorem no_wakeup_is_lost_witness:
  "engine_runs demo_system quiet_application (demo_settings 0) demo_queued \<and> w_pc demo_queued = AtTop \<and>
   e_queue (w_engine demo_queued) \<noteq> [] \<and> (0 < e_wake (w_engine demo_queued) \<or> 0 < w_wakes demo_queued)"
proof -
  have "w_pc demo_queued = AtTop" "e_queue (w_engine demo_queued) \<noteq> []" by (simp_all add: demo_queued_def new_world_def)
  with no_wakeup_is_lost [OF demo_system_ok(1) demo_queued_runs] demo_queued_runs show ?thesis by simp
qed

text \<open>
  C6: Every caller that waits for its command is answered once. In every run, for every caller, its
  commands in the queue or at work and its promise, if it is kept but not yet seen, are one together
  if the caller waits, and none otherwise.
\<close>

theorem callers_are_answered_once:
  assumes "system_ok sys" and "engine_runs sys app config w"
  shows "length (filter (of_caller t) (jobs_at (w_pc w) @ e_queue (w_engine w))) +
      (if e_answers (w_engine w) t = None then 0 else 1) = (if w_callers w t = Awaiting then 1 else 0)"
  using engine_runs_ok [OF assms] by (simp add: world_ok_def callers_ok_def)

theorem callers_are_answered_once_witness:
  "engine_runs demo_system quiet_application (demo_settings 0) demo_queued \<and> w_callers demo_queued 7 = Awaiting \<and>
   length (filter (of_caller 7) (jobs_at (w_pc demo_queued) @ e_queue (w_engine demo_queued))) +
     (if e_answers (w_engine demo_queued) 7 = None then 0 else 1) = (if w_callers demo_queued 7 = Awaiting then 1 else 0)"
  using callers_are_answered_once [OF demo_system_ok(1) demo_queued_runs, of 7] demo_queued_runs [of quiet_application]
  by (simp add: demo_queued_def)


section \<open>Termination\<close>

lemma last_frame:
  assumes "now < h_next_frame (e_host s)"
  shows "\<exists>s'. network_steps sys app 1 (InFrames now, s) = Some (AtCheck, s') \<and> now < h_next_frame (e_host s')"
proof -
  have "h_next_frame (publish_stats (e_host s)) = h_next_frame (e_host s)"
    by (simp add: publish_stats_def fail_with_def split: option.split)
  then show ?thesis using assms by (simp add: frames_step_def Let_def)
qed

lemma burst_ends:
  assumes "engine_ok past sec s" and "place_ok sec (InFrames now) s" and "now - h_next_frame (e_host s) < int k * kFrame"
  shows "\<exists>n s'. n \<le> k + 1 \<and> network_steps sys app n (InFrames now, s) = Some (AtCheck, s') \<and> now < h_next_frame (e_host s')"
  using assms
proof (induction k arbitrary: s)
  case 0
  then show ?case using last_frame [of now s sys app] by (intro exI [of _ 1]) simp
next
  case (Suc k)
  show ?case
  proof (cases "h_next_frame (e_host s) \<le> now")
    case False
    then show ?thesis using last_frame [of now s sys app] by (intro exI [of _ 1]) simp
  next
    case True
    obtain rtp where rtp: "h_rtp (e_host s) = Some rtp" "active (h_media (e_host s))"
      using Suc.prems(2) by (auto simp: place_ok_def)
    let ?s = "set_host (do_frame sys rtp (e_host s)) s"
    have f: "frames_step sys now s = (InFrames now, ?s)" using True rtp by (simp add: frames_step_def Let_def)
    note step = advance_frame [OF Suc.prems(1,2), of sys]
    have "h_next_frame (e_host ?s) = h_next_frame (e_host s) + kFrame"
      using host_ok_do_frame [OF engine_ok_host(1) [OF Suc.prems(1)] rtp, of sys] by simp
    then obtain n s' where "n \<le> k + 1" "network_steps sys app n (InFrames now, ?s) = Some (AtCheck, s')" "now < h_next_frame (e_host s')"
      using Suc.IH [of ?s] step f Suc.prems(3) by (auto simp: advance_def)
    then show ?thesis using f by (intro exI [of _ "Suc n"] exI [of _ s']) simp
  qed
qed

text \<open>
  C36: The frames of a pass of the loop come to an end, however late the thread is. From the point where
  the loop looks for frames that are due, at most thirteen steps lead past them, so at most eleven
  frames are sent and played; and then the next frame is not due before the time of the pass.
\<close>

theorem frame_bursts_end:
  assumes "system_ok sys" and "engine_runs sys app config w"
  shows "\<exists>n s'. n \<le> 13 \<and> network_steps sys app n (AtFrames now, w_engine w) = Some (AtCheck, s') \<and>
    (active (h_media (e_host s')) \<longrightarrow> now < h_next_frame (e_host s'))"
proof -
  let ?s = "w_engine w" and ?sec = "wants_tls config"
  note ok = engine_runs_engine [OF assms]
  define y where "y = begin_frames now ?s"
  have y: "engine_ok [] ?sec (snd y)" "place_ok ?sec (fst y) (snd y)" "fst y = InFrames now \<or> fst y = AtCheck"
    using advance_frames [OF ok, of now] by (simp_all add: y_def advance_def)
  show ?thesis
  proof (cases "fst y = InFrames now")
    case True
    then have "now - h_next_frame (e_host (snd y)) < int 11 * kFrame"
      by (auto simp: y_def begin_frames_def Let_def split: if_splits)
    then obtain n s' where "n \<le> 11 + 1" "network_steps sys app n (InFrames now, snd y) = Some (AtCheck, s')" "now < h_next_frame (e_host s')"
      using burst_ends [OF y(1), of now 11 sys app] y(2) True by auto
    then show ?thesis using True by (intro exI [of _ "Suc n"] exI [of _ s']) (simp add: y_def [symmetric] prod_eq_iff [symmetric], metis prod.collapse)
  next
    case False
    then have "y = (AtCheck, ?s)" by (auto simp: y_def begin_frames_def Let_def split: if_splits)
    moreover have "active (h_media (e_host ?s)) \<longrightarrow> now < h_next_frame (e_host ?s)"
      using False engine_ok_host(1) [OF ok] by (auto simp: y_def begin_frames_def Let_def host_ok_def media_ok_def split: if_splits)
    ultimately show ?thesis by (intro exI [of _ 1] exI [of _ ?s]) (simp add: y_def)
  qed
qed

theorem frame_bursts_end_witness:
  "engine_runs demo_system quiet_application (demo_settings 0) (new_world (demo_engine 0)) \<and>
   (\<exists>n s'. n \<le> 13 \<and> network_steps demo_system quiet_application n (AtFrames 0, demo_engine 0) = Some (AtCheck, s') \<and>
     (active (h_media (e_host s')) \<longrightarrow> 0 < h_next_frame (e_host s')))"
  using frame_bursts_end [OF demo_system_ok(1) demo_runs [of 0 quiet_application], of 0] demo_runs [of 0 quiet_application]
  by (simp add: new_world_def)

text \<open>
  C3: The destruction of an engine ends. In any run, once the destructor has asked the loop to stop,
  the network thread comes to the end of its loop, and then every caller that waits for a command has
  its answer; if the application returns from its callbacks, there is an end to the datagrams that
  come in, and time passes.
\<close>

theorem destruction_ends:
  assumes "system_ok sys" and "engine_runs sys app config w" and "w_destroying w"
    and "callbacks_return sys app" and "input_ends sys limit" and "time_passes sys"
  shows "\<exists>n s. network_steps sys app n (w_pc w, w_engine w) = Some (AtEnd, s) \<and>
    (\<forall>t. w_callers w t = Awaiting \<longrightarrow> e_answers s t \<noteq> None)"
proof -
  have "seen [] (wants_tls config) w (w_pc w, w_engine w)"
    using engine_runs_ok [OF assms(1,2)] by (simp add: seen_def)
  from stop_ends [OF assms(1,4-6) this assms(3)] obtain s n
    where n: "network_steps sys app n (w_pc w, w_engine w) = Some (AtEnd, s)" and s: "seen [] (wants_tls config) w (AtEnd, s)"
    by (auto simp: goes_def)
  have "length (filter (of_caller t) (jobs_at AtEnd @ e_queue s)) + (if e_answers s t = None then 0 else 1) =
      (if w_callers w t = Awaiting then 1 else 0)" for t
    using s by (simp add: seen_def world_ok_def callers_ok_def)
  moreover have "e_queue s = []" using s by (simp add: seen_def world_ok_def closed_ok_def)
  ultimately have "w_callers w t = Awaiting \<Longrightarrow> e_answers s t \<noteq> None" for t
    by (fastforce simp: jobs_at_def split: if_splits)
  with n show ?thesis by blast
qed

definition demo_stopping :: world where
  "demo_stopping = demo_queued\<lparr>w_engine := (w_engine demo_queued)\<lparr>e_queue := e_queue (w_engine demo_queued) @ [StopJob]\<rparr>,
     w_wakes := w_wakes demo_queued + 1, w_destroying := True\<rparr>"

lemma demo_stopping_runs: "engine_runs demo_system app (demo_settings 0) demo_stopping"
proof -
  have "engine_step demo_system app demo_queued demo_stopping"
    using engine_step.order_stop [of demo_queued demo_system app]
    by (simp add: demo_stopping_def) (simp add: demo_queued_def new_world_def demo_engine_facts)
  then show ?thesis by (rule engine_runs_step [OF demo_queued_runs])
qed

theorem destruction_ends_witness:
  "engine_runs demo_system quiet_application (demo_settings 0) demo_stopping \<and> w_callers demo_stopping 7 = Awaiting \<and>
   (\<exists>n s. network_steps demo_system quiet_application n (w_pc demo_stopping, w_engine demo_stopping) = Some (AtEnd, s) \<and>
     e_answers s 7 \<noteq> None)"
proof -
  have d: "w_destroying demo_stopping" "w_callers demo_stopping 7 = Awaiting"
    by (simp_all add: demo_stopping_def demo_queued_def)
  from destruction_ends [OF demo_system_ok(1) demo_stopping_runs d(1) quiet_callbacks demo_progress]
  show ?thesis using d(2) demo_stopping_runs by blast
qed


end
