(* ===== verification/C_Interface.thy ===== *)
theory C_Interface
  imports Engine_Guarantees
begin

text \<open>
  The functions of \<^verbatim>\<open>include/ketphone/ketphone.h\<close>, at the end of \<^verbatim>\<open>src/core/engine.cpp\<close>: what they check
  before they go to the engine. A pointer is \<^term>\<open>None\<close> when it is null. The commands go on to the
  queue of the engine, or run at once if the application calls them from its callback; the audio
  functions and the statistics return to the caller directly. What happens when memory runs out, which
  the functions turn into \<^term>\<open>KETPHONE_ERROR_INTERNAL\<close>, is not part of the model.
\<close>

section \<open>Commands\<close>

datatype c_call =
    Ketphone_register | Ketphone_unregister | Ketphone_call "string option" | Ketphone_answer int | Ketphone_reject int int
  | Ketphone_hangup int

text \<open>The result that is returned at once, or the command for the engine. The target is a C string.\<close>

definition enter :: "engine option \<Rightarrow> c_call \<Rightarrow> ketphone_result + api" where
  "enter engine c =
     (let guard = (\<lambda>a. if engine = None then Inl KETPHONE_ERROR_INVALID_ARGUMENT else Inr a)
      in case c of
           Ketphone_register \<Rightarrow> guard ApiRegister
         | Ketphone_unregister \<Rightarrow> guard ApiUnregister
         | Ketphone_call target \<Rightarrow>
             (case target of None \<Rightarrow> Inl KETPHONE_ERROR_INVALID_ARGUMENT | Some t \<Rightarrow> guard (ApiCall (c_str t)))
         | Ketphone_answer i \<Rightarrow> guard (ApiAnswer i)
         | Ketphone_reject i status \<Rightarrow> guard (ApiReject i status)
         | Ketphone_hangup i \<Rightarrow> guard (ApiHangup i))"

text \<open>A command of the application from its callback: the result, and what \<^verbatim>\<open>*call_id\<close> holds then.\<close>

definition call_inline :: "system \<Rightarrow> engine option \<Rightarrow> c_call \<Rightarrow> int option \<Rightarrow> ketphone_result \<times> int option \<times> engine option" where
  "call_inline sys engine c call_id =
     (case enter engine c of
        Inl r \<Rightarrow> (r, call_id, engine)
      | Inr a \<Rightarrow>
          (case run_inline sys a (the engine) of ((r, i), s) \<Rightarrow>
             (r, (case c of
                    Ketphone_call _ \<Rightarrow> if r = KETPHONE_OK then map_option (\<lambda>_. i) call_id else call_id
                  | _ \<Rightarrow> call_id), Some s)))"

section \<open>Audio and statistics\<close>

definition ketphone_audio_capture :: "engine option \<Rightarrow> int list option \<Rightarrow> nat \<times> engine option" where
  "ketphone_audio_capture engine samples =
     (case (engine, samples) of
        (Some s, Some xs) \<Rightarrow> (case capture_samples xs s of (n, s) \<Rightarrow> (n, Some s))
      | _ \<Rightarrow> (0, engine))"

text \<open>The buffer of the caller holds \<^verbatim>\<open>count\<close> samples, which are replaced.\<close>

definition ketphone_audio_playout :: "engine option \<Rightarrow> int list option \<Rightarrow> nat \<times> int list option \<times> engine option" where
  "ketphone_audio_playout engine samples =
     (case (engine, samples) of
        (Some s, Some xs) \<Rightarrow> (case playout_samples (length xs) s of (n, ys, s) \<Rightarrow> (n, Some ys, Some s))
      | _ \<Rightarrow> (0, samples, engine))"

text \<open>\<^verbatim>\<open>Engine::stats\<close> copies the published statistics field by field.\<close>

definition engine_stats :: "engine \<Rightarrow> media_stats" where
  "engine_stats s =
     (let st = h_stats (e_host s)
      in \<lparr>packets_sent = packets_sent st, packets_received = packets_received st, packets_lost = packets_lost st,
          packets_late = packets_late st, frames_concealed = frames_concealed st, frames_expanded = frames_expanded st,
          frames_dropped = frames_dropped st, jitter_ms = jitter_ms st, playout_delay_ms = playout_delay_ms st\<rparr>)"

definition ketphone_media_stats_get :: "engine option \<Rightarrow> media_stats option \<Rightarrow> ketphone_result \<times> media_stats option" where
  "ketphone_media_stats_get engine out =
     (case (engine, out) of
        (Some s, Some _) \<Rightarrow> (KETPHONE_OK, Some (engine_stats s))
      | _ \<Rightarrow> (KETPHONE_ERROR_INVALID_ARGUMENT, out))"

section \<open>What the application can rely on\<close>

lemma ring_engine:
  assumes "engine_ok past sec s"
  shows "ring_ok (capture (h_media (e_host s)))" "ring_ok (playout (h_media (e_host s)))"
  using host_ok_session [OF engine_ok_host(1) [OF assms]] by (simp_all add: session_ok_def)

lemma capture_is_queued:
  assumes "engine_ok past sec s" and "ketphone_audio_capture (Some s) (Some xs) = (n, Some s')"
  shows "n \<le> length xs \<and> ring_contents (capture (h_media (e_host s'))) = ring_contents (capture (h_media (e_host s))) @ take n xs"
  using assms(2) ring.put [OF ring_engine(1) [OF assms(1)], of xs]
  by (auto simp: ketphone_audio_capture_def capture_samples_def on_session_def)

lemma playout_is_filled:
  assumes "engine_ok past sec s" and "ketphone_audio_playout (Some s) (Some xs) = (n, Some ys, Some s')"
    and "q = ring_contents (playout (h_media (e_host s)))"
  shows "length ys = length xs \<and> n = min (length xs) (length q) \<and> take n ys = take n q \<and>
    drop n ys = replicate (length xs - n) 0 \<and> ring_contents (playout (h_media (e_host s'))) = drop n q"
  using assms(2,3) ring.get [OF ring_engine(2) [OF assms(1)], of "length xs"]
  by (auto simp: ketphone_audio_playout_def playout_samples_def on_session_def Let_def min_def)

end
