(* ===== verification/Apple_Audio.thy ===== *)
theory Apple_Audio
  imports C_Interface
begin

text \<open>
  \<^verbatim>\<open>platform/apple/audio/ketphone_apple_audio.c\<close>: the voice processing unit of Apple platforms between the
  hardware and an engine. Core Audio is a parameter: it answers every call with a status, depending on
  the calls before, and gives the samples of the microphone; the calls are recorded. A status of 0 is
  success. A null pointer to the audio object is \<^term>\<open>None\<close>.

  The engine is another object, which the audio object only points to: the callbacks get and return it.
\<close>

section \<open>Core Audio\<close>

abbreviation (input) kMaxFrames :: nat where "kMaxFrames \<equiv> 4096"

text \<open>
  The calls, with the status they return. \<^verbatim>\<open>SetProperty\<close> stands for the properties, in the order in which
  they are set: input enabled, the two formats, the largest slice, the two callbacks.
\<close>

datatype unit_property = EnableIO | InputFormat | OutputFormat | MaximumFramesPerSlice nat | SetInputCallback | SetRenderCallback

datatype au_call =
    Calloc bool | FindNext bool | InstanceNew int | SetProperty unit_property int | Initialize int
  | StartUnit int | StopUnit int | Uninitialize | Dispose | Render nat int | FreeAudio

type_synonym au_trace = "au_call list"

record core_audio =
  ca_calloc :: "au_trace \<Rightarrow> bool"
  ca_find :: "au_trace \<Rightarrow> bool"
  ca_new :: "au_trace \<Rightarrow> int"
  ca_set :: "au_trace \<Rightarrow> unit_property \<Rightarrow> int"
  ca_initialize :: "au_trace \<Rightarrow> int"
  ca_start :: "au_trace \<Rightarrow> int"
  ca_stop :: "au_trace \<Rightarrow> int"
  ca_render :: "au_trace \<Rightarrow> nat \<Rightarrow> int \<times> int list"

abbreviation (input) noErr :: int where "noErr \<equiv> 0"
abbreviation (input) kAudioUnitErr_TooManyFramesToProcess :: int where "kAudioUnitErr_TooManyFramesToProcess \<equiv> - 10874"
abbreviation (input) kAudioUnitErr_InvalidElement :: int where "kAudioUnitErr_InvalidElement \<equiv> - 10877"
abbreviation (input) kAudio_ParamError :: int where "kAudio_ParamError \<equiv> - 50"
abbreviation (input) kAudio_MemFullError :: int where "kAudio_MemFullError \<equiv> - 108"

section \<open>The audio object\<close>

record apple_audio =
  aa_unit :: bool
  aa_muted :: bool
  aa_running :: bool
  aa_input :: "int list"
  aa_trace :: au_trace

definition au_ask :: "('r \<Rightarrow> au_call) \<Rightarrow> (au_trace \<Rightarrow> 'r) \<Rightarrow> apple_audio \<Rightarrow> 'r \<times> apple_audio" where
  "au_ask call reply a = (let r = reply (aa_trace a) in (r, a\<lparr>aa_trace := aa_trace a @ [call r]\<rparr>))"

definition au_note :: "au_call \<Rightarrow> apple_audio \<Rightarrow> apple_audio" where
  "au_note c a = a\<lparr>aa_trace := aa_trace a @ [c]\<rparr>"

text \<open>The first samples of a buffer are replaced.\<close>

definition overwrite :: "int list \<Rightarrow> int list \<Rightarrow> int list" where
  "overwrite xs old = xs @ drop (length xs) old"

definition on_input :: "core_audio \<Rightarrow> nat \<Rightarrow> apple_audio \<Rightarrow> engine \<Rightarrow> int \<times> apple_audio \<times> engine" where
  "on_input ca n_frames a s =
     (if n_frames > kMaxFrames then (kAudioUnitErr_TooManyFramesToProcess, a, s)
      else case au_ask (Render n_frames \<circ> fst) (\<lambda>tr. ca_render ca tr n_frames) a of ((status, samples), a) \<Rightarrow>
        let a = a\<lparr>aa_input := overwrite (take n_frames samples) (aa_input a)\<rparr>
        in if status \<noteq> noErr then (status, a, s)
           else let a = (if aa_muted a then a\<lparr>aa_input := overwrite (replicate n_frames 0) (aa_input a)\<rparr> else a)
                in (noErr, a, the (snd (ketphone_audio_capture (Some s) (Some (take n_frames (aa_input a)))))))"

text \<open>The samples for the speaker, and whether they are marked as silence. The buffer has a size in bytes.\<close>

definition on_output :: "nat \<Rightarrow> int list \<Rightarrow> engine \<Rightarrow> int list \<times> bool \<times> engine" where
  "on_output byte_size samples s =
     (let count = byte_size div 2
      in case ketphone_audio_playout (Some s) (Some (take count samples)) of (n, played, s') \<Rightarrow>
           (overwrite (the played) samples, n = 0, the s'))"

section \<open>Setting up and closing down\<close>

text \<open>Properties are set until one is refused.\<close>

fun set_properties :: "core_audio \<Rightarrow> unit_property list \<Rightarrow> apple_audio \<Rightarrow> int \<times> apple_audio" where
  "set_properties ca [] a = (noErr, a)"
| "set_properties ca (p # ps) a =
     (case au_ask (SetProperty p) (\<lambda>tr. ca_set ca tr p) a of (status, a) \<Rightarrow>
        if status \<noteq> noErr then (status, a) else set_properties ca ps a)"

definition configure :: "core_audio \<Rightarrow> apple_audio \<Rightarrow> int \<times> apple_audio" where
  "configure ca a =
     (case au_ask FindNext (ca_find ca) a of
        (False, a) \<Rightarrow> (kAudioUnitErr_InvalidElement, a)
      | (True, a) \<Rightarrow>
          (case au_ask InstanceNew (ca_new ca) a of (status, a) \<Rightarrow>
             if status \<noteq> noErr then (status, a)
             else case set_properties ca [EnableIO, InputFormat, OutputFormat, MaximumFramesPerSlice kMaxFrames, SetInputCallback,
                         SetRenderCallback] (a\<lparr>aa_unit := True\<rparr>) of
               (status, a) \<Rightarrow> if status \<noteq> noErr then (status, a) else au_ask Initialize (ca_initialize ca) a))"

definition ketphone_apple_audio_stop :: "core_audio \<Rightarrow> apple_audio option \<Rightarrow> int \<times> apple_audio option" where
  "ketphone_apple_audio_stop ca object =
     (case object of
        None \<Rightarrow> (kAudio_ParamError, None)
      | Some a \<Rightarrow>
          if \<not> aa_running a then (noErr, Some a)
          else case au_ask StopUnit (ca_stop ca) a of (status, a) \<Rightarrow>
                 (status, Some (if status = noErr then a\<lparr>aa_running := False\<rparr> else a)))"

text \<open>What is left of a destroyed object are the calls.\<close>

definition ketphone_apple_audio_destroy :: "core_audio \<Rightarrow> apple_audio option \<Rightarrow> au_trace" where
  "ketphone_apple_audio_destroy ca object =
     (case object of
        None \<Rightarrow> []
      | Some a \<Rightarrow>
          let a = (if aa_unit a then au_note Dispose (au_note Uninitialize (the (snd (ketphone_apple_audio_stop ca (Some a))))) else a)
          in aa_trace (au_note FreeAudio a))"

definition new_audio :: "au_trace \<Rightarrow> apple_audio" where
  "new_audio tr = \<lparr>aa_unit = False, aa_muted = False, aa_running = False, aa_input = replicate kMaxFrames 0, aa_trace = tr\<rparr>"

definition ketphone_apple_audio_create ::
  "core_audio \<Rightarrow> bool \<Rightarrow> au_trace \<Rightarrow> int \<times> (apple_audio, au_trace) sum" where
  "ketphone_apple_audio_create ca engine_given tr =
     (if \<not> engine_given then (kAudio_ParamError, Inr tr)
      else if \<not> ca_calloc ca tr then (kAudio_MemFullError, Inr (tr @ [Calloc False]))
      else case configure ca (new_audio (tr @ [Calloc True])) of (result, a) \<Rightarrow>
        if result \<noteq> noErr then (result, Inr (ketphone_apple_audio_destroy ca (Some a))) else (noErr, Inl a))"

definition ketphone_apple_audio_start :: "core_audio \<Rightarrow> apple_audio option \<Rightarrow> int \<times> apple_audio option" where
  "ketphone_apple_audio_start ca object =
     (case object of
        None \<Rightarrow> (kAudio_ParamError, None)
      | Some a \<Rightarrow>
          if aa_running a then (noErr, Some a)
          else case au_ask StartUnit (ca_start ca) a of (status, a) \<Rightarrow>
                 (status, Some (if status = noErr then a\<lparr>aa_running := True\<rparr> else a)))"

definition ketphone_apple_audio_set_muted :: "bool \<Rightarrow> apple_audio option \<Rightarrow> apple_audio option" where
  "ketphone_apple_audio_set_muted muted object = map_option (\<lambda>a. a\<lparr>aa_muted := muted\<rparr>) object"

section \<open>The protocol of the unit\<close>

text \<open>
  In which order Core Audio may be called: an object is made, then its unit, which is set up, initialised,
  started and stopped; it is closed in any of these states, uninitialised before it is disposed of, and
  the object is freed after its unit.
\<close>

datatype au_state = Absent | Allocated | Made | Initialised | Started | Closing | Disposed

fun au_next :: "au_call \<Rightarrow> au_state \<Rightarrow> au_state option" where
  "au_next (Calloc ok) st = (if st = Absent then Some (if ok then Allocated else Absent) else None)"
| "au_next (FindNext ok) st = (if st = Allocated then Some Allocated else None)"
| "au_next (InstanceNew status) st = (if st = Allocated then Some (if status = noErr then Made else Allocated) else None)"
| "au_next (SetProperty p status) st = (if st = Made then Some Made else None)"
| "au_next (Initialize status) st = (if st = Made then Some (if status = noErr then Initialised else Made) else None)"
| "au_next (StartUnit status) st = (if st = Initialised then Some (if status = noErr then Started else Initialised) else None)"
| "au_next (StopUnit status) st = (if st = Started then Some (if status = noErr then Initialised else Started) else None)"
| "au_next (Render n status) st = (if st = Initialised \<or> st = Started then Some st else None)"
| "au_next Uninitialize st = (if st \<in> {Made, Initialised, Started} then Some Closing else None)"
| "au_next Dispose st = (if st = Closing then Some Disposed else None)"
| "au_next FreeAudio st = (if st = Allocated \<or> st = Disposed then Some Absent else None)"

fun au_follow :: "au_trace \<Rightarrow> au_state \<Rightarrow> au_state option" where
  "au_follow [] st = Some st"
| "au_follow (c # cs) st = (case au_next c st of None \<Rightarrow> None | Some st' \<Rightarrow> au_follow cs st')"

lemma au_follow_append [simp]:
  "au_follow (a @ b) st = (case au_follow a st of None \<Rightarrow> None | Some st' \<Rightarrow> au_follow b st')"
  by (induction a arbitrary: st) (auto split: option.splits)

text \<open>An object between two calls of the interface, and one that is being set up.\<close>

definition audio_ok :: "apple_audio \<Rightarrow> bool" where
  "audio_ok a \<longleftrightarrow> aa_unit a \<and> length (aa_input a) = kMaxFrames \<and>
     au_follow (aa_trace a) Absent = Some (if aa_running a then Started else Initialised)"

definition audio_new_ok :: "apple_audio \<Rightarrow> bool" where
  "audio_new_ok a \<longleftrightarrow> \<not> aa_running a \<and> length (aa_input a) = kMaxFrames \<and>
     au_follow (aa_trace a) Absent = Some (if aa_unit a then Made else Allocated)"

lemma set_properties_ok:
  "set_properties ca ps a = (status, a') \<Longrightarrow> audio_new_ok a \<Longrightarrow> aa_unit a \<Longrightarrow> audio_new_ok a' \<and> aa_unit a' \<and> aa_muted a' = aa_muted a"
proof (induction ps arbitrary: a)
  case (Cons p ps)
  have "audio_new_ok (a\<lparr>aa_trace := aa_trace a @ [SetProperty p r]\<rparr>)" for r using Cons.prems(2,3) by (simp add: audio_new_ok_def)
  then show ?case using Cons by (auto simp: au_ask_def Let_def split: if_splits)
qed simp

lemma configure_ok:
  assumes "configure ca a = (status, a')" and "audio_new_ok a" and "\<not> aa_unit a"
  shows "(if status = noErr then audio_ok a' \<and> \<not> aa_running a' else audio_new_ok a' \<or> audio_ok a') \<and> aa_muted a' = aa_muted a"
proof -
  let ?ps = "[EnableIO, InputFormat, OutputFormat, MaximumFramesPerSlice kMaxFrames, SetInputCallback, SetRenderCallback]"
  let ?b = "a\<lparr>aa_trace := aa_trace a @ [FindNext True, InstanceNew noErr], aa_unit := True\<rparr>"
  obtain r c where c: "set_properties ca ?ps ?b = (r, c)" by fastforce
  have "audio_new_ok ?b" using assms(2,3) by (simp add: audio_new_ok_def)
  then have ok: "audio_new_ok c \<and> aa_unit c \<and> aa_muted c = aa_muted a" using set_properties_ok [OF c] by simp
  consider "\<not> ca_find ca (aa_trace a)" | "ca_find ca (aa_trace a)" "ca_new ca (aa_trace a @ [FindNext True]) \<noteq> noErr"
    | "ca_find ca (aa_trace a)" "ca_new ca (aa_trace a @ [FindNext True]) = noErr" by blast
  then show ?thesis
  proof cases
    case 3
    then have "configure ca a = (if r \<noteq> noErr then (r, c) else au_ask Initialize (ca_initialize ca) c)"
      using c by (simp add: configure_def au_ask_def Let_def)
    then show ?thesis using assms(1) ok by (auto simp: au_ask_def Let_def audio_new_ok_def audio_ok_def split: if_splits)
  qed (use assms in \<open>auto simp: configure_def au_ask_def Let_def audio_new_ok_def split: if_splits\<close>)
qed

lemma destroy_ok:
  assumes "audio_ok a \<or> audio_new_ok a"
  shows "au_follow (ketphone_apple_audio_destroy ca (Some a)) Absent = Some Absent"
  using assms
  by (auto simp: ketphone_apple_audio_destroy_def ketphone_apple_audio_stop_def au_note_def au_ask_def audio_ok_def audio_new_ok_def Let_def
      split: if_splits)

lemma create_ok:
  assumes "ketphone_apple_audio_create ca engine_given tr = (status, r)" and "au_follow tr Absent = Some Absent"
  shows "case r of Inl a \<Rightarrow> status = noErr \<and> audio_ok a \<and> \<not> aa_running a \<and> \<not> aa_muted a
    | Inr tr' \<Rightarrow> status \<noteq> noErr \<and> au_follow tr' Absent = Some Absent"
proof -
  obtain q a where q: "configure ca (new_audio (tr @ [Calloc True])) = (q, a)" by fastforce
  have "audio_new_ok (new_audio (tr @ [Calloc True]))" using assms(2) by (simp add: audio_new_ok_def new_audio_def)
  then have "(if q = noErr then audio_ok a \<and> \<not> aa_running a else audio_new_ok a \<or> audio_ok a) \<and> \<not> aa_muted a"
    using configure_ok [OF q] by (simp add: new_audio_def)
  then show ?thesis using assms q destroy_ok [of a ca] by (auto simp: ketphone_apple_audio_create_def split: if_splits)
qed

lemma start_stop_ok:
  assumes "audio_ok a"
  shows "\<exists>b. snd (ketphone_apple_audio_start ca (Some a)) = Some b \<and> audio_ok b \<and> aa_muted b = aa_muted a"
    and "\<exists>b. snd (ketphone_apple_audio_stop ca (Some a)) = Some b \<and> audio_ok b \<and> aa_muted b = aa_muted a"
  using assms by (auto simp: ketphone_apple_audio_start_def ketphone_apple_audio_stop_def au_ask_def audio_ok_def Let_def split: if_splits)

section \<open>The callbacks\<close>

lemma length_overwrite [simp]: "length xs \<le> length old \<Longrightarrow> length (overwrite xs old) = length old"
  by (simp add: overwrite_def)

lemma take_overwrite [simp]: "take (length xs) (overwrite xs old) = xs"
  by (simp add: overwrite_def)

text \<open>
  The engine takes over samples of the microphone, or silence while muted, and never more than there are;
  a slice that does not fit the buffer is refused.
\<close>

lemma on_input_spec:
  assumes "audio_ok a" and "on_input ca n_frames a s = (status, a', s')"
  shows "audio_ok a' \<and> aa_muted a' = aa_muted a \<and> (kMaxFrames < n_frames \<longrightarrow> status \<noteq> noErr) \<and> (status \<noteq> noErr \<longrightarrow> s' = s)"
  using assms
  by (auto simp: on_input_def au_ask_def Let_def audio_ok_def ketphone_audio_capture_def split: if_splits prod.splits)

lemma on_input_silent:
  assumes "audio_ok a" and "aa_muted a" and "on_input ca n_frames a s = (noErr, a', s')"
  shows "ketphone_audio_capture (Some s) (Some (replicate n_frames 0)) = (fst (capture_samples (replicate n_frames 0) s), Some s')"
proof -
  have "n_frames \<le> kMaxFrames" using on_input_spec [OF assms(1,3)] by auto
  moreover have "take n_frames (overwrite (replicate n_frames 0) old) = replicate n_frames 0" for old
    using take_overwrite [of "replicate n_frames 0" old] by simp
  ultimately show ?thesis
    using assms by (auto simp: on_input_def au_ask_def Let_def ketphone_audio_capture_def split: if_splits prod.splits)
qed

text \<open>What is played; a slice that is marked as silence is silent.\<close>

lemma on_output_spec:
  assumes "engine_ok past sec s" and "2 * length samples = byte_size" and "on_output byte_size samples s = (played, silent, s')"
    and "q = ring_contents (playout (h_media (e_host s)))"
  shows "length played = length samples \<and> (\<exists>n. played = take n q @ replicate (length samples - n) 0 \<and> (silent \<longleftrightarrow> n = 0))"
proof -
  obtain n ys where p: "ketphone_audio_playout (Some s) (Some samples) = (n, Some ys, Some s')" "played = overwrite ys samples" "silent \<longleftrightarrow> n = 0"
    using assms(2,3) by (auto simp: on_output_def ketphone_audio_playout_def Let_def split: prod.splits)
  note f = playout_is_filled [OF assms(1) p(1) assms(4)]
  then have "played = ys" using p(2) by (simp add: overwrite_def)
  moreover have "ys = take n q @ replicate (length samples - n) 0" using f append_take_drop_id [of n ys] by metis
  ultimately show ?thesis using f p(3) by blast
qed

end
