(* ===== verification/Swift_Engine.thy ===== *)
theory Swift_Engine
  imports Apple_Audio
begin

text \<open>
  \<^verbatim>\<open>platform/apple/swift/Engine.swift\<close>: the class that applications on Apple platforms use. It turns its
  configuration into that of the C interface, results into errors and events into its own, and sets up
  the audio unit when it is first started. A Swift string is its UTF-8 text; reading a C string into
  one, which repairs what is not UTF-8, is the parameter \<^verbatim>\<open>decode\<close>. The asynchronous stream of events is
  the list of those handed to it.
\<close>

section \<open>Configuration\<close>

datatype swift_transport = UdpTransport | TlsTransport "string option" "string option"

record swift_configuration =
  serverHost :: string
  serverPort :: u16
  sc_transport :: swift_transport
  sc_extension :: string
  sc_password :: string
  registerExpires :: "u32 option"
  initialJitterBufferMilliseconds :: "u32 option"
  userAgent :: "string option"
  correlationHeader :: "string option"

fun tlsSettings :: "swift_transport \<Rightarrow> bool \<times> string option \<times> string option" where
  "tlsSettings UdpTransport = (False, None, None)"
| "tlsSettings (TlsTransport anchors name) = (True, anchors, name)"

text \<open>What the core reads of the structure: a C string ends at its first zero byte.\<close>

definition withCConfig :: "swift_configuration \<Rightarrow> ketphone_config" where
  "withCConfig c =
     (case tlsSettings (sc_transport c) of (enabled, anchors, name) \<Rightarrow>
        \<lparr>struct_size = 88, server_host = Some (c_str (serverHost c)), server_port = serverPort c,
         kc_extension = Some (c_str (sc_extension c)), kc_password = Some (c_str (sc_password c)),
         kc_register_expires = (case registerExpires c of None \<Rightarrow> 0 | Some n \<Rightarrow> n),
         jitter_buffer_ms = (case initialJitterBufferMilliseconds c of None \<Rightarrow> 0 | Some n \<Rightarrow> n),
         kc_user_agent = map_option c_str (userAgent c), kc_correlation_header = map_option c_str (correlationHeader c),
         kc_transport = (if enabled then KETPHONE_TRANSPORT_TLS else KETPHONE_TRANSPORT_UDP),
         kc_tls_trust_anchors = map_option c_str anchors, kc_tls_server_name = map_option c_str name\<rparr>)"

section \<open>Errors and events\<close>

datatype ketphone_error =
    InvalidConfiguration | InvalidArgumentError | StateError | NetworkError | NotFoundError | InternalError | AudioError int

fun check :: "ketphone_result \<Rightarrow> ketphone_error option" where
  "check KETPHONE_OK = None"
| "check KETPHONE_ERROR_INVALID_ARGUMENT = Some InvalidArgumentError"
| "check KETPHONE_ERROR_STATE = Some StateError"
| "check KETPHONE_ERROR_NETWORK = Some NetworkError"
| "check KETPHONE_ERROR_NOT_FOUND = Some NotFoundError"
| "check KETPHONE_ERROR_INTERNAL = Some InternalError"

datatype swift_end_reason =
    LocalEnd | RemoteHangUpEnd | RemoteCancelledEnd | RejectedEnd | TimeoutEnd | MediaFailedEnd | ShutdownEnd | UnknownEnd int

definition end_reason_of :: "int \<Rightarrow> swift_end_reason" where
  "end_reason_of reason =
     (if reason = 1 then LocalEnd else if reason = 2 then RemoteHangUpEnd else if reason = 3 then RemoteCancelledEnd
      else if reason = 4 then RejectedEnd else if reason = 5 then TimeoutEnd else if reason = 6 then MediaFailedEnd
      else if reason = 7 then ShutdownEnd else UnknownEnd reason)"

datatype swift_event =
    RegistrationEvent int | IncomingEvent int string string string | ProgressEvent int int | AnsweredEvent int
  | EndedEvent int swift_end_reason int

definition onEvent :: "(string \<Rightarrow> string) \<Rightarrow> ketphone_event \<Rightarrow> swift_event option" where
  "onEvent decode e =
     (if ke_kind e = 1 then Some (RegistrationEvent (ke_status_code e))
      else if ke_kind e = 2
      then Some (IncomingEvent (ke_call_id e) (decode (ke_remote e)) (decode (ke_remote_display_name e)) (decode (ke_correlation_id e)))
      else if ke_kind e = 3 then Some (ProgressEvent (ke_call_id e) (ke_status_code e))
      else if ke_kind e = 4 then Some (AnsweredEvent (ke_call_id e))
      else if ke_kind e = 5 then Some (EndedEvent (ke_call_id e) (end_reason_of (ke_end_reason e)) (ke_status_code e))
      else None)"

section \<open>The engine\<close>

record swift_engine =
  sw_handle :: engine
  sw_audio :: "apple_audio option"
  sw_trace :: au_trace
  sw_events :: "swift_event list"
  sw_finished :: bool

definition new_swift :: "engine \<Rightarrow> swift_engine" where
  "new_swift s = \<lparr>sw_handle = s, sw_audio = None, sw_trace = [], sw_events = [], sw_finished = False\<rparr>"

text \<open>The initialiser; where the core gives no engine it throws. The outer \<^term>\<open>None\<close> is that of the core.\<close>

definition swift_init ::
  "system \<Rightarrow> string \<Rightarrow> generator \<Rightarrow> generator \<Rightarrow> swift_configuration \<Rightarrow> trace \<Rightarrow> (ketphone_error + swift_engine) option" where
  "swift_init sys version g1 g2 c tr =
     map_option (\<lambda>(e, tr). case e of None \<Rightarrow> Inl InvalidConfiguration | Some s \<Rightarrow> Inr (new_swift s))
       (ketphone_engine_create sys version g1 g2 (Some (withCConfig c)) True tr)"

definition startAudio :: "core_audio \<Rightarrow> swift_engine \<Rightarrow> ketphone_error option \<times> swift_engine" where
  "startAudio ca w =
     (let begin_audio = (\<lambda>w. case ketphone_apple_audio_start ca (sw_audio w) of (status, object) \<Rightarrow>
            (if status \<noteq> 0 then Some (AudioError status) else None, w\<lparr>sw_audio := object\<rparr>))
      in case sw_audio w of
           Some a \<Rightarrow> begin_audio w
         | None \<Rightarrow>
             (case ketphone_apple_audio_create ca True (sw_trace w) of
                (status, Inr tr) \<Rightarrow> (Some (AudioError status), w\<lparr>sw_trace := tr\<rparr>)
              | (status, Inl a) \<Rightarrow> begin_audio (w\<lparr>sw_audio := Some a\<rparr>)))"

definition stopAudio :: "core_audio \<Rightarrow> swift_engine \<Rightarrow> swift_engine" where
  "stopAudio ca w = w\<lparr>sw_audio := snd (ketphone_apple_audio_stop ca (sw_audio w))\<rparr>"

definition setMuted :: "bool \<Rightarrow> swift_engine \<Rightarrow> swift_engine" where
  "setMuted muted w = w\<lparr>sw_audio := ketphone_apple_audio_set_muted muted (sw_audio w)\<rparr>"

definition yield_event :: "(string \<Rightarrow> string) \<Rightarrow> ketphone_event \<Rightarrow> swift_engine \<Rightarrow> swift_engine" where
  "yield_event decode e w = (case onEvent decode e of None \<Rightarrow> w | Some e \<Rightarrow> w\<lparr>sw_events := sw_events w @ [e]\<rparr>)"

definition swift_call :: "ketphone_result \<times> int \<Rightarrow> ketphone_error + int" where
  "swift_call r = (case check (fst r) of None \<Rightarrow> Inr (snd r) | Some e \<Rightarrow> Inl e)"

record swift_media_stats =
  packetsSent :: nat
  packetsReceived :: nat
  packetsLost :: nat
  packetsLate :: nat
  framesConcealed :: nat
  jitterMilliseconds :: real
  playoutDelayMilliseconds :: real

definition mediaStats :: "swift_engine \<Rightarrow> ketphone_error + swift_media_stats" where
  "mediaStats w =
     (case ketphone_media_stats_get (Some (sw_handle w)) (Some no_stats) of (r, out) \<Rightarrow>
        (case check r of
           Some e \<Rightarrow> Inl e
         | None \<Rightarrow> let st = the out
                   in Inr \<lparr>packetsSent = packets_sent st, packetsReceived = packets_received st, packetsLost = packets_lost st,
                        packetsLate = packets_late st, framesConcealed = frames_concealed st, jitterMilliseconds = jitter_ms st,
                        playoutDelayMilliseconds = playout_delay_ms st\<rparr>))"

text \<open>The deinitialiser; the audio object goes before the engine.\<close>

definition swift_deinit :: "core_audio \<Rightarrow> swift_engine \<Rightarrow> swift_engine" where
  "swift_deinit ca w =
     w\<lparr>sw_trace := (if sw_audio w = None then sw_trace w else ketphone_apple_audio_destroy ca (sw_audio w)), sw_audio := None,
       sw_finished := True\<rparr>"

text \<open>
  What happens to an object until it goes: calls by the application, callbacks of the audio unit and of
  the core, and whatever the other threads do with the core.
\<close>

inductive swift_moves :: "core_audio \<Rightarrow> (string \<Rightarrow> string) \<Rightarrow> swift_engine \<Rightarrow> swift_engine \<Rightarrow> bool" for ca decode where
  start_audio: "swift_moves ca decode w (snd (startAudio ca w))"
| stop_audio: "swift_moves ca decode w (stopAudio ca w)"
| set_muted: "swift_moves ca decode w (setMuted muted w)"
| microphone: "sw_audio w = Some a \<Longrightarrow> on_input ca n a (sw_handle w) = (status, a', s) \<Longrightarrow>
    swift_moves ca decode w (w\<lparr>sw_audio := Some a', sw_handle := s\<rparr>)"
| speaker: "sw_audio w = Some a \<Longrightarrow> on_output n samples (sw_handle w) = (played, silent, s) \<Longrightarrow>
    swift_moves ca decode w (w\<lparr>sw_handle := s\<rparr>)"
| told: "swift_moves ca decode w (yield_event decode e w)"
| core: "swift_moves ca decode w (w\<lparr>sw_handle := s\<rparr>)"

section \<open>What the class does\<close>

text \<open>Every event of the core has its counterpart, and no call ends for a reason unknown.\<close>

lemma onEvent_of_core:
  "onEvent decode (to_c_event e) =
     Some (case ev_kind e of
       Registration \<Rightarrow> RegistrationEvent (ev_status e)
     | CallIncoming \<Rightarrow> IncomingEvent (ev_call_id e) (decode (c_str (ev_remote e))) (decode (c_str (ev_display_name e)))
         (decode (c_str (ev_correlation_id e)))
     | CallProgress \<Rightarrow> ProgressEvent (ev_call_id e) (ev_status e)
     | CallAnswered \<Rightarrow> AnsweredEvent (ev_call_id e)
     | CallEnded \<Rightarrow> EndedEvent (ev_call_id e) (end_reason_of (to_c (ev_end_reason e))) (ev_status e))"
  by (cases "ev_kind e") (simp_all add: onEvent_def to_c_event_def)

lemma end_reason_known: "r \<noteq> NoReason \<Longrightarrow> end_reason_of (to_c r) \<noteq> UnknownEnd n"
  by (cases r) (simp_all add: end_reason_of_def)

lemma end_reason_inj: "end_reason_of (to_c r) = end_reason_of (to_c r') \<Longrightarrow> r = r'"
  by (cases r; cases r') (simp_all add: end_reason_of_def)

text \<open>The structure is complete: the core reads it as it is, and never a torn pointer.\<close>

lemma swift_config_complete: "full_config (withCConfig c) = withCConfig c \<and> \<not> torn (withCConfig c)"
  by (auto simp: full_config_def withCConfig_def torn_def Let_def split: prod.splits)

lemma swift_init_defined: "swift_init sys version g1 g2 c tr \<noteq> None"
  using swift_config_complete [of c]
  by (simp add: swift_init_def ketphone_engine_create_def)

section \<open>The audio unit in every run\<close>

definition unit_ok :: "swift_engine \<Rightarrow> bool" where
  "unit_ok w \<longleftrightarrow> (case sw_audio w of Some a \<Rightarrow> audio_ok a | None \<Rightarrow> au_follow (sw_trace w) Absent = Some Absent)"

lemma startAudio_cases:
  obtains (failed) status tr where "sw_audio w = None" "ketphone_apple_audio_create ca True (sw_trace w) = (status, Inr tr)"
      "startAudio ca w = (Some (AudioError status), w\<lparr>sw_trace := tr\<rparr>)"
  | (started) a v status b where "sw_audio v = Some a" "v = w \<or> (\<exists>st. sw_audio w = None \<and> v = w\<lparr>sw_audio := Some a\<rparr> \<and>
      ketphone_apple_audio_create ca True (sw_trace w) = (st, Inl a))"
      "ketphone_apple_audio_start ca (Some a) = (status, b)"
      "startAudio ca w = (if status \<noteq> 0 then Some (AudioError status) else None, v\<lparr>sw_audio := b\<rparr>)"
proof (cases "sw_audio w")
  case None
  obtain st r where r: "ketphone_apple_audio_create ca True (sw_trace w) = (st, r)" by fastforce
  show ?thesis
  proof (cases r)
    case (Inl a)
    obtain status b where "ketphone_apple_audio_start ca (Some a) = (status, b)" by fastforce
    then show ?thesis using None r Inl started [of "w\<lparr>sw_audio := Some a\<rparr>" a status b] by (simp add: startAudio_def Let_def)
  next
    case (Inr tr)
    then show ?thesis using None r failed by (simp add: startAudio_def Let_def)
  qed
next
  case (Some a)
  obtain status b where "ketphone_apple_audio_start ca (Some a) = (status, b)" by fastforce
  then show ?thesis using Some started [of w a status b] by (simp add: startAudio_def Let_def)
qed

lemma startAudio_ok:
  assumes "unit_ok w"
  shows "unit_ok (snd (startAudio ca w))"
  using startAudio_cases [of w ca]
proof cases
  case (failed status tr)
  then show ?thesis using create_ok [OF failed(2)] assms by (simp add: unit_ok_def)
next
  case (started a v status b)
  have "audio_ok a" using started(1,2) assms create_ok by (fastforce simp: unit_ok_def)
  then show ?thesis using start_stop_ok(1) [of a ca] started by (auto simp: unit_ok_def)
qed

lemma unit_ok_moves:
  assumes "unit_ok w" and "swift_moves ca decode w w'"
  shows "unit_ok w'"
  using assms(2)
proof cases
  case start_audio
  then show ?thesis using startAudio_ok [OF assms(1)] by simp
next
  case stop_audio
  show ?thesis
  proof (cases "sw_audio w")
    case (Some a)
    then show ?thesis using start_stop_ok(2) [of a ca] assms(1) stop_audio by (auto simp: unit_ok_def stopAudio_def)
  qed (use stop_audio assms(1) in \<open>simp add: unit_ok_def stopAudio_def ketphone_apple_audio_stop_def\<close>)
next
  case (set_muted muted)
  then show ?thesis
    using assms(1) by (auto simp: unit_ok_def setMuted_def ketphone_apple_audio_set_muted_def audio_ok_def split: option.splits)
next
  case (microphone a n status a' s)
  then show ?thesis using on_input_spec [OF _ microphone(3)] assms(1) by (simp add: unit_ok_def)
qed (use assms(1) in \<open>auto simp: unit_ok_def yield_event_def split: option.splits\<close>)

lemma unit_ok_runs: "(swift_moves ca decode)\<^sup>*\<^sup>* (new_swift s) w \<Longrightarrow> unit_ok w"
  by (induction rule: rtranclp_induct) (simp add: unit_ok_def new_swift_def, rule unit_ok_moves)

text \<open>Muting an engine whose audio was never started is forgotten when it is.\<close>

lemma mute_before_start_is_lost:
  assumes "sw_audio w = None" and "startAudio ca (setMuted True w) = (None, w')" and "unit_ok w"
  shows "\<exists>a. sw_audio w' = Some a \<and> \<not> aa_muted a"
proof -
  have "setMuted True w = w" using assms(1) by (simp add: setMuted_def ketphone_apple_audio_set_muted_def)
  with assms(2) have w': "startAudio ca w = (None, w')" by simp
  show ?thesis
    using startAudio_cases [of w ca]
  proof cases
    case (started a v status b)
    then have "audio_ok a \<and> \<not> aa_muted a" using assms(1,3) create_ok by (fastforce simp: unit_ok_def)
    then show ?thesis using start_stop_ok(1) [of a ca] started w' by (auto split: if_splits)
  qed (use w' in simp)
qed

section \<open>Guarantees\<close>

lemma muted_stays:
  assumes "unit_ok w" and "sw_audio w = Some a" and "aa_muted a" and "swift_moves ca decode w w'"
  shows "(\<exists>b. sw_audio w' = Some b \<and> aa_muted b) \<or> w' = setMuted False w"
proof -
  have a: "audio_ok a" using assms(1,2) by (simp add: unit_ok_def)
  show ?thesis
    using assms(4)
  proof cases
    case start_audio
    then show ?thesis
      using start_stop_ok(1) [OF a, of ca] assms(2,3) by (cases rule: startAudio_cases [of w ca]) auto
  next
    case stop_audio
    then show ?thesis using start_stop_ok(2) [OF a, of ca] assms(2,3) by (auto simp: stopAudio_def)
  next
    case (set_muted muted)
    then show ?thesis using assms(2) by (cases muted) (auto simp: setMuted_def ketphone_apple_audio_set_muted_def)
  next
    case (microphone b n status a' s)
    then show ?thesis using on_input_spec [OF a, of ca n "sw_handle w"] assms(2,3) by auto
  qed (use assms(2,3) in \<open>auto simp: yield_event_def split: option.splits\<close>)
qed

text \<open>Core Audio that refuses nothing, with noise from the microphone, and an engine whose audio was started and muted.\<close>

definition demo_audio :: core_audio where
  "demo_audio =
     \<lparr>ca_calloc = (\<lambda>tr. True), ca_find = (\<lambda>tr. True), ca_new = (\<lambda>tr. 0), ca_set = (\<lambda>tr p. 0), ca_initialize = (\<lambda>tr. 0),
      ca_start = (\<lambda>tr. 0), ca_stop = (\<lambda>tr. 0), ca_render = (\<lambda>tr n. (0, replicate n 77))\<rparr>"

definition demo_muted :: swift_engine where
  "demo_muted = setMuted True (snd (startAudio demo_audio (new_swift (demo_engine 0))))"

lemma demo_muted_runs: "(swift_moves demo_audio id)\<^sup>*\<^sup>* (new_swift (demo_engine 0)) demo_muted"
  unfolding demo_muted_def
  by (rule rtranclp.rtrancl_into_rtrancl [OF r_into_rtranclp [of "swift_moves demo_audio id", OF swift_moves.start_audio] swift_moves.set_muted])

lemma demo_muted_eq: "\<exists>a. sw_audio demo_muted = Some a \<and> aa_muted a \<and> aa_running a"
  by (simp add: demo_muted_def startAudio_def setMuted_def new_swift_def ketphone_apple_audio_create_def demo_audio_def configure_def
      au_ask_def new_audio_def ketphone_apple_audio_start_def ketphone_apple_audio_set_muted_def Let_def)



text \<open>
  C15: A muted microphone is silent. While the audio of an engine is muted, every slice of the microphone
  reaches the core as if it were silence; and it stays muted, through stops and starts, until it is
  unmuted. (Muting before audio was ever started has no effect.)
\<close>

theorem muted_microphone_is_silent:
  assumes "(swift_moves ca decode)\<^sup>*\<^sup>* (new_swift s) w" and "sw_audio w = Some a" and "aa_muted a"
  shows "(\<forall>n a' s'. on_input ca n a (sw_handle w) = (0, a', s') \<longrightarrow> s' = snd (capture_samples (replicate n 0) (sw_handle w))) \<and>
    (\<forall>w'. swift_moves ca decode w w' \<longrightarrow> (\<exists>b. sw_audio w' = Some b \<and> aa_muted b) \<or> w' = setMuted False w)"
proof -
  have ok: "unit_ok w" by (rule unit_ok_runs [OF assms(1)])
  then have a: "audio_ok a" using assms(2) by (simp add: unit_ok_def)
  have "s' = snd (capture_samples (replicate n 0) (sw_handle w))" if "on_input ca n a (sw_handle w) = (0, a', s')" for n a' s'
    using on_input_silent [OF a assms(3) that] by (auto simp: ketphone_audio_capture_def split: prod.splits)
  then show ?thesis using muted_stays [OF ok assms(2,3)] by blast
qed

theorem muted_microphone_is_silent_witness:
  "\<exists>a a' s'. sw_audio demo_muted = Some a \<and> aa_running a \<and> on_input demo_audio 160 a (demo_engine 0) = (0, a', s') \<and>
     s' = snd (capture_samples (replicate 160 0) (demo_engine 0))"
proof -
  obtain a where a: "sw_audio demo_muted = Some a" "aa_muted a" "aa_running a" using demo_muted_eq by blast
  have h: "sw_handle demo_muted = demo_engine 0"
    by (simp add: demo_muted_def startAudio_def setMuted_def new_swift_def split: prod.splits sum.splits)
  obtain a' s' where "on_input demo_audio 160 a (demo_engine 0) = (0, a', s')"
    by (simp add: on_input_def demo_audio_def au_ask_def Let_def)
  then show ?thesis using muted_microphone_is_silent [OF demo_muted_runs a(1,2)] a h by auto
qed

end
