(* ===== verification/Poc.thy ===== *)
theory Poc
  imports C_Interface
begin

text \<open>
  \<^verbatim>\<open>tools/ketphone-poc/main.cpp\<close>: the tool that drives the core through its C interface, calls an echo
  test and measures how long bursts of a tone take to come back. Its options, its simulated audio device
  and the course of a call are modelled; what it prints is not.
\<close>

section \<open>Options\<close>

record poc_options =
  po_server :: string
  po_port :: u16
  po_tls :: bool
  po_trust_anchors :: string
  po_server_name :: string
  po_user :: string
  po_call :: string
  po_answer :: bool
  po_seconds :: int
  po_jitter_ms :: u32
  po_correlation_header :: string

definition default_options :: poc_options where
  "default_options =
     \<lparr>po_server = ''127.0.0.1'', po_port = 0, po_tls = False, po_trust_anchors = [], po_server_name = [], po_user = [], po_call = [],
      po_answer = False, po_seconds = 10, po_jitter_ms = 60, po_correlation_header = ''X-KV-Call-Id''\<rparr>"

text \<open>\<^verbatim>\<open>atoi\<close>: blanks, a sign, digits. Its behaviour is undefined if the value does not fit, which is \<^term>\<open>None\<close>.\<close>

definition is_c_space :: "char \<Rightarrow> bool" where
  "is_c_space c \<longleftrightarrow> c = CHR '' '' \<or> 9 \<le> (of_char c :: nat) \<and> (of_char c :: nat) \<le> 13"

definition is_c_digit :: "char \<Rightarrow> bool" where
  "is_c_digit c \<longleftrightarrow> 48 \<le> (of_char c :: nat) \<and> (of_char c :: nat) \<le> 57"

definition digits_value :: "string \<Rightarrow> int" where
  "digits_value ds = fold (\<lambda>c n. 10 * n + (of_char c - 48)) (takeWhile is_c_digit ds) 0"

definition atoi :: "string \<Rightarrow> int option" where
  "atoi s =
     (let s = dropWhile is_c_space s;
          v = (case s of
                 c # cs \<Rightarrow> if c = CHR ''-'' then - digits_value cs else if c = CHR ''+'' then digits_value cs else digits_value s
               | [] \<Rightarrow> 0)
      in if - (2 ^ 31) \<le> v \<and> v < 2 ^ 31 then Some v else None)"

text \<open>
  The result of an argument with its value: undefined behaviour, options that are refused, or the options.
  Files are read by a parameter, which gives nothing if a file cannot be read.
\<close>

definition set_server :: "string \<Rightarrow> poc_options \<Rightarrow> poc_options option" where
  "set_server v opts =
     (let host = takeWhile (\<lambda>c. c \<noteq> CHR '':'') v;
          opts = opts\<lparr>po_server := host\<rparr>
      in if length host = length v then Some opts
         else map_option (\<lambda>n. opts\<lparr>po_port := word_of_int n\<rparr>) (atoi (drop (length host + 1) v)))"

definition set_option :: "(string \<Rightarrow> string option) \<Rightarrow> string \<Rightarrow> string \<Rightarrow> poc_options \<Rightarrow> poc_options option option" where
  "set_option read_file arg v opts =
     (if arg = ''--server'' then map_option Some (set_server v opts)
      else if arg = ''--user'' then Some (Some (opts\<lparr>po_user := v\<rparr>))
      else if arg = ''--call'' then Some (Some (opts\<lparr>po_call := v\<rparr>))
      else if arg = ''--seconds'' then map_option (\<lambda>n. Some (opts\<lparr>po_seconds := max 1 n\<rparr>)) (atoi v)
      else if arg = ''--jitter-ms'' then map_option (\<lambda>n. Some (opts\<lparr>po_jitter_ms := word_of_int (max 20 n)\<rparr>)) (atoi v)
      else if arg = ''--correlation-header'' then Some (Some (opts\<lparr>po_correlation_header := v\<rparr>))
      else if arg = ''--ca'' then Some (map_option (\<lambda>pem. opts\<lparr>po_trust_anchors := pem\<rparr>) (read_file v))
      else if arg = ''--server-name'' then Some (Some (opts\<lparr>po_server_name := v\<rparr>))
      else Some None)"

fun parse_arguments :: "(string \<Rightarrow> string option) \<Rightarrow> string list \<Rightarrow> poc_options \<Rightarrow> poc_options option option" where
  "parse_arguments read_file [] opts = Some (Some opts)"
| "parse_arguments read_file (arg # args) opts =
     (if arg = ''--answer'' then parse_arguments read_file args (opts\<lparr>po_answer := True\<rparr>)
      else if arg = ''--tls'' then parse_arguments read_file args (opts\<lparr>po_tls := True\<rparr>)
      else case args of
        [] \<Rightarrow> Some None
      | v # later \<Rightarrow>
          (case set_option read_file arg v opts of
             Some (Some opts) \<Rightarrow> parse_arguments read_file later opts
           | r \<Rightarrow> r))"

definition options_usable :: "poc_options \<Rightarrow> bool" where
  "options_usable opts \<longleftrightarrow>
     \<not> (po_user opts = [] \<or> (po_call opts = []) = (\<not> po_answer opts)) \<and>
     \<not> (\<not> po_tls opts \<and> (po_trust_anchors opts \<noteq> [] \<or> po_server_name opts \<noteq> []))"

definition parse_options :: "(string \<Rightarrow> string option) \<Rightarrow> string list \<Rightarrow> poc_options option option" where
  "parse_options read_file args =
     (case parse_arguments read_file args default_options of
        Some (Some opts) \<Rightarrow> Some (if options_usable opts then Some opts else None)
      | r \<Rightarrow> r)"

text \<open>The configuration for the core.\<close>

definition poc_config :: "poc_options \<Rightarrow> string \<Rightarrow> ketphone_config" where
  "poc_config opts secret =
     \<lparr>struct_size = 88, server_host = Some (c_str (po_server opts)), server_port = po_port opts, kc_extension = Some (c_str (po_user opts)),
      kc_password = Some secret, kc_register_expires = 120, jitter_buffer_ms = po_jitter_ms opts,
      kc_user_agent = Some ''ketphone-poc'', kc_correlation_header = Some (c_str (po_correlation_header opts)),
      kc_transport = (if po_tls opts then KETPHONE_TRANSPORT_TLS else KETPHONE_TRANSPORT_UDP),
      kc_tls_trust_anchors = (if po_tls opts \<and> po_trust_anchors opts \<noteq> [] then Some (c_str (po_trust_anchors opts)) else None),
      kc_tls_server_name = (if po_tls opts \<and> po_server_name opts \<noteq> [] then Some (c_str (po_server_name opts)) else None)\<rparr>"

section \<open>The audio device\<close>

abbreviation (input) kPocFrame :: nat where "kPocFrame \<equiv> 160"
abbreviation (input) kBurstPeriod :: int where "kBurstPeriod \<equiv> 4000"
abbreviation (input) kBurstLength :: int where "kBurstLength \<equiv> 480"
abbreviation (input) kDetectThreshold :: int where "kDetectThreshold \<equiv> 2500"
abbreviation (input) kQuietBeforeOnset :: int where "kQuietBeforeOnset \<equiv> 1600"

text \<open>Delays are kept in milliseconds. The samples of the tone within a burst are a parameter.\<close>

record audio_device =
  ad_sample :: int
  ad_last_loud :: int
  ad_onsets :: "int list"
  ad_delays :: "real list"

definition new_device :: audio_device where
  "new_device = \<lparr>ad_sample = 0, ad_last_loud = - 8000, ad_onsets = [], ad_delays = []\<rparr>"

definition tone :: "(int \<Rightarrow> int) \<Rightarrow> int \<Rightarrow> audio_device \<Rightarrow> int \<times> audio_device" where
  "tone wave sample d =
     (let phase = sample mod kBurstPeriod;
          d = (if phase = 0 then d\<lparr>ad_onsets := ad_onsets d @ [sample]\<rparr> else d)
      in (if phase \<ge> kBurstLength then 0 else wave phase, d))"

text \<open>A frame of the tone, sample by sample.\<close>

fun tones :: "(int \<Rightarrow> int) \<Rightarrow> int \<Rightarrow> nat \<Rightarrow> audio_device \<Rightarrow> int list \<times> audio_device" where
  "tones wave sample 0 d = ([], d)"
| "tones wave sample (Suc n) d =
     (case tone wave sample d of (x, d) \<Rightarrow> case tones wave (sample + 1) n d of (xs, d) \<Rightarrow> (x # xs, d))"

definition detect_sample :: "int \<Rightarrow> int \<Rightarrow> audio_device \<Rightarrow> audio_device" where
  "detect_sample at_sample x d =
     (if \<bar>x\<bar> < kDetectThreshold then d
      else let sent = takeWhile (\<lambda>s. s \<le> at_sample) (ad_onsets d);
               d = (if at_sample - ad_last_loud d \<ge> kQuietBeforeOnset \<and> sent \<noteq> []
                    then d\<lparr>ad_delays := ad_delays d @ [real_of_int (at_sample - last sent) * 1000 / 8000]\<rparr> else d)
           in d\<lparr>ad_last_loud := at_sample\<rparr>)"

fun detect :: "int \<Rightarrow> int list \<Rightarrow> audio_device \<Rightarrow> audio_device" where
  "detect at_sample [] d = d"
| "detect at_sample (x # xs) d = detect (at_sample + 1) xs (detect_sample at_sample x d)"

text \<open>A pass of the device: what it plays is given, what it captures is returned.\<close>

definition device_frame :: "(int \<Rightarrow> int) \<Rightarrow> bool \<Rightarrow> int list \<Rightarrow> audio_device \<Rightarrow> int list \<times> audio_device" where
  "device_frame wave loopback speaker d =
     (case (if loopback then (speaker, d)
            else case tones wave (ad_sample d) kPocFrame d of (microphone, d) \<Rightarrow> (microphone, detect (ad_sample d) speaker d)) of
        (microphone, d) \<Rightarrow> (microphone, d\<lparr>ad_sample := ad_sample d + int kPocFrame\<rparr>))"

definition device_pass :: "(int \<Rightarrow> int) \<Rightarrow> bool \<Rightarrow> audio_device \<times> engine \<Rightarrow> audio_device \<times> engine" where
  "device_pass wave loopback x =
     (case ketphone_audio_playout (Some (snd x)) (Some (replicate kPocFrame 0)) of (n, speaker, s) \<Rightarrow>
        case device_frame wave loopback (the speaker) (fst x) of (microphone, d) \<Rightarrow>
          (d, the (snd (ketphone_audio_capture s (Some microphone)))))"

text \<open>An IPv6 address as the server is cut at its first colon; nothing is left of this one.\<close>

lemma ipv6_server_is_cut: "set_server ''::1'' opts = Some (opts\<lparr>po_server := [], po_port := 0\<rparr>)"
  by (simp add: set_server_def atoi_def is_c_space_def digits_value_def is_c_digit_def)

section \<open>The measurement\<close>

text \<open>What a far end that plays back what it hears gives after a delay of \<^term>\<open>D\<close> samples.\<close>

definition burst :: "(int \<Rightarrow> int) \<Rightarrow> int \<Rightarrow> int" where
  "burst wave t = (if t mod kBurstPeriod \<ge> kBurstLength then 0 else wave (t mod kBurstPeriod))"

definition echo :: "(int \<Rightarrow> int) \<Rightarrow> int \<Rightarrow> int \<Rightarrow> int" where
  "echo wave D t = (if t < D then 0 else burst wave (t - D))"

definition echo_frame :: "(int \<Rightarrow> int) \<Rightarrow> int \<Rightarrow> int \<Rightarrow> int list" where
  "echo_frame wave D t = map (echo wave D) [t..t + 159]"

text \<open>The device with this far end, over a number of frames.\<close>

fun measured :: "(int \<Rightarrow> int) \<Rightarrow> int \<Rightarrow> nat \<Rightarrow> audio_device" where
  "measured wave D 0 = new_device"
| "measured wave D (Suc k) = (let d = measured wave D k in snd (device_frame wave False (echo_frame wave D (ad_sample d)) d))"

text \<open>A tone that is quiet in its first sample and loud in its second.\<close>

definition sharp :: "(int \<Rightarrow> int) \<Rightarrow> bool" where
  "sharp wave \<longleftrightarrow> \<bar>wave 0\<bar> < kDetectThreshold \<and> kDetectThreshold \<le> \<bar>wave 1\<bar>"

text \<open>The onsets of the bursts before a time.\<close>

definition onsets_before :: "int \<Rightarrow> int list" where
  "onsets_before t = map (\<lambda>j. 4000 * j) [0..(t - 1) div 4000]"

lemma div_4000: "t = 4000 * q + r \<Longrightarrow> 0 \<le> r \<Longrightarrow> r < 4000 \<Longrightarrow> t div 4000 = q \<and> t mod 4000 = r" for t q r :: int
  using int_div_pos_eq [of t 4000 q r] int_mod_pos_eq [of t 4000 q r] by simp

lemma onsets_before_step: "0 \<le> t \<Longrightarrow> onsets_before (t + 1) = onsets_before t @ (if t mod 4000 = 0 then [t] else [])"
proof -
  assume t: "0 \<le> t"
  have e: "t = 4000 * (t div 4000) + t mod 4000" by simp
  have r: "0 \<le> t mod 4000" "t mod 4000 < 4000" by simp_all
  show ?thesis
  proof (cases "t mod 4000 = 0")
    case True
    then have "(t - 1) div 4000 = t div 4000 - 1" using div_4000 [of "t - 1" "t div 4000 - 1" 3999] e by linarith
    then show ?thesis using t e True upto_rec2 [of 0 "t div 4000"] by (simp add: onsets_before_def)
  next
    case False
    then have "(t - 1) div 4000 = t div 4000" using div_4000 [of "t - 1" "t div 4000" "t mod 4000 - 1"] e r by linarith
    then show ?thesis using False by (simp add: onsets_before_def)
  qed
qed

lemma tones_spec:
  "0 \<le> t \<Longrightarrow> ad_onsets d = onsets_before t \<Longrightarrow>
   tones wave t n d = (map (burst wave) [t..t + int n - 1], d\<lparr>ad_onsets := onsets_before (t + int n)\<rparr>)"
proof (induction n arbitrary: t d)
  case (Suc n)
  let ?d = "d\<lparr>ad_onsets := onsets_before (t + 1)\<rparr>"
  have "tone wave t d = (burst wave t, ?d)" using Suc.prems by (simp add: tone_def burst_def onsets_before_step Let_def)
  moreover have "tones wave (t + 1) n ?d = (map (burst wave) [t + 1..t + int n], ?d\<lparr>ad_onsets := onsets_before (t + 1 + int n)\<rparr>)"
    using Suc.IH [of "t + 1" ?d] Suc.prems by (simp add: add.commute add.left_commute)
  ultimately show ?case using upto_rec1 [of t "t + int n"] by (simp add: algebra_simps)
qed simp

lemma last_onset:
  assumes "0 \<le> t" and "t < e"
  shows "takeWhile (\<lambda>s. s \<le> t) (onsets_before e) = onsets_before (t + 1) \<and> onsets_before (t + 1) \<noteq> [] \<and> last (onsets_before (t + 1)) = 4000 * (t div 4000)"
proof -
  let ?j = "t div 4000" and ?k = "(e - 1) div 4000"
  have j: "0 \<le> ?j" "?j \<le> ?k" using assms by (simp_all add: zdiv_mono1)
  then have "[0..?k] = [0..?j] @ [?j + 1..?k]" using upto_split2 [of 0 ?j ?k] by simp
  moreover have "takeWhile (\<lambda>s. s \<le> t) (map ((*) 4000) [0..?j] @ map ((*) 4000) [?j + 1..?k]) = map ((*) 4000) [0..?j]"
  proof -
    have "\<forall>s \<in> set (map ((*) 4000) [0..?j]). s \<le> t" using assms by auto
    moreover have "takeWhile (\<lambda>s. s \<le> t) (map ((*) 4000) [?j + 1..?k]) = []"
      by (cases "[?j + 1..?k]") (auto simp: upto.simps split: if_splits)
    ultimately show ?thesis
      using takeWhile_append2 [of "map ((*) 4000) [0..?j]" "\<lambda>s. s \<le> t" "map ((*) 4000) [?j + 1..?k]"] by (metis append_Nil2)
  qed
  ultimately show ?thesis using j upto_rec2 [of 0 ?j] by (simp add: onsets_before_def)
qed

text \<open>
  What the detector knows before the sample at time \<^term>\<open>t\<close>: the last loud sample was in the burst that is
  coming in or in the one before it, and every burst that has come in gave its delay.
\<close>

definition heard :: "int \<Rightarrow> int \<Rightarrow> nat" where
  "heard D t = nat ((t + 3998 - D) div 4000)"

definition follows :: "int \<Rightarrow> int \<Rightarrow> audio_device \<Rightarrow> bool" where
  "follows D t d \<longleftrightarrow> ad_delays d = replicate (heard D t) (real_of_int (D + 1) / 8) \<and>
     (if t \<le> D + 1 then ad_last_loud d = - 8000
      else let start = D + 4000 * ((t - D - 2) div 4000) in start < ad_last_loud d \<and> ad_last_loud d < start + 480)"

lemma follows_update [simp]:
  "follows D t (d\<lparr>ad_onsets := os\<rparr>) = follows D t d" "follows D t (d\<lparr>ad_sample := n\<rparr>) = follows D t d"
  by (simp_all add: follows_def)

lemma follows_at:
  assumes "0 \<le> q" and "0 \<le> r" and "r < 4000"
  shows "follows D (D + 4000 * q + r) d \<longleftrightarrow>
    ad_delays d = replicate (nat (if r \<le> 1 then q else q + 1)) (real_of_int (D + 1) / 8) \<and>
    (if q = 0 \<and> r \<le> 1 then ad_last_loud d = - 8000
     else let start = D + 4000 * (if r \<le> 1 then q - 1 else q) in start < ad_last_loud d \<and> ad_last_loud d < start + 480)"
proof -
  let ?t = "D + 4000 * q + r"
  have "(?t + 3998 - D) div 4000 = (if r \<le> 1 then q else q + 1)"
    using div_4000 [of "?t + 3998 - D" q "r + 3998"] div_4000 [of "?t + 3998 - D" "q + 1" "r - 2"] assms by (cases "r \<le> 1") auto
  moreover have "(?t - D - 2) div 4000 = (if r \<le> 1 then q - 1 else q)"
    using div_4000 [of "?t - D - 2" "q - 1" "r + 3998"] div_4000 [of "?t - D - 2" q "r - 2"] assms by (cases "r \<le> 1") auto
  moreover have "?t \<le> D + 1 \<longleftrightarrow> q = 0 \<and> r \<le> 1" using assms by auto
  ultimately show ?thesis unfolding follows_def heard_def by simp
qed

lemma follows_early: "D - 3998 \<le> t \<Longrightarrow> t \<le> D + 1 \<Longrightarrow> follows D t d \<longleftrightarrow> ad_delays d = [] \<and> ad_last_loud d = - 8000"
  using div_4000 [of "t + 3998 - D" 0 "t + 3998 - D"] by (simp add: follows_def heard_def)

lemma detect_quiet: "\<bar>x\<bar> < 2500 \<Longrightarrow> detect_sample t x d = d"
  by (simp add: detect_sample_def)

lemma follows_step:
  assumes "sharp wave" and "0 \<le> D" and "D + 1 < 4000" and "0 \<le> t" and "t < e" and "ad_onsets d = onsets_before e" and "follows D t d"
  shows "follows D (t + 1) (detect_sample t (echo wave D t) d)"
proof (cases "t < D")
  case True
  then show ?thesis using assms(3,4,7) by (simp add: echo_def detect_quiet follows_early)
next
  case False
  define q r where "q = (t - D) div 4000" and "r = (t - D) mod 4000"
  have t: "t = D + 4000 * q + r" "0 \<le> q" "0 \<le> r" "r < 4000" using False by (auto simp: q_def r_def)
  have x: "echo wave D t = (if r \<ge> 480 then 0 else wave r)" using False by (simp add: echo_def burst_def r_def)
  note old = assms(7) [unfolded t(1) follows_at [OF t(2-4)]]
  consider "r = 0" | "r = 1" | "2 \<le> r" using t by linarith
  then show ?thesis
  proof cases
    case 1
    then have "detect_sample t (echo wave D t) d = d" using x assms(1) by (simp add: detect_quiet sharp_def)
    moreover have "follows D (D + 4000 * q + 1) d" using old t 1 by (subst follows_at) (auto simp: Let_def)
    ultimately show ?thesis using t(1) 1 by simp
  next
    case 2
    let ?d = "detect_sample t (echo wave D t) d"
    have "t div 4000 = q" using div_4000 [of t q "D + 1"] t(1) 2 assms(2,3) by simp
    then have "last (takeWhile (\<lambda>s. s \<le> t) (ad_onsets d)) = 4000 * q" "takeWhile (\<lambda>s. s \<le> t) (ad_onsets d) \<noteq> []"
      using last_onset [OF assms(4,5)] assms(6) by simp_all
    moreover have "1600 \<le> t - ad_last_loud d" using old t(1,2) 2 assms(2) by (auto simp: Let_def split: if_splits)
    moreover have "\<not> \<bar>echo wave D t\<bar> < 2500" using x 2 assms(1) by (simp add: sharp_def)
    ultimately have d: "ad_delays ?d = ad_delays d @ [real_of_int (D + 1) / 8]" "ad_last_loud ?d = t"
      using t(1) 2 by (simp_all add: detect_sample_def Let_def)
    have "t + 1 = D + 4000 * q + 2" using t(1) 2 by simp
    moreover have "follows D (D + 4000 * q + 2) ?d"
      using old d t 2 by (subst follows_at) (auto simp: Let_def nat_add_distrib replicate_append_same)
    ultimately show ?thesis by (simp only:)
  next
    case 3
    let ?d = "detect_sample t (echo wave D t) d"
    have d: "ad_delays ?d = ad_delays d" "ad_last_loud ?d = ad_last_loud d \<or> r < 480 \<and> ad_last_loud ?d = t"
      using old x 3 t by (auto simp: detect_sample_def Let_def split: if_splits)
    have "t + 1 = (if r < 3999 then D + 4000 * q + (r + 1) else D + 4000 * (q + 1) + 0)" using t by auto
    moreover have "follows D (D + 4000 * q + (r + 1)) ?d" if "r < 3999"
      using old d t 3 that by (subst follows_at) (auto simp: Let_def)
    moreover have "follows D (D + 4000 * (q + 1) + 0) ?d" if "\<not> r < 3999"
      using old d t 3 that by (subst follows_at) (auto simp: Let_def)
    ultimately show ?thesis by (cases "r < 3999") (simp_all only: if_True if_False not_False_eq_True)
  qed
qed

lemma detect_onsets [simp]: "ad_onsets (detect_sample t x d) = ad_onsets d" "ad_sample (detect_sample t x d) = ad_sample d"
  by (simp_all add: detect_sample_def Let_def)

lemma follows_frame:
  assumes "sharp wave" and "0 \<le> D" and "D + 1 < 4000" and "0 \<le> t" and "t + int n \<le> e" and "ad_onsets d = onsets_before e" and "follows D t d"
  shows "let d' = detect t (map (echo wave D) [t..t + int n - 1]) d
    in follows D (t + int n) d' \<and> ad_onsets d' = onsets_before e \<and> ad_sample d' = ad_sample d"
  using assms(4-7)
proof (induction n arbitrary: t d)
  case (Suc n)
  let ?d = "detect_sample t (echo wave D t) d"
  have "[t..t + int (Suc n) - 1] = t # [t + 1..t + 1 + int n - 1]" using upto_rec1 [of t "t + int n"] by simp
  moreover have "follows D (t + 1) ?d" using follows_step [OF assms(1-3), of t e d] Suc.prems by simp
  ultimately show ?case using Suc.IH [of "t + 1" ?d] Suc.prems by (simp add: Let_def add.commute add.left_commute)
qed simp

lemma measure_follows:
  assumes "sharp wave" and "0 \<le> D" and "D + 1 < 4000"
  shows "let d = measured wave D k
    in follows D (160 * int k) d \<and> ad_onsets d = onsets_before (160 * int k) \<and> ad_sample d = 160 * int k"
proof (induction k)
  case 0
  show ?case using assms(2,3) by (simp add: new_device_def onsets_before_def follows_early)
next
  case (Suc k)
  let ?d = "measured wave D k" and ?t = "160 * int k"
  let ?e = "?d\<lparr>ad_onsets := onsets_before (?t + 160)\<rparr>"
  have "tones wave ?t 160 ?d = (map (burst wave) [?t..?t + 159], ?e)" using tones_spec [of ?t ?d wave 160] Suc.IH by (simp add: Let_def add.commute)
  then have "measured wave D (Suc k) = (detect ?t (echo_frame wave D ?t) ?e)\<lparr>ad_sample := ad_sample (detect ?t (echo_frame wave D ?t) ?e) + 160\<rparr>"
    using Suc.IH by (simp add: device_frame_def Let_def)
  moreover have "follows D ?t ?e" using Suc.IH by (simp add: Let_def)
  moreover note follows_frame [OF assms, of ?t 160 "?t + 160" ?e]
  ultimately show ?case using Suc.IH by (simp add: Let_def echo_frame_def algebra_simps)
qed

text \<open>
  The tool measures what it is there for: with a far end that plays back what it hears after a delay of less
  than half a second, it gets one delay for every burst that has come back, and each is that delay, one
  sample more for the rise of the tone.
\<close>

theorem echo_delay_is_measured:
  assumes "sharp wave" and "0 \<le> D" and "D + 1 < 4000"
  shows "ad_delays (measured wave D k) = replicate (nat ((160 * int k + 3998 - D) div 4000)) (real_of_int (D + 1) / 8)"
  using measure_follows [OF assms, of k] by (simp add: Let_def follows_def heard_def)

end
