(* ===== verification/Poc_Calls.thy ===== *)
theory Poc_Calls
  imports Poc
begin

text \<open>
  The rest of \<^verbatim>\<open>tools/ketphone-poc/main.cpp\<close>: the course of a run of the tool. The engine, the queue of its
  events, the clock and the audio device are the surroundings, a parameter that answers each call
  depending on the calls before; the calls are recorded. The loops wait for events and may wait forever,
  so they are partial functions. Nothing is printed, and the clock is not read for what is printed.
\<close>

section \<open>The surroundings\<close>

record poc_event =
  pe_kind :: int
  pe_call_id :: int
  pe_status :: int

datatype poc_call =
    PNow int | PWait int "poc_event option" | PInterrupted bool | PCreate ketphone_config bool | PRegister
  | PCall string ketphone_result int | PAnswer int ketphone_result | PHangup int | PSleep int
  | PDeviceStart bool | PDeviceStop "real list" nat | PStats | PDestroy

type_synonym poc_trace = "poc_call list"

record poc_env =
  v_now :: "poc_trace \<Rightarrow> int"
  v_wait :: "poc_trace \<Rightarrow> int \<Rightarrow> poc_event option"
  v_interrupted :: "poc_trace \<Rightarrow> bool"
  v_create :: "poc_trace \<Rightarrow> ketphone_config \<Rightarrow> bool"
  v_call :: "poc_trace \<Rightarrow> string \<Rightarrow> ketphone_result \<times> int"
  v_answer :: "poc_trace \<Rightarrow> int \<Rightarrow> ketphone_result"
  v_device :: "poc_trace \<Rightarrow> real list \<times> nat"

text \<open>Waiting for an event for a time from now on.\<close>

definition poc_now :: "poc_env \<Rightarrow> poc_trace \<Rightarrow> int \<times> poc_trace" where
  "poc_now env tr = (v_now env tr, tr @ [PNow (v_now env tr)])"

definition poc_wait :: "poc_env \<Rightarrow> int \<Rightarrow> poc_trace \<Rightarrow> poc_event option \<times> poc_trace" where
  "poc_wait env limit tr = (v_wait env tr limit, tr @ [PWait limit (v_wait env tr limit)])"

definition wait_for :: "poc_env \<Rightarrow> int \<Rightarrow> poc_trace \<Rightarrow> poc_event option \<times> poc_trace" where
  "wait_for env duration tr = (case poc_now env tr of (now, tr) \<Rightarrow> poc_wait env (now + duration) tr)"

definition poc_interrupted :: "poc_env \<Rightarrow> poc_trace \<Rightarrow> bool \<times> poc_trace" where
  "poc_interrupted env tr = (v_interrupted env tr, tr @ [PInterrupted (v_interrupted env tr)])"

abbreviation (input) seconds_long :: "int \<Rightarrow> int" where "seconds_long n \<equiv> n * 1000000000"

section \<open>Loops that wait\<close>

partial_function (option) wait_registered :: "poc_env \<Rightarrow> poc_trace \<Rightarrow> (bool \<times> poc_trace) option" where
  "wait_registered env tr =
     (case wait_for env (seconds_long 10) tr of
        (None, tr) \<Rightarrow> Some (False, tr)
      | (Some e, tr) \<Rightarrow> if pe_kind e \<noteq> 1 then wait_registered env tr else Some (pe_status e = 200, tr))"

partial_function (option) hold_call :: "poc_env \<Rightarrow> int \<Rightarrow> poc_trace \<Rightarrow> (bool \<times> poc_trace) option" where
  "hold_call env limit tr =
     (case poc_now env tr of (now, tr) \<Rightarrow>
        if \<not> now < limit then Some (False, tr)
        else case poc_interrupted env tr of (halted, tr) \<Rightarrow>
          if halted then Some (False, tr)
          else (case poc_now env tr of (now, tr) \<Rightarrow>
               case poc_wait env (min limit (now + 200000000)) tr of
                 (None, tr) \<Rightarrow> hold_call env limit tr
               | (Some e, tr) \<Rightarrow> if pe_kind e = 5 then Some (True, tr) else hold_call env limit tr))"

partial_function (option) wait_ended :: "poc_env \<Rightarrow> poc_trace \<Rightarrow> poc_trace option" where
  "wait_ended env tr =
     (case wait_for env (seconds_long 5) tr of
        (None, tr) \<Rightarrow> Some tr
      | (Some e, tr) \<Rightarrow> if pe_kind e = 5 then Some tr else wait_ended env tr)"

definition hang_up :: "poc_env \<Rightarrow> int \<Rightarrow> poc_trace \<Rightarrow> poc_trace option" where
  "hang_up env call_id tr = wait_ended env (tr @ [PHangup call_id])"

datatype awaited = GotAnswer | GotInterrupt | GotNothing | GotEnd

partial_function (option) await_answer :: "poc_env \<Rightarrow> int \<Rightarrow> poc_trace \<Rightarrow> (awaited \<times> poc_trace) option" where
  "await_answer env call_id tr =
     (case poc_interrupted env tr of (halted, tr) \<Rightarrow>
        if halted then Some (GotInterrupt, tr)
        else (case wait_for env (seconds_long 60) tr of
             (None, tr) \<Rightarrow> Some (GotNothing, tr)
           | (Some e, tr) \<Rightarrow>
               if pe_call_id e \<noteq> call_id then await_answer env call_id tr
               else if pe_kind e = 4 then Some (GotAnswer, tr)
               else if pe_kind e = 5 then Some (GotEnd, tr)
               else await_answer env call_id tr))"

partial_function (option) await_call :: "poc_env \<Rightarrow> int \<Rightarrow> poc_trace \<Rightarrow> (int option \<times> poc_trace) option" where
  "await_call env limit tr =
     (case poc_interrupted env tr of (halted, tr) \<Rightarrow>
        if halted then Some (None, tr)
        else (case poc_wait env limit tr of
             (None, tr) \<Rightarrow> Some (None, tr)
           | (Some e, tr) \<Rightarrow> if pe_kind e = 2 then Some (Some (pe_call_id e), tr) else await_call env limit tr))"

section \<open>A run\<close>

text \<open>The device plays and captures while the call is held; afterwards the call is ended unless the far end did.\<close>

definition hold_with_device ::
  "poc_env \<Rightarrow> bool \<Rightarrow> int \<Rightarrow> int \<Rightarrow> poc_trace \<Rightarrow> (real list \<times> nat \<times> poc_trace) option" where
  "hold_with_device env loopback duration call_id tr =
     (case poc_now env (tr @ [PDeviceStart loopback]) of (now, tr) \<Rightarrow>
        case hold_call env (now + duration) tr of
          None \<Rightarrow> None
        | Some (remote_ended, tr) \<Rightarrow>
            (case v_device env tr of (delays, sent) \<Rightarrow>
               let tr = tr @ [PDeviceStop delays sent, PStats]
               in map_option (\<lambda>tr. (delays, sent, tr)) (if remote_ended then Some tr else hang_up env call_id tr)))"

definition enough_echo :: "real list \<Rightarrow> nat \<Rightarrow> bool" where
  "enough_echo delays sent \<longleftrightarrow> delays \<noteq> [] \<and> length delays * 5 \<ge> (if sent > 0 then sent - 1 else 0) * 4"

text \<open>What follows once it is known whether the call was answered.\<close>

definition answered_call :: "poc_env \<Rightarrow> poc_options \<Rightarrow> int \<Rightarrow> awaited \<times> poc_trace \<Rightarrow> (int \<times> poc_trace) option" where
  "answered_call env opts call_id x =
     (case x of
        (GotEnd, tr) \<Rightarrow> Some (1, tr)
      | (GotAnswer, tr) \<Rightarrow>
          map_option (\<lambda>(delays, sent, tr). (if enough_echo delays sent then 0 else 1, tr))
            (hold_with_device env False (seconds_long (po_seconds opts)) call_id tr)
      | (_, tr) \<Rightarrow> map_option (Pair 1) (hang_up env call_id tr))"

definition run_caller :: "poc_env \<Rightarrow> poc_options \<Rightarrow> poc_trace \<Rightarrow> (int \<times> poc_trace) option" where
  "run_caller env opts tr =
     (let target = c_str (po_call opts);
          (r, call_id) = v_call env tr target;
          tr = tr @ [PCall target r call_id]
      in if r \<noteq> KETPHONE_OK then Some (1, tr)
         else case await_answer env call_id tr of None \<Rightarrow> None | Some x \<Rightarrow> answered_call env opts call_id x)"

definition run_answerer :: "poc_env \<Rightarrow> poc_options \<Rightarrow> poc_trace \<Rightarrow> (int \<times> poc_trace) option" where
  "run_answerer env opts tr =
     (case poc_now env tr of (now, tr) \<Rightarrow>
        case await_call env (now + seconds_long (max (po_seconds opts) 60)) tr of
          None \<Rightarrow> None
        | Some (None, tr) \<Rightarrow> Some (1, tr)
        | Some (Some call_id, tr) \<Rightarrow>
            let tr = tr @ [PSleep 500000000];
                r = v_answer env tr call_id;
                tr = tr @ [PAnswer call_id r]
            in if r \<noteq> KETPHONE_OK then Some (1, tr)
               else map_option (\<lambda>(delays, sent, tr). (0, tr))
                 (hold_with_device env True (seconds_long (po_seconds opts + 30)) call_id tr))"

text \<open>
  The whole tool: the arguments, the password from the environment, and an exit exit_code; \<^term>\<open>None\<close> stands for
  undefined behaviour of \<^verbatim>\<open>atoi\<close> and for a run that does not end.
\<close>

definition poc_main :: "poc_env \<Rightarrow> (string \<Rightarrow> string option) \<Rightarrow> string list \<Rightarrow> string option \<Rightarrow> (int \<times> poc_trace) option" where
  "poc_main env read_file args secret =
     (case parse_options read_file args of
        None \<Rightarrow> None
      | Some None \<Rightarrow> Some (2, [])
      | Some (Some opts) \<Rightarrow>
          (case secret of
             None \<Rightarrow> Some (2, [])
           | Some secret \<Rightarrow>
               if secret = [] then Some (2, [])
               else let config = poc_config opts secret;
                        made = v_create env [] config;
                        tr = [PCreate config made]
                    in if \<not> made then Some (1, tr)
                       else case wait_registered env (tr @ [PRegister]) of
                         None \<Rightarrow> None
                       | Some (signed_on, tr) \<Rightarrow>
                           map_option (\<lambda>(exit_code, tr). (exit_code, tr @ [PDestroy]))
                             (if \<not> signed_on then Some (1, tr)
                              else if po_answer opts then run_answerer env opts tr else run_caller env opts tr)))"

section \<open>What a run leaves behind\<close>

text \<open>An event of a kind has come, of a call or of any.\<close>

definition saw_ended :: "poc_trace \<Rightarrow> bool" where
  "saw_ended tr \<longleftrightarrow> (\<exists>limit e. PWait limit (Some e) \<in> set tr \<and> pe_kind e = 5)"

definition saw_answer :: "int \<Rightarrow> poc_trace \<Rightarrow> bool" where
  "saw_answer call_id tr \<longleftrightarrow> (\<exists>limit e. PWait limit (Some e) \<in> set tr \<and> pe_kind e = 4 \<and> pe_call_id e = call_id)"

lemma prefix_saw: "prefix tr tr' \<Longrightarrow> saw_ended tr \<Longrightarrow> saw_ended tr'" "prefix tr tr' \<Longrightarrow> saw_answer i tr \<Longrightarrow> saw_answer i tr'"
  using set_mono_prefix by (fastforce simp: saw_ended_def saw_answer_def)+

lemma poc_now_prefix: "poc_now env tr = (now, tr') \<Longrightarrow> prefix tr tr'"
  by (auto simp: poc_now_def)

lemma poc_interrupted_prefix: "poc_interrupted env tr = (halted, tr') \<Longrightarrow> prefix tr tr'"
  by (auto simp: poc_interrupted_def)

lemma poc_wait_spec: "poc_wait env limit tr = (e, tr') \<Longrightarrow> prefix tr tr' \<and> PWait limit e \<in> set tr'"
  by (auto simp: poc_wait_def)

lemma wait_for_spec: "wait_for env duration tr = (e, tr') \<Longrightarrow> prefix tr tr' \<and> (\<exists>limit. PWait limit e \<in> set tr')"
  by (auto simp: wait_for_def poc_now_def poc_wait_def)

lemma wait_registered_prefix:
  assumes "wait_registered env tr = Some x"
  shows "prefix tr (snd x)"
proof (rule wait_registered.raw_induct [where P = "\<lambda>env tr x. prefix tr (snd x)", OF _ assms], goal_cases)
  case (1 f env tr x)
  obtain e t where w: "wait_for env (seconds_long 10) tr = (e, t)" by fastforce
  have "x = (False, t) \<or> (\<exists>r. x = (r, t)) \<or> f env t = Some x" using 1(2) w by (cases e) (auto split: if_splits)
  then show ?case using 1(1) [of env t x] wait_for_spec [OF w] by (auto intro: prefix_order.trans)
qed

lemma hold_call_spec:
  assumes "hold_call env limit tr = Some x"
  shows "prefix tr (snd x) \<and> (fst x \<longrightarrow> saw_ended (snd x))"
proof (rule hold_call.raw_induct [where P = "\<lambda>env limit tr x. prefix tr (snd x) \<and> (fst x \<longrightarrow> saw_ended (snd x))", OF _ assms], goal_cases)
  case (1 f env limit tr x)
  obtain now t1 where n: "poc_now env tr = (now, t1)" by fastforce
  obtain halted t2 where h: "poc_interrupted env t1 = (halted, t2)" by fastforce
  obtain later t3 where m: "poc_now env t2 = (later, t3)" by fastforce
  obtain e t4 where w: "poc_wait env (min limit (later + 200000000)) t3 = (e, t4)" by fastforce
  note p = poc_now_prefix [OF n] poc_interrupted_prefix [OF h] poc_now_prefix [OF m] conjunct1 [OF poc_wait_spec [OF w]]
  have "x = (False, t1) \<or> x = (False, t2) \<or> x = (True, t4) \<and> saw_ended t4 \<or> f env limit t4 = Some x"
    using 1(2) n h m w poc_wait_spec [OF w] by (cases halted; cases e) (auto simp: saw_ended_def split: if_splits)
  moreover have "prefix tr t2" "prefix tr t4" using p by (meson prefix_order.trans)+
  ultimately show ?case using 1(1) [of env limit t4 x] p(1) by (auto intro: prefix_order.trans)
qed

lemma wait_ended_prefix:
  assumes "wait_ended env tr = Some tr'"
  shows "prefix tr tr'"
proof (rule wait_ended.raw_induct [where P = "\<lambda>env tr tr'. prefix tr tr'", OF _ assms], goal_cases)
  case (1 f env tr tr')
  obtain e t where w: "wait_for env (seconds_long 5) tr = (e, t)" by fastforce
  have "tr' = t \<or> f env t = Some tr'" using 1(2) w by (cases e) (auto split: if_splits)
  then show ?case using 1(1) [of env t tr'] wait_for_spec [OF w] by (auto intro: prefix_order.trans)
qed

lemma hang_up_spec: "hang_up env call_id tr = Some tr' \<Longrightarrow> prefix tr tr' \<and> PHangup call_id \<in> set tr'"
  using wait_ended_prefix [of env "tr @ [PHangup call_id]" tr'] by (auto simp: hang_up_def prefix_def)

lemma await_answer_spec:
  assumes "await_answer env call_id tr = Some x"
  shows "prefix tr (snd x) \<and> (fst x = GotAnswer \<longrightarrow> saw_answer call_id (snd x)) \<and> (fst x = GotEnd \<longrightarrow> saw_ended (snd x))"
    (is "?P env call_id tr x")
proof (rule await_answer.raw_induct [where P = ?P, OF _ assms], goal_cases)
  case (1 f env call_id tr x)
  obtain halted t1 where h: "poc_interrupted env tr = (halted, t1)" by fastforce
  obtain e t2 where w: "wait_for env (seconds_long 60) t1 = (e, t2)" by fastforce
  have "x = (GotInterrupt, t1) \<or> x = (GotNothing, t2) \<or> x = (GotAnswer, t2) \<and> saw_answer call_id t2 \<or>
      x = (GotEnd, t2) \<and> saw_ended t2 \<or> f env call_id t2 = Some x"
    using 1(2) h w wait_for_spec [OF w] by (cases halted; cases e) (auto simp: saw_answer_def saw_ended_def split: if_splits)
  moreover have p: "prefix tr t1" "prefix tr t2"
    using poc_interrupted_prefix [OF h] wait_for_spec [OF w] by (auto intro: prefix_order.trans)
  ultimately show ?case using 1(1) [of env call_id t2 x] by (auto intro: prefix_order.trans)
qed

lemma await_call_prefix:
  assumes "await_call env limit tr = Some x"
  shows "prefix tr (snd x)"
proof (rule await_call.raw_induct [where P = "\<lambda>env limit tr x. prefix tr (snd x)", OF _ assms], goal_cases)
  case (1 f env limit tr x)
  obtain halted t1 where h: "poc_interrupted env tr = (halted, t1)" by fastforce
  obtain e t2 where w: "poc_wait env limit t1 = (e, t2)" by fastforce
  have "x = (None, t1) \<or> (\<exists>r. x = (r, t2)) \<or> f env limit t2 = Some x"
    using 1(2) h w by (cases halted; cases e) (auto split: if_splits)
  moreover have "prefix tr t1" "prefix tr t2"
    using poc_interrupted_prefix [OF h] poc_wait_spec [OF w] by (auto intro: prefix_order.trans)
  ultimately show ?case using 1(1) [of env limit t2 x] by (auto intro: prefix_order.trans)
qed

lemma hold_with_device_spec:
  assumes "hold_with_device env loopback duration call_id tr = Some (delays, sent, tr')"
  shows "prefix tr tr' \<and> PDeviceStop delays sent \<in> set tr' \<and> (PHangup call_id \<in> set tr' \<or> saw_ended tr')"
proof -
  let ?b = "tr @ [PDeviceStart loopback, PNow (v_now env (tr @ [PDeviceStart loopback]))]"
  obtain ended t1 where h: "hold_call env (v_now env (tr @ [PDeviceStart loopback]) + duration) ?b = Some (ended, t1)"
    and d: "v_device env t1 = (delays, sent)"
    and u: "(if ended then Some (t1 @ [PDeviceStop delays sent, PStats]) else hang_up env call_id (t1 @ [PDeviceStop delays sent, PStats])) = Some tr'"
    using assms by (auto simp: hold_with_device_def poc_now_def Let_def split: option.splits prod.splits if_splits)
  have p: "prefix (t1 @ [PDeviceStop delays sent, PStats]) tr'" "\<not> ended \<longrightarrow> PHangup call_id \<in> set tr'"
    using u hang_up_spec by (auto split: if_splits)
  have "prefix ?b t1" "ended \<longrightarrow> saw_ended t1" using hold_call_spec [OF h] by simp_all
  then have "prefix tr tr'" "prefix t1 tr'" using p(1) by (auto simp: prefix_def)
  then show ?thesis using p \<open>ended \<longrightarrow> saw_ended t1\<close> prefix_saw(1) [of t1 tr'] set_mono_prefix [OF p(1)] by (cases ended) auto
qed

lemma answered_call_spec:
  assumes "answered_call env opts i (got, t1) = Some (exit_code, tr')" and "got = GotAnswer \<longrightarrow> saw_answer i t1" and "got = GotEnd \<longrightarrow> saw_ended t1"
  shows "prefix t1 tr' \<and> (PHangup i \<in> set tr' \<or> saw_ended tr') \<and>
    (exit_code = 0 \<longrightarrow> saw_answer i tr' \<and> (\<exists>delays sent. PDeviceStop delays sent \<in> set tr' \<and> enough_echo delays sent))"
proof (cases got)
  case GotAnswer
  then obtain delays sent where h: "hold_with_device env False (seconds_long (po_seconds opts)) i t1 = Some (delays, sent, tr')"
    and e: "exit_code = (if enough_echo delays sent then 0 else 1)"
    using assms(1) by (auto simp: answered_call_def)
  note s = hold_with_device_spec [OF h]
  have "saw_answer i tr'" using prefix_saw(2) [of t1 tr' i] s assms(2) GotAnswer by simp
  then show ?thesis using s e by auto
qed (use assms hang_up_spec in \<open>auto simp: answered_call_def\<close>)

text \<open>
  A call that was made does not stay behind: the tool hangs it up, or has seen it end. And it reports success
  only for a call that was answered and of whose bursts four of five came back, the last one aside.
\<close>

theorem run_caller_spec:
  assumes "run_caller env opts tr = Some (exit_code, tr')"
  shows "\<exists>r call_id. PCall (c_str (po_call opts)) r call_id \<in> set tr' \<and> (r = KETPHONE_OK \<longrightarrow> PHangup call_id \<in> set tr' \<or> saw_ended tr') \<and>
    (exit_code = 0 \<longrightarrow> r = KETPHONE_OK \<and> saw_answer call_id tr' \<and>
      (\<exists>delays sent. PDeviceStop delays sent \<in> set tr' \<and> enough_echo delays sent))"
proof -
  obtain r i where c: "v_call env tr (c_str (po_call opts)) = (r, i)" by fastforce
  let ?tr = "tr @ [PCall (c_str (po_call opts)) r i]"
  show ?thesis
  proof (cases "r = KETPHONE_OK")
    case False
    then show ?thesis using assms c by (intro exI [of _ r] exI [of _ i]) (auto simp: run_caller_def Let_def)
  next
    case True
    then obtain got t1 where g: "await_answer env i ?tr = Some (got, t1)"
      using assms c by (auto simp: run_caller_def Let_def split: option.splits)
    then have "answered_call env opts i (got, t1) = Some (exit_code, tr')"
      using assms c True by (auto simp: run_caller_def Let_def)
    then have "prefix t1 tr' \<and> (PHangup i \<in> set tr' \<or> saw_ended tr') \<and>
      (exit_code = 0 \<longrightarrow> saw_answer i tr' \<and> (\<exists>delays sent. PDeviceStop delays sent \<in> set tr' \<and> enough_echo delays sent))"
      using await_answer_spec [OF g] by (intro answered_call_spec) auto
    moreover have "PCall (c_str (po_call opts)) r i \<in> set t1" using await_answer_spec [OF g] set_mono_prefix [of ?tr t1] by auto
    ultimately show ?thesis using True set_mono_prefix [of t1 tr'] by (intro exI [of _ r] exI [of _ i]) auto
  qed
qed

text \<open>An engine that was made is destroyed at the end of a run, and there is no other use of the engine after it.\<close>

lemma run_answerer_prefix:
  assumes "run_answerer env opts tr = Some (exit_code, tr')"
  shows "prefix tr tr'"
proof -
  obtain now t1 where n: "poc_now env tr = (now, t1)" by fastforce
  obtain got t2 where g: "await_call env (now + seconds_long (max (po_seconds opts) 60)) t1 = Some (got, t2)"
    using assms n by (auto simp: run_answerer_def split: option.splits)
  have p: "prefix tr t2" using poc_now_prefix [OF n] await_call_prefix [OF g] by (auto intro: prefix_order.trans)
  show ?thesis
  proof (cases got)
    case (Some i)
    let ?t = "t2 @ [PSleep 500000000]"
    have "prefix (?t @ [PAnswer i (v_answer env ?t i)]) tr'"
      using assms n g Some hold_with_device_spec by (fastforce simp: run_answerer_def Let_def split: if_splits)
    then show ?thesis using p by (auto simp: prefix_def)
  qed (use assms n g p in \<open>simp add: run_answerer_def\<close>)
qed

lemma run_caller_prefix:
  assumes "run_caller env opts tr = Some (exit_code, tr')"
  shows "prefix tr tr'"
proof -
  obtain r i where c: "v_call env tr (c_str (po_call opts)) = (r, i)" by fastforce
  let ?tr = "tr @ [PCall (c_str (po_call opts)) r i]"
  show ?thesis
  proof (cases "r = KETPHONE_OK")
    case True
    then obtain x where x: "await_answer env i ?tr = Some x" "answered_call env opts i x = Some (exit_code, tr')"
      using assms c by (auto simp: run_caller_def Let_def split: option.splits)
    have "prefix (snd x) tr'" using x(2) await_answer_spec [OF x(1)] answered_call_spec [of env opts i "fst x" "snd x"] by simp
    then show ?thesis using await_answer_spec [OF x(1)] by (auto simp: prefix_def)
  qed (use assms c in \<open>auto simp: run_caller_def Let_def\<close>)
qed

theorem poc_main_destroys:
  assumes "poc_main env read_file args secret = Some (exit_code, tr)"
  shows "exit_code = 2 \<and> tr = [] \<or> (\<exists>config. exit_code = 1 \<and> tr = [PCreate config False]) \<or>
    (\<exists>config use. tr = PCreate config True # use @ [PDestroy])"
proof -
  consider "exit_code = 2" "tr = []" | config where "exit_code = 1" "tr = [PCreate config False]"
    | config opts ok t1 t2 where "wait_registered env [PCreate config True, PRegister] = Some (ok, t1)" "tr = t2 @ [PDestroy]"
      "t2 = t1 \<or> run_answerer env opts t1 = Some (exit_code, t2) \<or> run_caller env opts t1 = Some (exit_code, t2)"
    using assms by (fastforce simp: poc_main_def Let_def split: option.splits if_splits)
  then show ?thesis
  proof cases
    case (3 config opts ok t1 t2)
    then have "prefix t1 t2" using run_answerer_prefix run_caller_prefix by auto
    then have "prefix [PCreate config True, PRegister] t2" using wait_registered_prefix [OF 3(1)] by (auto intro: prefix_order.trans)
    then show ?thesis using 3(2) by (auto simp: prefix_def)
  qed auto
qed

end
