(* ===== verification/Tls_Stream.thy ===== *)
theory Tls_Stream
  imports Prelude
begin

text \<open>
  The interface of \<^verbatim>\<open>src/net/tls_transport.hpp\<close>: the callbacks of a connection, and the contract every
  connection keeps with its listener, whichever library it is built on.
\<close>

section \<open>Callbacks\<close>

datatype stream_error = StreamClosed | ConnectFailed | HandshakeFailed

datatype callback = OnConnected | OnData "byte list" | OnClosed stream_error

text \<open>
  The order of the callbacks: nothing yet, or there is no connection, or the connection is up, brings data
  and may end.
\<close>

fun is_data :: "callback \<Rightarrow> bool" where
  "is_data (OnData d) = True"
| "is_data _ = False"

fun is_up :: "callback list \<Rightarrow> bool" where
  "is_up (OnConnected # cs) = list_all is_data cs"
| "is_up _ = False"

definition in_turn :: "callback list \<Rightarrow> bool" where
  "in_turn cs \<longleftrightarrow> cs = [] \<or> is_up cs \<or> (\<exists>e. cs = [OnClosed e]) \<or> (\<exists>cs' e. is_up cs' \<and> cs = cs' @ [OnClosed e])"

fun may_follow :: "callback \<Rightarrow> callback list \<Rightarrow> bool" where
  "may_follow OnConnected cs \<longleftrightarrow> cs = []"
| "may_follow (OnData d) cs \<longleftrightarrow> is_up cs"
| "may_follow (OnClosed e) cs \<longleftrightarrow> cs = [] \<or> is_up cs"

lemma is_up_snoc [simp]: "is_up (cs @ [c]) \<longleftrightarrow> (if cs = [] then c = OnConnected else is_up cs \<and> is_data c)"
  by (cases cs rule: is_up.cases; cases c) auto

lemma in_turn_snoc: "may_follow c cs \<Longrightarrow> in_turn (cs @ [c])"
  by (cases c) (auto simp: in_turn_def)

lemma in_turn_snocD: "in_turn (cs @ [c]) \<Longrightarrow> may_follow c cs"
  by (cases c) (auto simp: in_turn_def split: if_splits)

lemma up_not_closed: "is_up cs \<Longrightarrow> OnClosed e \<notin> set cs"
  by (cases cs rule: is_up.cases) (auto simp: list_all_iff)

lemma closed_ends: "OnClosed e \<in> set cs \<Longrightarrow> \<not> may_follow c cs"
  by (cases c) (auto dest: up_not_closed)

section \<open>The contract\<close>

text \<open>
  A connection is a system of states: those in which it begins, the moves it makes, what it has told its
  listener, the states the invariant allows, and those in which it is destroyed.
\<close>

locale stream_connection =
  fixes begun :: "'w \<Rightarrow> bool"
    and moves :: "'w \<Rightarrow> 'w \<Rightarrow> bool"
    and told :: "'w \<Rightarrow> callback list"
    and good :: "'w \<Rightarrow> bool"
    and gone :: "'w \<Rightarrow> bool"
  assumes begun_good: "begun w \<Longrightarrow> good w"
    and begun_silent: "begun w \<Longrightarrow> told w = []"
    and moves_good: "good w \<Longrightarrow> moves w w' \<Longrightarrow> good w'"
    and tells_one: "good w \<Longrightarrow> moves w w' \<Longrightarrow> told w' = told w \<or> (\<exists>c. told w' = told w @ [c] \<and> may_follow c (told w))"
    and gone_stays: "good w \<Longrightarrow> gone w \<Longrightarrow> moves w w' \<Longrightarrow> gone w' \<and> told w' = told w"
begin

lemma good_run: "moves\<^sup>*\<^sup>* w w' \<Longrightarrow> good w \<Longrightarrow> good w'"
  by (induction rule: rtranclp_induct) (auto intro: moves_good)

lemma told_in_turn:
  assumes "begun w" and "moves\<^sup>*\<^sup>* w w'"
  shows "in_turn (told w')"
  using assms(2)
proof (induction rule: rtranclp_induct)
  case base
  then show ?case using begun_silent [OF assms(1)] by (simp add: in_turn_def)
next
  case (step v v')
  have "good v" using good_run [OF step.hyps(1)] begun_good [OF assms(1)] by simp
  then show ?case using tells_one [of v v'] step by (auto intro: in_turn_snoc)
qed

text \<open>What was told is never taken back, and a connection that is destroyed tells nothing any more.\<close>

lemma told_grows: "moves\<^sup>*\<^sup>* w w' \<Longrightarrow> good w \<Longrightarrow> prefix (told w) (told w')"
proof (induction rule: rtranclp_induct)
  case (step v v')
  then show ?case using tells_one [of v v'] good_run [OF step.hyps(1)] by (auto simp: prefix_def)
qed simp

lemma gone_is_silent: "moves\<^sup>*\<^sup>* w w' \<Longrightarrow> good w \<Longrightarrow> gone w \<Longrightarrow> gone w' \<and> told w' = told w"
proof (induction rule: rtranclp_induct)
  case (step v v')
  then show ?case using gone_stays [of v v'] good_run [OF step.hyps(1)] by auto
qed simp

text \<open>The end is told once, and nothing after it.\<close>

lemma closed_is_last:
  assumes "begun v" and "moves\<^sup>*\<^sup>* v w" and "moves\<^sup>*\<^sup>* w w'" and "OnClosed e \<in> set (told w)"
  shows "told w' = told w"
  using assms(3)
proof (induction rule: rtranclp_induct)
  case (step u u')
  have "good u" using good_run [OF step.hyps(1)] good_run [OF assms(2)] begun_good [OF assms(1)] by simp
  moreover have "\<not> may_follow c (told u)" for c using closed_ends [of e "told u"] assms(4) step.IH by simp
  ultimately show ?case using tells_one [of u u'] step.hyps(2) step.IH by auto
qed simp

end

end
