(* ===== verification/Tls_Openssl.thy ===== *)
theory Tls_Openssl
  imports Udp_Socket Pem Tls_Stream "HOL-Library.Signed_Division"
begin

text \<open>
  \<^verbatim>\<open>src/net/tls_openssl.cpp\<close>: a TLS connection through OpenSSL. The connection has a thread of its own,
  which is a program counter and a function that does one step; between its steps the owner sends,
  or destroys the connection. OpenSSL and the system are a parameter that answers every call,
  depending on the calls before; the calls are recorded.

  The bytes the owner sent, those OpenSSL took, and the callbacks of the listener are remembered.
\<close>

section \<open>OpenSSL and the system\<close>

datatype ssl_reason = SSL_ERROR_WANT_READ | SSL_ERROR_WANT_WRITE | SSL_ERROR_OTHER

datatype connect_answer = ConnectDone | ConnectInProgress | ConnectRefused

text \<open>
  The calls, with their answers. A read gives the bytes, a write their number; if there are none, the
  reason follows. \<^verbatim>\<open>WaitFor\<close> is a call of \<^verbatim>\<open>poll\<close> on the socket and the wake-up pipe, for writing if the
  flag says so, with the answer whether the socket is ready.
\<close>

datatype tls_call =
    CtxNew bool | MinProto12 | VerifyPeer | PartialWrites | DefaultPaths bool | AddCert "byte list" bool | CtxFree
  | MakePipe bool | Clock int | Lookup string string "(sockaddr option \<times> nat) list option"
  | StreamSocket int int | StreamFlags int | StartConnect int sockaddr nat connect_answer | SocketError int bool
  | WaitFor int bool int bool | StreamClose int
  | SslNew bool | SetIp string bool | SetSni string bool | SetHost string bool | SetFd int bool
  | SslConnect "bool \<times> ssl_reason" | SslRead "byte list \<times> ssl_reason" | SslWrite string "nat \<times> ssl_reason"
  | SslShutdown | SslFree

type_synonym tls_trace = "tls_call list"

record tls_library =
  l_ctx_new :: "tls_trace \<Rightarrow> bool"
  l_default_paths :: "tls_trace \<Rightarrow> bool"
  l_add_cert :: "tls_trace \<Rightarrow> byte list \<Rightarrow> bool"
  l_pipe :: "tls_trace \<Rightarrow> bool"
  l_now :: "tls_trace \<Rightarrow> int"
  l_lookup :: "tls_trace \<Rightarrow> string \<Rightarrow> string \<Rightarrow> (sockaddr option \<times> nat) list option"
  l_socket :: "tls_trace \<Rightarrow> int \<Rightarrow> int"
  l_connect :: "tls_trace \<Rightarrow> int \<Rightarrow> sockaddr \<Rightarrow> connect_answer"
  l_socket_error :: "tls_trace \<Rightarrow> int \<Rightarrow> bool"
  l_poll :: "tls_trace \<Rightarrow> int \<Rightarrow> bool \<Rightarrow> int \<Rightarrow> bool"
  l_ssl_new :: "tls_trace \<Rightarrow> bool"
  l_is_address :: "string \<Rightarrow> bool"
  l_set :: "tls_trace \<Rightarrow> string \<Rightarrow> bool"
  l_set_fd :: "tls_trace \<Rightarrow> int \<Rightarrow> bool"
  l_ssl_connect :: "tls_trace \<Rightarrow> bool \<times> ssl_reason"
  l_ssl_read :: "tls_trace \<Rightarrow> byte list \<times> ssl_reason"
  l_ssl_write :: "tls_trace \<Rightarrow> string \<Rightarrow> nat \<times> ssl_reason"

definition tls_ask :: "('r \<Rightarrow> tls_call) \<Rightarrow> (tls_trace \<Rightarrow> 'r) \<Rightarrow> tls_trace \<Rightarrow> 'r \<times> tls_trace" where
  "tls_ask call answer tr = (answer tr, tr @ [call (answer tr)])"

section \<open>State\<close>

record tls_connection =
  tc_options :: tls_options
  tc_deadline :: int
  tc_outbox :: string
  tc_pending :: string
  tc_wake :: nat
  tc_stopping :: bool
  tc_trace :: tls_trace
  tc_sent :: string
  tc_written :: string
  tc_calls :: "callback list"

text \<open>Where the thread is; inside, \<^verbatim>\<open>wait\<close> is about to look at the clock or drains the pipe.\<close>

datatype place =
    AtBegin | AtCandidates "endpoint list"
  | AtConnecting int "endpoint list" | AtConnectingDrain int "endpoint list" bool
  | AtHandshake int | AtHandshakeWait int bool | AtHandshakeDrain int bool bool
  | AtRead int | AtTake int | AtWrite int | AtPoll int bool | AtDrain int
  | AtShutdown int | AtReport stream_error | AtOver

abbreviation (input) kConnectTimeout :: int where "kConnectTimeout \<equiv> 10000000000"

definition call_tls :: "('r \<Rightarrow> tls_call) \<Rightarrow> (tls_trace \<Rightarrow> 'r) \<Rightarrow> tls_connection \<Rightarrow> 'r \<times> tls_connection" where
  "call_tls call answer s = (case tls_ask call answer (tc_trace s) of (r, tr) \<Rightarrow> (r, s\<lparr>tc_trace := tr\<rparr>))"

definition note_call :: "tls_call \<Rightarrow> tls_connection \<Rightarrow> tls_connection" where
  "note_call c s = s\<lparr>tc_trace := tc_trace s @ [c]\<rparr>"

definition tell :: "callback \<Rightarrow> tls_connection \<Rightarrow> tls_connection" where
  "tell c s = s\<lparr>tc_calls := tc_calls s @ [c]\<rparr>"

section \<open>Creation\<close>

text \<open>The certificates of the trust anchors; one that is not accepted spoils the rest.\<close>

fun add_certificates :: "tls_library \<Rightarrow> byte list list \<Rightarrow> bool \<Rightarrow> tls_trace \<Rightarrow> bool \<times> tls_trace" where
  "add_certificates lib [] trusted tr = (trusted, tr)"
| "add_certificates lib (der # ders) trusted tr =
     (if trusted then (case tls_ask (AddCert der) (\<lambda>tr. l_add_cert lib tr der) tr of (ok, tr) \<Rightarrow> add_certificates lib ders ok tr)
      else add_certificates lib ders False tr)"

definition trust :: "tls_library \<Rightarrow> tls_options \<Rightarrow> tls_trace \<Rightarrow> bool \<times> tls_trace" where
  "trust lib options tr =
     (if tls_trust_anchors_pem options = [] then tls_ask DefaultPaths (l_default_paths lib) tr
      else case pem_certificates (tls_trust_anchors_pem options) of
        None \<Rightarrow> (False, tr)
      | Some ders \<Rightarrow> add_certificates lib ders True tr)"

definition new_connection :: "tls_options \<Rightarrow> tls_trace \<Rightarrow> tls_connection" where
  "new_connection options tr =
     \<lparr>tc_options = options, tc_deadline = 0, tc_outbox = [], tc_pending = [], tc_wake = 0, tc_stopping = False, tc_trace = tr,
      tc_sent = [], tc_written = [], tc_calls = []\<rparr>"

text \<open>If there is no pipe the object is destroyed, which frees the context.\<close>

definition create_connection :: "tls_library \<Rightarrow> tls_options \<Rightarrow> tls_connection option \<times> tls_trace" where
  "create_connection lib options =
     (case tls_ask CtxNew (l_ctx_new lib) [] of
        (False, tr) \<Rightarrow> (None, tr)
      | (True, tr) \<Rightarrow>
          (case trust lib options (tr @ [MinProto12, VerifyPeer, PartialWrites]) of
             (False, tr) \<Rightarrow> (None, tr @ [CtxFree])
           | (True, tr) \<Rightarrow>
               (case tls_ask MakePipe (l_pipe lib) tr of
                  (False, tr) \<Rightarrow> (None, tr @ [CtxFree])
                | (True, tr) \<Rightarrow> (Some (new_connection options tr), tr))))"

definition connect_tls :: "tls_library \<Rightarrow> tls_options \<Rightarrow> tls_connection option \<times> tls_trace" where
  "connect_tls lib options =
     (if tls_host options = [] \<or> tls_port options = 0 then (None, []) else create_connection lib options)"

section \<open>Waiting\<close>

datatype waited = GaveUp | Polled bool

datatype drained = Draining | Stopped | Ready | Again

definition wait_top :: "tls_library \<Rightarrow> int \<Rightarrow> bool \<Rightarrow> tls_connection \<Rightarrow> waited \<times> tls_connection" where
  "wait_top lib fd writing s =
     (if tc_stopping s then (GaveUp, s)
      else case call_tls Clock (l_now lib) s of (now, s) \<Rightarrow>
        let left = (tc_deadline s - now) sdiv 1000000
        in if left \<le> 0 then (GaveUp, s)
           else case call_tls (WaitFor fd writing left) (\<lambda>tr. l_poll lib tr fd writing left) s of (r, s) \<Rightarrow> (Polled r, s))"

text \<open>A read takes up to 64 bytes from the pipe; when it is empty the thread looks at \<^verbatim>\<open>stopping_\<close>.\<close>

definition drain_wake :: "tls_connection \<Rightarrow> tls_connection" where
  "drain_wake s = s\<lparr>tc_wake := tc_wake s - min 64 (tc_wake s)\<rparr>"

definition wait_drain :: "bool \<Rightarrow> tls_connection \<Rightarrow> drained \<times> tls_connection" where
  "wait_drain ready s =
     (if tc_wake s > 0 then (Draining, drain_wake s)
      else (if tc_stopping s then Stopped else if ready then Ready else Again, s))"

section \<open>Connecting\<close>

definition next_candidate :: "int \<Rightarrow> endpoint list \<Rightarrow> tls_connection \<Rightarrow> place \<times> tls_connection" where
  "next_candidate fd es s = (AtCandidates (if tc_stopping s then [] else es), note_call (StreamClose fd) s)"

text \<open>The name the certificate must be for.\<close>

definition expected_name :: "tls_options \<Rightarrow> string" where
  "expected_name options = (if tls_server_name options = [] then tls_host options else tls_server_name options)"

definition expect_name :: "tls_library \<Rightarrow> string \<Rightarrow> tls_connection \<Rightarrow> bool \<times> tls_connection" where
  "expect_name lib name s =
     (if l_is_address lib (c_str name) then call_tls (SetIp (c_str name)) (\<lambda>tr. l_set lib tr (c_str name)) s
      else case call_tls (SetSni (c_str name)) (\<lambda>tr. l_set lib tr (c_str name)) s of
        (False, s) \<Rightarrow> (False, s)
      | (True, s) \<Rightarrow> call_tls (SetHost (c_str name)) (\<lambda>tr. l_set lib tr (c_str name)) s)"

definition refuse :: "int \<Rightarrow> stream_error \<Rightarrow> tls_connection \<Rightarrow> place \<times> tls_connection" where
  "refuse fd e s = (AtReport e, note_call (StreamClose fd) (note_call SslFree s))"

definition start_ssl :: "tls_library \<Rightarrow> int \<Rightarrow> tls_connection \<Rightarrow> place \<times> tls_connection" where
  "start_ssl lib fd s =
     (case call_tls SslNew (l_ssl_new lib) s of
        (False, s) \<Rightarrow> (AtReport HandshakeFailed, note_call (StreamClose fd) s)
      | (True, s) \<Rightarrow>
          (case expect_name lib (expected_name (tc_options s)) s of
             (False, s) \<Rightarrow> refuse fd HandshakeFailed s
           | (True, s) \<Rightarrow>
               (case call_tls (SetFd fd) (\<lambda>tr. l_set_fd lib tr fd) s of
                  (False, s) \<Rightarrow> refuse fd HandshakeFailed s
                | (True, s) \<Rightarrow> (AtHandshake fd, s))))"

definition try_candidate :: "tls_library \<Rightarrow> endpoint \<Rightarrow> endpoint list \<Rightarrow> tls_connection \<Rightarrow> place \<times> tls_connection" where
  "try_candidate lib e es s =
     (case call_tls (StreamSocket (ep_family e)) (\<lambda>tr. l_socket lib tr (ep_family e)) s of (fd, s) \<Rightarrow>
        if fd < 0 then (AtCandidates es, s)
        else case call_tls (StartConnect fd (to_sockaddr e) (sockaddr_length e)) (\<lambda>tr. l_connect lib tr fd (to_sockaddr e))
                    (note_call (StreamFlags fd) s) of
               (ConnectDone, s) \<Rightarrow> start_ssl lib fd s
             | (ConnectInProgress, s) \<Rightarrow> (AtConnecting fd es, s)
             | (ConnectRefused, s) \<Rightarrow> next_candidate fd es s)"

definition begin_connection :: "tls_library \<Rightarrow> tls_connection \<Rightarrow> place \<times> tls_connection" where
  "begin_connection lib s =
     (case call_tls Clock (l_now lib) s of (now, s) \<Rightarrow>
        let name = tls_host (tc_options s);
            service = to_string (unat (tls_port (tc_options s)))
        in case call_tls (Lookup name service) (\<lambda>tr. l_lookup lib tr name service) (s\<lparr>tc_deadline := now + kConnectTimeout\<rparr>) of
             (r, s) \<Rightarrow> (AtCandidates (case r of None \<Rightarrow> [] | Some items \<Rightarrow> collect items []), s))"

definition connecting_drain :: "tls_library \<Rightarrow> int \<Rightarrow> endpoint list \<Rightarrow> bool \<Rightarrow> tls_connection \<Rightarrow> place \<times> tls_connection" where
  "connecting_drain lib fd es ready s =
     (case wait_drain ready s of
        (Draining, s) \<Rightarrow> (AtConnectingDrain fd es ready, s)
      | (Again, s) \<Rightarrow> (AtConnecting fd es, s)
      | (Stopped, s) \<Rightarrow> next_candidate fd es s
      | (Ready, s) \<Rightarrow>
          (case call_tls (SocketError fd) (\<lambda>tr. l_socket_error lib tr fd) s of
             (True, s) \<Rightarrow> next_candidate fd es s
           | (False, s) \<Rightarrow> start_ssl lib fd s))"

section \<open>The handshake\<close>

definition handshake :: "tls_library \<Rightarrow> int \<Rightarrow> tls_connection \<Rightarrow> place \<times> tls_connection" where
  "handshake lib fd s =
     (case call_tls SslConnect (l_ssl_connect lib) s of ((ok, reason), s) \<Rightarrow>
        if ok then (AtRead fd, tell OnConnected s)
        else case reason of
          SSL_ERROR_WANT_READ \<Rightarrow> (AtHandshakeWait fd False, s)
        | SSL_ERROR_WANT_WRITE \<Rightarrow> (AtHandshakeWait fd True, s)
        | SSL_ERROR_OTHER \<Rightarrow> refuse fd HandshakeFailed s)"

definition handshake_drain :: "int \<Rightarrow> bool \<Rightarrow> bool \<Rightarrow> tls_connection \<Rightarrow> place \<times> tls_connection" where
  "handshake_drain fd writing ready s =
     (case wait_drain ready s of
        (Draining, s) \<Rightarrow> (AtHandshakeDrain fd writing ready, s)
      | (Again, s) \<Rightarrow> (AtHandshakeWait fd writing, s)
      | (Stopped, s) \<Rightarrow> refuse fd ConnectFailed s
      | (Ready, s) \<Rightarrow> (AtHandshake fd, s))"

section \<open>Moving bytes\<close>

abbreviation (input) kChunk :: nat where "kChunk \<equiv> 1048576"

definition pump_read :: "tls_library \<Rightarrow> int \<Rightarrow> tls_connection \<Rightarrow> place \<times> tls_connection" where
  "pump_read lib fd s =
     (case call_tls SslRead (l_ssl_read lib) s of ((bytes, reason), s) \<Rightarrow>
        if bytes \<noteq> [] then (AtRead fd, tell (OnData bytes) s)
        else if reason = SSL_ERROR_OTHER then (AtShutdown fd, s)
        else (AtTake fd, s))"

definition pump_take :: "tls_connection \<Rightarrow> tls_connection" where
  "pump_take s = s\<lparr>tc_pending := tc_pending s @ tc_outbox s, tc_outbox := []\<rparr>"

definition pump_write :: "tls_library \<Rightarrow> int \<Rightarrow> tls_connection \<Rightarrow> place \<times> tls_connection" where
  "pump_write lib fd s =
     (if tc_pending s = [] then (AtPoll fd False, s)
      else let chunk = take kChunk (tc_pending s)
           in case call_tls (SslWrite chunk) (\<lambda>tr. l_ssl_write lib tr chunk) s of ((n, reason), s) \<Rightarrow>
                if n > 0
                then (AtWrite fd, s\<lparr>tc_pending := drop n (tc_pending s), tc_written := tc_written s @ take n (tc_pending s)\<rparr>)
                else if reason = SSL_ERROR_OTHER then (AtShutdown fd, s)
                else (AtPoll fd True, s))"

definition pump_drain :: "int \<Rightarrow> tls_connection \<Rightarrow> place \<times> tls_connection" where
  "pump_drain fd s =
     (if tc_wake s > 0 then (AtDrain fd, drain_wake s) else (if tc_stopping s then AtShutdown fd else AtRead fd, s))"

section \<open>The thread\<close>

definition tls_step :: "tls_library \<Rightarrow> place \<Rightarrow> tls_connection \<Rightarrow> place \<times> tls_connection" where
  "tls_step lib at_place s =
     (case at_place of
        AtBegin \<Rightarrow> begin_connection lib s
      | AtCandidates [] \<Rightarrow> (AtReport ConnectFailed, s)
      | AtCandidates (e # es) \<Rightarrow> try_candidate lib e es s
      | AtConnecting fd es \<Rightarrow>
          (case wait_top lib fd True s of
             (GaveUp, s) \<Rightarrow> next_candidate fd es s
           | (Polled r, s) \<Rightarrow> (AtConnectingDrain fd es r, s))
      | AtConnectingDrain fd es r \<Rightarrow> connecting_drain lib fd es r s
      | AtHandshake fd \<Rightarrow> handshake lib fd s
      | AtHandshakeWait fd w \<Rightarrow>
          (case wait_top lib fd w s of
             (GaveUp, s) \<Rightarrow> refuse fd ConnectFailed s
           | (Polled r, s) \<Rightarrow> (AtHandshakeDrain fd w r, s))
      | AtHandshakeDrain fd w r \<Rightarrow> handshake_drain fd w r s
      | AtRead fd \<Rightarrow> pump_read lib fd s
      | AtTake fd \<Rightarrow> (AtWrite fd, pump_take s)
      | AtWrite fd \<Rightarrow> pump_write lib fd s
      | AtPoll fd w \<Rightarrow> (case call_tls (WaitFor fd w (- 1)) (\<lambda>tr. l_poll lib tr fd w (- 1)) s of (r, s) \<Rightarrow> (AtDrain fd, s))
      | AtDrain fd \<Rightarrow> pump_drain fd s
      | AtShutdown fd \<Rightarrow>
          (AtReport StreamClosed, note_call (StreamClose fd) (note_call SslFree (note_call SslShutdown s)))
      | AtReport e \<Rightarrow> (AtOver, if tc_stopping s then s else tell (OnClosed e) s)
      | AtOver \<Rightarrow> (AtOver, s))"

text \<open>
  The owner sends, or destroys the connection: it changes the state and then writes to the pipe. It
  does not send any more once it destroys the connection.
\<close>

record tls_world =
  tw_place :: place
  tw_conn :: tls_connection
  tw_wakes :: nat

definition tls_send_bytes :: "string \<Rightarrow> tls_connection \<Rightarrow> tls_connection" where
  "tls_send_bytes bytes s = s\<lparr>tc_outbox := tc_outbox s @ bytes, tc_sent := tc_sent s @ bytes\<rparr>"

inductive tls_moves :: "tls_library \<Rightarrow> tls_world \<Rightarrow> tls_world \<Rightarrow> bool" for lib where
  thread: "tls_step lib (tw_place w) (tw_conn w) = (p, s) \<Longrightarrow> tls_moves lib w (w\<lparr>tw_place := p, tw_conn := s\<rparr>)"
| send: "\<not> tc_stopping (tw_conn w) \<Longrightarrow>
    tls_moves lib w (w\<lparr>tw_conn := tls_send_bytes bytes (tw_conn w), tw_wakes := tw_wakes w + 1\<rparr>)"
| destroy: "\<not> tc_stopping (tw_conn w) \<Longrightarrow>
    tls_moves lib w (w\<lparr>tw_conn := (tw_conn w)\<lparr>tc_stopping := True\<rparr>, tw_wakes := tw_wakes w + 1\<rparr>)"
| waken: "0 < tw_wakes w \<Longrightarrow>
    tls_moves lib w (w\<lparr>tw_conn := (tw_conn w)\<lparr>tc_wake := min 65536 (tc_wake (tw_conn w) + 1)\<rparr>, tw_wakes := tw_wakes w - 1\<rparr>)"

inductive tls_runs :: "tls_library \<Rightarrow> tls_options \<Rightarrow> tls_world \<Rightarrow> bool" for lib options where
  start: "connect_tls lib options = (Some s, tr) \<Longrightarrow> tls_runs lib options \<lparr>tw_place = AtBegin, tw_conn = s, tw_wakes = 0\<rparr>"
| move: "tls_runs lib options w \<Longrightarrow> tls_moves lib w w' \<Longrightarrow> tls_runs lib options w'"


end
