(* ===== verification/Tls_Invariant.thy ===== *)
theory Tls_Invariant
  imports Tls_Openssl
begin

text \<open>
  The invariant of a TLS connection in every interleaving of its thread with its owner: no byte is
  lost, no wake-up is missed, callbacks come in order, the demands on the server are made, and the
  thread owns what its place says.
\<close>

section \<open>What the steps change\<close>

definition core :: "tls_connection \<Rightarrow> tls_options \<times> string \<times> string \<times> bool \<times> string \<times> string" where
  "core s = (tc_options s, tc_outbox s, tc_pending s, tc_stopping s, tc_sent s, tc_written s)"

lemma call_simps [simp]:
  "core (snd (call_tls c a s)) = core s" "core (note_call d s) = core s" "core (tell k s) = core s"
  "core (s\<lparr>tc_wake := n\<rparr>) = core s" "core (s\<lparr>tc_deadline := t\<rparr>) = core s"
  "tc_wake (snd (call_tls c a s)) = tc_wake s" "tc_wake (note_call d s) = tc_wake s" "tc_wake (tell k s) = tc_wake s"
  "tc_calls (snd (call_tls c a s)) = tc_calls s" "tc_calls (note_call d s) = tc_calls s"
  "tc_calls (tell k s) = tc_calls s @ [k]"
  "tc_trace (snd (call_tls c a s)) = tc_trace s @ [c (a (tc_trace s))]" "tc_trace (note_call d s) = tc_trace s @ [d]"
  "tc_trace (tell k s) = tc_trace s" "fst (call_tls c a s) = a (tc_trace s)"
  by (simp_all add: core_def call_tls_def note_call_def tell_def tls_ask_def)

lemma call_tls_eqD:
  assumes "call_tls c a s = (r, s')"
  shows "r = a (tc_trace s)" "core s' = core s" "tc_wake s' = tc_wake s" "tc_calls s' = tc_calls s" "tc_trace s' = tc_trace s @ [c r]"
  using assms by (auto simp: call_tls_def tls_ask_def core_def)

lemma call_tls_D:
  "call_tls c a s = (r, s') \<Longrightarrow> r = a (tc_trace s) \<and> core s' = core s \<and> tc_wake s' = tc_wake s \<and> tc_calls s' = tc_calls s \<and>
    tc_trace s' = tc_trace s @ [c r]"
  using call_tls_eqD by metis

lemma core_stopping: "core s' = core s \<Longrightarrow> tc_stopping s' = tc_stopping s \<and> tc_options s' = tc_options s \<and>
  tc_outbox s' = tc_outbox s \<and> tc_pending s' = tc_pending s \<and> tc_sent s' = tc_sent s \<and> tc_written s' = tc_written s"
  by (simp add: core_def)

text \<open>What a step of connecting and of the handshake keeps: the bytes, the pipe and the callbacks.\<close>

definition kept :: "tls_connection \<Rightarrow> tls_connection \<Rightarrow> bool" where
  "kept s s' \<longleftrightarrow> core s' = core s \<and> tc_wake s' = tc_wake s \<and> tc_calls s' = tc_calls s \<and> (\<exists>new. tc_trace s' = tc_trace s @ new)"

lemma kept_refl [simp]: "kept s s"
  by (simp add: kept_def)

lemma kept_trans: "kept s s' \<Longrightarrow> kept s' s'' \<Longrightarrow> kept s s''"
  by (auto simp: kept_def)

lemma kept_call: "call_tls c a s = (r, s') \<Longrightarrow> kept s s'"
  using call_tls_eqD [of c a s r s'] by (simp add: kept_def)

lemma kept_note [simp]: "kept s (note_call d s)"
  by (simp add: kept_def)

lemma kept_deadline [simp]: "kept s (s\<lparr>tc_deadline := t\<rparr>)"
  by (simp add: kept_def core_def)

lemma kept_wait: "wait_top lib fd w s = (r, s') \<Longrightarrow> kept s s'"
  by (auto simp: wait_top_def Let_def split: if_splits prod.splits dest!: kept_call intro: kept_trans)

lemma kept_expect: "expect_name lib name s = (ok, s') \<Longrightarrow> kept s s'"
  by (auto simp: expect_name_def split: if_splits prod.splits bool.splits dest!: kept_call intro: kept_trans)

lemma kept_refuse: "refuse fd e s = (p, s') \<Longrightarrow> kept s s' \<and> p = AtReport e"
  using kept_trans [OF kept_note kept_note] by (auto simp: refuse_def)

lemma kept_start: "start_ssl lib fd s = (p, s') \<Longrightarrow> kept s s' \<and> (p = AtHandshake fd \<or> p = AtReport HandshakeFailed)"
  using kept_trans [OF _ kept_note]
  by (fastforce simp: start_ssl_def split: prod.splits bool.splits dest!: kept_call kept_expect kept_refuse intro: kept_trans)

lemma kept_next: "next_candidate fd es s = (p, s') \<Longrightarrow> kept s s' \<and> p = AtCandidates (if tc_stopping s then [] else es)"
  by (auto simp: next_candidate_def)

lemma kept_stopping: "kept s s' \<Longrightarrow> tc_stopping s' = tc_stopping s"
  by (simp add: kept_def core_def)

lemma kept_try:
  assumes "try_candidate lib e es s = (p, s')"
  shows "kept s s' \<and> (p = AtCandidates es \<or> tc_stopping s \<and> p = AtCandidates [] \<or>
    (\<exists>fd. p = AtConnecting fd es \<or> p = AtHandshake fd) \<or> p = AtReport HandshakeFailed)"
proof -
  obtain fd s1 where c1: "call_tls (StreamSocket (ep_family e)) (\<lambda>tr. l_socket lib tr (ep_family e)) s = (fd, s1)" by fastforce
  obtain r s2 where c2: "call_tls (StartConnect fd (to_sockaddr e) (sockaddr_length e)) (\<lambda>tr. l_connect lib tr fd (to_sockaddr e))
      (note_call (StreamFlags fd) s1) = (r, s2)" by fastforce
  have k: "kept s s1" "kept s s2" using kept_call [OF c1] kept_call [OF c2] kept_note kept_trans by blast+
  have "fd < 0 \<and> p = AtCandidates es \<and> s' = s1 \<or> r = ConnectDone \<and> start_ssl lib fd s2 = (p, s') \<or>
      r = ConnectInProgress \<and> p = AtConnecting fd es \<and> s' = s2 \<or> r = ConnectRefused \<and> next_candidate fd es s2 = (p, s')"
    using assms by (cases r) (auto simp: try_candidate_def c1 c2 split: if_splits)
  then show ?thesis
    using k kept_start [of lib fd s2 p s'] kept_next [of fd es s2 p s'] kept_stopping [OF k(2)] kept_trans [OF k(2)]
    by (auto split: if_splits)
qed

lemma kept_begin: "begin_connection lib s = (p, s') \<Longrightarrow> kept s s' \<and> (\<exists>es. p = AtCandidates es)"
  by (auto simp: begin_connection_def Let_def split: prod.splits dest!: kept_call intro: kept_trans [OF _ kept_trans [OF kept_deadline]])

section \<open>Bytes\<close>

lemma kept_connecting_drain:
  assumes "connecting_drain lib fd es r s = (p, s')"
  shows "kept s s' \<and> (p = AtConnecting fd es \<or> p = AtCandidates (if tc_stopping s then [] else es) \<or>
      p = AtHandshake fd \<or> p = AtReport HandshakeFailed) \<and> tc_wake s = 0 \<and> (tc_stopping s \<longrightarrow> p = AtCandidates []) \<or>
    s' = drain_wake s \<and> p = AtConnectingDrain fd es r \<and> 0 < tc_wake s"
proof -
  obtain e s1 where c: "call_tls (SocketError fd) (\<lambda>tr. l_socket_error lib tr fd) s = (e, s1)" by fastforce
  have k: "kept s s1" using kept_call [OF c] .
  show ?thesis
    using assms k kept_start [of lib fd s1 p s'] kept_next [of fd es s1 p s'] kept_next [of fd es s p s'] kept_stopping [OF k] kept_trans [OF k]
    by (auto simp: connecting_drain_def wait_drain_def c split: if_splits bool.splits)
qed

lemma kept_handshake_drain:
  assumes "handshake_drain fd w r s = (p, s')"
  shows "kept s s' \<and> (p = AtHandshakeWait fd w \<or> p = AtReport ConnectFailed \<or> p = AtHandshake fd) \<and> tc_wake s = 0 \<and>
      (tc_stopping s \<longrightarrow> p = AtReport ConnectFailed) \<or>
    s' = drain_wake s \<and> p = AtHandshakeDrain fd w r \<and> 0 < tc_wake s"
  using assms kept_refuse [of fd ConnectFailed s p s'] by (auto simp: handshake_drain_def wait_drain_def split: if_splits)

lemma kept_handshake:
  assumes "handshake lib fd s = (p, s')"
  shows "kept s s' \<and> (p = AtReport HandshakeFailed \<or> (\<exists>w. p = AtHandshakeWait fd w)) \<or>
    (\<exists>s1 r. call_tls SslConnect (l_ssl_connect lib) s = ((True, r), s1) \<and> s' = tell OnConnected s1 \<and> p = AtRead fd)"
proof -
  obtain ok r s1 where c: "call_tls SslConnect (l_ssl_connect lib) s = ((ok, r), s1)" by (metis prod.exhaust)
  show ?thesis
    using assms kept_call [OF c] kept_refuse [of fd HandshakeFailed s1 p s'] kept_trans [OF kept_call [OF c], of s']
    by (cases ok; cases r) (auto simp: handshake_def c)
qed

text \<open>The bytes that were sent are those that were written, those the thread has and those in the outbox.\<close>

definition bytes_ok :: "tls_connection \<Rightarrow> bool" where
  "bytes_ok s \<longleftrightarrow> tc_sent s = tc_written s @ tc_pending s @ tc_outbox s"

lemma bytes_ok_core: "core s' = core s \<Longrightarrow> bytes_ok s' = bytes_ok s"
  by (simp add: core_def bytes_ok_def)

text \<open>The steps of the pump.\<close>

lemma pump_read_cases:
  assumes "pump_read lib fd s = (p, s')"
  obtains s1 bytes r where "call_tls SslRead (l_ssl_read lib) s = ((bytes, r), s1)" "bytes \<noteq> []" "p = AtRead fd" "s' = tell (OnData bytes) s1"
  | r where "call_tls SslRead (l_ssl_read lib) s = (([], r), s')" "p = AtShutdown fd \<or> p = AtTake fd"
  using assms by (auto simp: pump_read_def split: prod.splits if_splits)

lemma pump_write_cases:
  assumes "pump_write lib fd s = (p, s')"
  obtains "tc_pending s = []" "p = AtPoll fd False" "s' = s"
  | n r s1 where "tc_pending s \<noteq> []" "call_tls (SslWrite (take kChunk (tc_pending s))) (\<lambda>tr. l_ssl_write lib tr (take kChunk (tc_pending s))) s = ((n, r), s1)"
      "0 < n" "p = AtWrite fd" "s' = s1\<lparr>tc_pending := drop n (tc_pending s1), tc_written := tc_written s1 @ take n (tc_pending s1)\<rparr>"
  | r where "tc_pending s \<noteq> []" "call_tls (SslWrite (take kChunk (tc_pending s))) (\<lambda>tr. l_ssl_write lib tr (take kChunk (tc_pending s))) s = ((0, r), s')"
      "p = AtShutdown fd \<or> p = AtPoll fd True"
  using assms by (auto simp: pump_write_def Let_def split: prod.splits if_splits)

text \<open>A step keeps everything but the trace; or reads a callback; or drains; or moves bytes.\<close>

lemma tls_step_cases:
  assumes "tls_step lib p s = (p', s')"
  obtains (kept) "kept s s'"
  | (drained) "s' = drain_wake s" "0 < tc_wake s" "p' = p" "(\<exists>fd es r. p = AtConnectingDrain fd es r) \<or> (\<exists>fd w r. p = AtHandshakeDrain fd w r) \<or> (\<exists>fd. p = AtDrain fd)"
  | (connected) s1 fd r where "p = AtHandshake fd" "p' = AtRead fd" "call_tls SslConnect (l_ssl_connect lib) s = ((True, r), s1)" "s' = tell OnConnected s1"
  | (data) s1 fd bytes r where "p = AtRead fd" "p' = AtRead fd" "call_tls SslRead (l_ssl_read lib) s = ((bytes, r), s1)" "bytes \<noteq> []" "s' = tell (OnData bytes) s1"
  | (took) fd where "p = AtTake fd" "p' = AtWrite fd" "s' = pump_take s"
  | (wrote) s1 fd n r where "p = AtWrite fd" "p' = AtWrite fd" "0 < n" "call_tls (SslWrite (take kChunk (tc_pending s))) (\<lambda>tr. l_ssl_write lib tr (take kChunk (tc_pending s))) s = ((n, r), s1)"
      "s' = s1\<lparr>tc_pending := drop n (tc_pending s1), tc_written := tc_written s1 @ take n (tc_pending s1)\<rparr>" "tc_pending s \<noteq> []"
  | (reported) e where "p = AtReport e" "p' = AtOver" "\<not> tc_stopping s" "s' = tell (OnClosed e) s"
proof (cases p)
  case AtBegin
  then show ?thesis using assms kept kept_begin by (auto simp: tls_step_def)
next
  case (AtCandidates es)
  then show ?thesis using assms kept kept_try by (cases es) (auto simp: tls_step_def)
next
  case (AtConnecting fd es)
  then show ?thesis
    using assms kept kept_trans
    by (fastforce simp: tls_step_def split: prod.splits waited.splits dest!: kept_wait kept_next)
next
  case (AtConnectingDrain fd es r)
  then show ?thesis using assms kept drained kept_connecting_drain [of lib fd es r s p' s'] by (auto simp: tls_step_def)
next
  case (AtHandshake fd)
  then show ?thesis using assms kept connected kept_handshake [of lib fd s p' s'] by (auto simp: tls_step_def)
next
  case (AtHandshakeWait fd w)
  then show ?thesis
    using assms kept kept_trans
    by (fastforce simp: tls_step_def split: prod.splits waited.splits dest!: kept_wait kept_refuse)
next
  case (AtHandshakeDrain fd w r)
  then show ?thesis using assms kept drained kept_handshake_drain [of fd w r s p' s'] by (auto simp: tls_step_def)
next
  case (AtRead fd)
  then show ?thesis using assms kept data by (auto simp: tls_step_def dest: kept_call elim!: pump_read_cases)
next
  case (AtTake fd)
  then show ?thesis using assms took by (simp add: tls_step_def)
next
  case (AtWrite fd)
  then show ?thesis using assms kept wrote by (auto simp: tls_step_def dest: kept_call elim!: pump_write_cases)
next
  case (AtPoll fd w)
  then show ?thesis using assms kept by (auto simp: tls_step_def dest: kept_call split: prod.splits)
next
  case (AtDrain fd)
  then show ?thesis using assms kept drained by (auto simp: tls_step_def pump_drain_def split: if_splits)
next
  case (AtShutdown fd)
  then have "s' = note_call (StreamClose fd) (note_call SslFree (note_call SslShutdown s))" using assms by (simp add: tls_step_def)
  then show ?thesis by (intro kept) (simp add: kept_def)
next
  case (AtReport e)
  then have e: "p' = AtOver" "s' = (if tc_stopping s then s else tell (OnClosed e) s)" using assms by (simp_all add: tls_step_def)
  show ?thesis
  proof (cases "tc_stopping s")
    case True
    then show ?thesis using e by (intro kept) simp
  qed (use e reported [OF AtReport] in simp)
next
  case AtOver
  then have "s' = s" using assms by (simp add: tls_step_def)
  then show ?thesis by (intro kept) simp
qed

lemma bytes_ok_step: "tls_step lib p s = (p', s') \<Longrightarrow> bytes_ok s \<Longrightarrow> bytes_ok s' \<and> tc_sent s' = tc_sent s \<and> tc_stopping s' = tc_stopping s \<and>
  tc_options s' = tc_options s"
  by (erule tls_step_cases)
    (auto simp: kept_def core_def drain_wake_def bytes_ok_def pump_take_def tell_def dest!: call_tls_D)


section \<open>Wake-ups\<close>

fun drains :: "place \<Rightarrow> bool" where
  "drains (AtConnectingDrain fd es r) = True"
| "drains (AtHandshakeDrain fd w r) = True"
| "drains (AtDrain fd) = True"
| "drains _ = False"

text \<open>The thread is on its way out, whatever the system answers.\<close>

fun leaving :: "place \<Rightarrow> bool" where
  "leaving (AtCandidates []) = True"
| "leaving (AtShutdown fd) = True"
| "leaving (AtReport e) = True"
| "leaving AtOver = True"
| "leaving _ = False"

fun past_take :: "place \<Rightarrow> bool" where
  "past_take (AtWrite fd) = True"
| "past_take (AtPoll fd w) = True"
| "past_take _ = False"

definition roused :: "place \<Rightarrow> nat \<Rightarrow> tls_connection \<Rightarrow> bool" where
  "roused p n s \<longleftrightarrow>
     (tc_outbox s \<noteq> [] \<and> past_take p \<longrightarrow> 0 < tc_wake s + n) \<and>
     (tc_stopping s \<and> \<not> drains p \<and> \<not> leaving p \<longrightarrow> 0 < tc_wake s + n) \<and>
     (case p of AtPoll fd w \<Rightarrow> tc_pending s \<noteq> [] \<longrightarrow> w | _ \<Rightarrow> True)"

lemma step_from_connect:
  assumes "tls_step lib p s = (p', s')"
  shows "(\<exists>es. p = AtCandidates es \<or> (\<exists>fd. p = AtConnecting fd es)) \<or> p = AtBegin \<or> (\<exists>fd w. p = AtHandshakeWait fd w) \<Longrightarrow>
      kept s s' \<and> \<not> past_take p' \<and> (\<forall>fd. p' \<noteq> AtDrain fd)"
    and "p = AtHandshake fd \<Longrightarrow> kept s s' \<and> (p' = AtReport HandshakeFailed \<or> (\<exists>w. p' = AtHandshakeWait fd w)) \<or>
      core s' = core s \<and> tc_wake s' = tc_wake s \<and> p' = AtRead fd"
proof -
  assume a: "(\<exists>es. p = AtCandidates es \<or> (\<exists>fd. p = AtConnecting fd es)) \<or> p = AtBegin \<or> (\<exists>fd w. p = AtHandshakeWait fd w)"
  then have "kept s s'" using assms by (elim tls_step_cases) auto
  moreover have "\<not> past_take p' \<and> (\<forall>fd. p' \<noteq> AtDrain fd)"
    using a assms
    by (auto simp: tls_step_def split: list.splits prod.splits waited.splits dest!: kept_next kept_refuse kept_try kept_begin)
  ultimately show "kept s s' \<and> \<not> past_take p' \<and> (\<forall>fd. p' \<noteq> AtDrain fd)" by blast
next
  assume "p = AtHandshake fd"
  then show "kept s s' \<and> (p' = AtReport HandshakeFailed \<or> (\<exists>w. p' = AtHandshakeWait fd w)) \<or>
      core s' = core s \<and> tc_wake s' = tc_wake s \<and> p' = AtRead fd"
    using assms kept_handshake [of lib fd s p' s'] by (auto simp: tls_step_def dest!: call_tls_D)
qed

lemma roused_kept:
  "roused p n s \<Longrightarrow> kept s s' \<Longrightarrow> \<not> past_take p' \<Longrightarrow> \<not> drains p \<Longrightarrow> (leaving p \<Longrightarrow> leaving p') \<Longrightarrow> roused p' n s'"
  by (auto simp: roused_def kept_def core_def split: place.splits)

lemma roused_step:
  assumes "tls_step lib p s = (p', s')" and "roused p n s"
  shows "roused p' n s'"
proof (cases p)
  case AtBegin
  then show ?thesis using roused_kept [OF assms(2)] step_from_connect(1) [OF assms(1)] by auto
next
  case (AtCandidates es)
  then show ?thesis
    using roused_kept [OF assms(2)] step_from_connect(1) [OF assms(1)] assms(1) by (cases es) (auto simp: tls_step_def)
next
  case (AtConnecting fd es)
  then show ?thesis using roused_kept [OF assms(2)] step_from_connect(1) [OF assms(1)] by auto
next
  case (AtConnectingDrain fd es r)
  then show ?thesis
    using assms kept_connecting_drain [of lib fd es r s p' s']
    by (auto simp: tls_step_def roused_def kept_def core_def drain_wake_def)
next
  case (AtHandshake fd)
  then show ?thesis
    using step_from_connect(2) [OF assms(1), of fd] assms(2) by (auto simp: roused_def kept_def core_def)
next
  case (AtHandshakeWait fd w)
  then show ?thesis using roused_kept [OF assms(2)] step_from_connect(1) [OF assms(1)] by auto
next
  case (AtHandshakeDrain fd w r)
  then show ?thesis
    using assms kept_handshake_drain [of fd w r s p' s'] by (auto simp: tls_step_def roused_def kept_def core_def drain_wake_def)
next
  case (AtRead fd)
  then show ?thesis
    using assms by (auto simp: tls_step_def roused_def core_def tell_def dest!: call_tls_D elim!: pump_read_cases)
next
  case (AtTake fd)
  then show ?thesis using assms by (auto simp: tls_step_def roused_def pump_take_def)
next
  case (AtWrite fd)
  then show ?thesis
    using assms by (auto simp: tls_step_def roused_def core_def tell_def dest!: call_tls_D elim!: pump_write_cases)
next
  case (AtPoll fd w)
  then show ?thesis using assms by (auto simp: tls_step_def roused_def core_def tell_def dest!: call_tls_D split: prod.splits)
qed (use assms in \<open>auto simp: tls_step_def roused_def pump_drain_def drain_wake_def note_call_def tell_def split: if_splits\<close>)


section \<open>Callbacks\<close>

fun phase :: "place \<Rightarrow> nat" where
  "phase (AtRead fd) = 1" | "phase (AtTake fd) = 1" | "phase (AtWrite fd) = 1" | "phase (AtPoll fd w) = 1" | "phase (AtDrain fd) = 1"
| "phase (AtShutdown fd) = 1" | "phase (AtReport e) = 2" | "phase AtOver = 3" | "phase _ = 0"

definition in_order :: "callback list \<Rightarrow> bool" where
  "in_order cs \<longleftrightarrow> cs = [] \<or> (\<exists>e. cs = [OnClosed e]) \<or>
     (\<exists>ds. [] \<notin> set ds \<and> (cs = OnConnected # map OnData ds \<or> cs = OnConnected # map OnData ds @ [OnClosed StreamClosed]))"

definition talk_ok :: "place \<Rightarrow> callback list \<Rightarrow> bool" where
  "talk_ok p cs \<longleftrightarrow>
     (phase p = 0 \<longrightarrow> cs = []) \<and>
     (phase p = 1 \<or> p = AtReport StreamClosed \<longrightarrow> (\<exists>ds. [] \<notin> set ds \<and> cs = OnConnected # map OnData ds)) \<and>
     (phase p = 2 \<and> p \<noteq> AtReport StreamClosed \<longrightarrow> cs = []) \<and> in_order cs"

lemma connect_places:
  assumes "tls_step lib p s = (p', s')" and "phase p = 0"
  shows "tc_calls s' = tc_calls s \<and> (phase p' = 0 \<or> phase p' = 2 \<and> p' \<noteq> AtReport StreamClosed) \<or>
    phase p' = 1 \<and> tc_calls s' = tc_calls s @ [OnConnected] \<and> (\<exists>fd r s1. p = AtHandshake fd \<and> p' = AtRead fd \<and>
      call_tls SslConnect (l_ssl_connect lib) s = ((True, r), s1) \<and> tc_trace s' = tc_trace s1)"
proof (cases p)
  case AtBegin
  then show ?thesis using assms kept_begin [of lib s p' s'] by (auto simp: tls_step_def kept_def)
next
  case (AtCandidates es)
  then show ?thesis using assms by (cases es) (auto simp: tls_step_def kept_def dest!: kept_try)
next
  case (AtConnecting fd es)
  then show ?thesis
    using assms by (auto simp: tls_step_def kept_def split: prod.splits waited.splits dest!: kept_wait kept_next)
next
  case (AtConnectingDrain fd es r)
  then show ?thesis using assms kept_connecting_drain [of lib fd es r s p' s'] by (auto simp: tls_step_def kept_def drain_wake_def)
next
  case (AtHandshake fd)
  then show ?thesis
    using assms kept_handshake [of lib fd s p' s'] by (auto simp: tls_step_def kept_def dest: call_tls_D)
next
  case (AtHandshakeWait fd w)
  then show ?thesis
    using assms by (auto simp: tls_step_def kept_def split: prod.splits waited.splits dest!: kept_wait kept_refuse)
next
  case (AtHandshakeDrain fd w r)
  then show ?thesis using assms kept_handshake_drain [of fd w r s p' s'] by (auto simp: tls_step_def kept_def drain_wake_def)
qed (use assms(2) in simp_all)

lemma pump_places:
  assumes "tls_step lib p s = (p', s')" and "phase p = 1"
  shows "phase p' = 1 \<and> (tc_calls s' = tc_calls s \<or> (\<exists>d. d \<noteq> [] \<and> tc_calls s' = tc_calls s @ [OnData d])) \<or>
    p' = AtReport StreamClosed \<and> tc_calls s' = tc_calls s"
  using assms
  by (cases p) (auto simp: tls_step_def pump_take_def pump_drain_def drain_wake_def split: prod.splits if_splits dest!: call_tls_D
      elim!: pump_read_cases pump_write_cases)

lemma talk_ok_step:
  assumes "tls_step lib p s = (p', s')" and "talk_ok p (tc_calls s)"
  shows "talk_ok p' (tc_calls s')"
proof -
  consider "phase p = 0" | "phase p = 1" | e where "p = AtReport e" | "p = AtOver"
    by (cases p) auto
  then show ?thesis
  proof cases
    case 1
    then show ?thesis using connect_places [OF assms(1) 1] assms(2) by (auto simp: talk_ok_def in_order_def)
  next
    case 2
    then obtain ds where ds: "[] \<notin> set ds" "tc_calls s = OnConnected # map OnData ds" using assms(2) by (auto simp: talk_ok_def)
    have "\<exists>ds'. [] \<notin> set ds' \<and> OnConnected # map OnData ds @ [OnData d] = OnConnected # map OnData ds'" if "d \<noteq> []" for d
      using that ds(1) by (intro exI [of _ "ds @ [d]"]) simp
    then show ?thesis using pump_places [OF assms(1) 2] ds by (auto simp: talk_ok_def in_order_def)
  next
    case 3
    then show ?thesis using assms by (auto simp: tls_step_def talk_ok_def in_order_def split: if_splits)
  next
    case 4
    then show ?thesis using assms by (auto simp: tls_step_def talk_ok_def)
  qed
qed


section \<open>Verification of the server\<close>

text \<open>
  The context demands TLS 1.2 and a certificate that leads to the system's anchors, or to the given ones
  and no others; the name is the expected one; and the handshake succeeded under these demands.
\<close>

definition context_demands :: "tls_options \<Rightarrow> tls_trace \<Rightarrow> bool" where
  "context_demands options tr \<longleftrightarrow> MinProto12 \<in> set tr \<and> VerifyPeer \<in> set tr \<and>
     (if tls_trust_anchors_pem options = [] then DefaultPaths True \<in> set tr
      else \<exists>ders. pem_certificates (tls_trust_anchors_pem options) = Some ders \<and> (\<forall>der \<in> set ders. AddCert der True \<in> set tr) \<and>
        (\<forall>ok. DefaultPaths ok \<notin> set tr))"

definition name_demanded :: "tls_library \<Rightarrow> tls_options \<Rightarrow> tls_trace \<Rightarrow> bool" where
  "name_demanded lib options tr \<longleftrightarrow>
     (let name = c_str (expected_name options)
      in if l_is_address lib name then SetIp name True \<in> set tr else SetSni name True \<in> set tr \<and> SetHost name True \<in> set tr)"

definition server_verified :: "tls_library \<Rightarrow> tls_options \<Rightarrow> tls_trace \<Rightarrow> bool" where
  "server_verified lib options tr \<longleftrightarrow> context_demands options tr \<and> name_demanded lib options tr \<and> (\<exists>r. SslConnect (True, r) \<in> set tr)"

text \<open>The thread only makes calls of its own kind: the demands of the context are final.\<close>

definition of_thread :: "tls_call \<Rightarrow> bool" where
  "of_thread c \<longleftrightarrow> (\<forall>ok. c \<noteq> DefaultPaths ok)"

definition lengthens :: "tls_trace \<Rightarrow> tls_trace \<Rightarrow> bool" where
  "lengthens tr tr' \<longleftrightarrow> (\<exists>new. tr' = tr @ new \<and> list_all of_thread new)"

lemma lengthens_refl [simp]: "lengthens tr tr"
  by (simp add: lengthens_def)

lemma lengthens_snoc: "lengthens tr tr' \<Longrightarrow> of_thread c \<Longrightarrow> lengthens tr (tr' @ [c])"
  by (auto simp: lengthens_def)

lemma lengthens_demands:
  "lengthens tr tr' \<Longrightarrow> context_demands options tr \<Longrightarrow> context_demands options tr'"
  "lengthens tr tr' \<Longrightarrow> name_demanded lib options tr \<Longrightarrow> name_demanded lib options tr'"
  by (auto simp: lengthens_def context_demands_def name_demanded_def Let_def of_thread_def list_all_iff split: if_splits)

lemma expect_name_demands:
  assumes "expect_name lib (expected_name options) s = (ok, s')"
  shows "lengthens (tc_trace s) (tc_trace s') \<and> (ok \<longrightarrow> name_demanded lib options (tc_trace s'))"
  using assms
  by (auto simp: expect_name_def name_demanded_def Let_def lengthens_def of_thread_def split: if_splits prod.splits bool.splits dest!: call_tls_D)

lemma call_extends: "call_tls c a s = (r, s') \<Longrightarrow> lengthens tr (tc_trace s) \<Longrightarrow> of_thread (c r) \<Longrightarrow> lengthens tr (tc_trace s')"
  by (auto dest!: call_tls_D intro: lengthens_snoc)

lemma lengthens_trans: "lengthens a b \<Longrightarrow> lengthens b c \<Longrightarrow> lengthens a c"
  by (auto simp: lengthens_def)

lemma start_ssl_demands:
  assumes "start_ssl lib fd s = (p, s')"
  shows "lengthens (tc_trace s) (tc_trace s') \<and> (p = AtHandshake fd \<longrightarrow> name_demanded lib (tc_options s) (tc_trace s'))"
proof -
  obtain ok s1 where c1: "call_tls SslNew (l_ssl_new lib) s = (ok, s1)" by fastforce
  obtain ok2 s2 where c2: "expect_name lib (expected_name (tc_options s1)) s1 = (ok2, s2)" by fastforce
  obtain ok3 s3 where c3: "call_tls (SetFd fd) (\<lambda>tr. l_set_fd lib tr fd) s2 = (ok3, s3)" by fastforce
  have o: "tc_options s1 = tc_options s" using call_tls_D [OF c1] by (simp add: core_def)
  have e1: "lengthens (tc_trace s) (tc_trace s1)" by (rule call_extends [OF c1]) (simp_all add: of_thread_def)
  note n = expect_name_demands [OF c2]
  have e2: "lengthens (tc_trace s) (tc_trace s2)" using lengthens_trans [OF e1] n by blast
  have e3: "lengthens (tc_trace s) (tc_trace s3)" "lengthens (tc_trace s2) (tc_trace s3)"
    by (rule call_extends [OF c3]; simp add: e2 of_thread_def)+
  have "p = AtHandshake fd \<and> s' = s3 \<and> ok2 \<or> p \<noteq> AtHandshake fd \<and>
      (s' = note_call (StreamClose fd) s1 \<or> s' = note_call (StreamClose fd) (note_call SslFree s2) \<or>
       s' = note_call (StreamClose fd) (note_call SslFree s3))"
    using assms by (cases ok; cases ok2; cases ok3) (auto simp: start_ssl_def c1 c2 c3 refuse_def)
  then show ?thesis
    using e1 e2 e3 n o lengthens_demands(2) [OF e3(2)]
    by (auto simp del: append_assoc simp: of_thread_def intro!: lengthens_snoc)
qed

fun past_name :: "place \<Rightarrow> bool" where
  "past_name (AtHandshake fd) = True" | "past_name (AtHandshakeWait fd w) = True" | "past_name (AtHandshakeDrain fd w r) = True"
| "past_name p = (phase p = 1)"

definition demands_ok :: "tls_library \<Rightarrow> place \<Rightarrow> tls_connection \<Rightarrow> bool" where
  "demands_ok lib p s \<longleftrightarrow> context_demands (tc_options s) (tc_trace s) \<and>
     (past_name p \<longrightarrow> name_demanded lib (tc_options s) (tc_trace s)) \<and>
     (OnConnected \<in> set (tc_calls s) \<longrightarrow> server_verified lib (tc_options s) (tc_trace s)) \<and>
     (tc_written s \<noteq> [] \<longrightarrow> OnConnected \<in> set (tc_calls s))"


lemma try_candidate_demands:
  assumes "try_candidate lib e es s = (p, s')"
  shows "lengthens (tc_trace s) (tc_trace s') \<and> (past_name p \<longrightarrow> name_demanded lib (tc_options s) (tc_trace s'))"
proof -
  obtain fd s1 where c1: "call_tls (StreamSocket (ep_family e)) (\<lambda>tr. l_socket lib tr (ep_family e)) s = (fd, s1)" by fastforce
  obtain r s2 where c2: "call_tls (StartConnect fd (to_sockaddr e) (sockaddr_length e)) (\<lambda>tr. l_connect lib tr fd (to_sockaddr e))
      (note_call (StreamFlags fd) s1) = (r, s2)" by fastforce
  have e1: "lengthens (tc_trace s) (tc_trace s1)" by (rule call_extends [OF c1]) (simp_all add: of_thread_def)
  have "lengthens (tc_trace s) (tc_trace (note_call (StreamFlags fd) s1))" using e1 by (simp add: lengthens_snoc of_thread_def)
  then have e2: "lengthens (tc_trace s) (tc_trace s2)" by (rule call_extends [OF c2]) (simp add: of_thread_def)
  have o: "tc_options s2 = tc_options s" using call_tls_D [OF c1] call_tls_D [OF c2] by (simp add: core_def note_call_def)
  have "fd < 0 \<and> p = AtCandidates es \<and> s' = s1 \<or> r = ConnectDone \<and> start_ssl lib fd s2 = (p, s') \<or>
      r = ConnectInProgress \<and> p = AtConnecting fd es \<and> s' = s2 \<or> r = ConnectRefused \<and> next_candidate fd es s2 = (p, s')"
    using assms by (cases r) (auto simp: try_candidate_def c1 c2 split: if_splits)
  then show ?thesis
    using e1 e2 o start_ssl_demands [of lib fd s2 p s'] kept_start [of lib fd s2 p s'] lengthens_trans [OF e2]
    by (auto simp: next_candidate_def lengthens_snoc of_thread_def)
qed

lemma connecting_drain_demands:
  assumes "connecting_drain lib fd es r s = (p, s')"
  shows "lengthens (tc_trace s) (tc_trace s') \<and> (past_name p \<longrightarrow> name_demanded lib (tc_options s) (tc_trace s'))"
proof -
  obtain e s1 where c: "call_tls (SocketError fd) (\<lambda>tr. l_socket_error lib tr fd) s = (e, s1)" by fastforce
  have e1: "lengthens (tc_trace s) (tc_trace s1)" by (rule call_extends [OF c]) (simp_all add: of_thread_def)
  have o: "tc_options s1 = tc_options s" using call_tls_D [OF c] by (simp add: core_def)
  show ?thesis
    using assms e1 o start_ssl_demands [of lib fd s1 p s'] kept_start [of lib fd s1 p s'] lengthens_trans [OF e1]
    by (auto simp: connecting_drain_def wait_drain_def c next_candidate_def drain_wake_def lengthens_snoc of_thread_def split: if_splits bool.splits)
qed

lemma wait_extends: "wait_top lib fd w s = (r, s') \<Longrightarrow> lengthens (tc_trace s) (tc_trace s')"
  by (auto simp: wait_top_def Let_def lengthens_def of_thread_def split: if_splits prod.splits dest!: call_tls_D)

lemma step_demands:
  assumes "tls_step lib p s = (p', s')"
  shows "lengthens (tc_trace s) (tc_trace s') \<and> (past_name p' \<and> \<not> past_name p \<longrightarrow> name_demanded lib (tc_options s) (tc_trace s'))"
proof (cases p)
  case AtBegin
  then show ?thesis
    using assms by (auto simp: tls_step_def begin_connection_def Let_def lengthens_def of_thread_def split: prod.splits dest!: call_tls_D)
next
  case (AtCandidates es)
  then show ?thesis using assms try_candidate_demands by (cases es) (auto simp: tls_step_def)
next
  case (AtConnecting fd es)
  then show ?thesis
    using assms by (auto simp: tls_step_def next_candidate_def lengthens_snoc of_thread_def split: prod.splits waited.splits dest!: wait_extends)
next
  case (AtConnectingDrain fd es r)
  then show ?thesis using assms connecting_drain_demands by (auto simp: tls_step_def)
next
  case (AtHandshake fd)
  then show ?thesis
    using assms
    by (auto simp: tls_step_def handshake_def refuse_def lengthens_def of_thread_def split: prod.splits if_splits ssl_reason.splits dest!: call_tls_D)
next
  case (AtHandshakeWait fd w)
  then show ?thesis
    using assms by (auto simp del: append_assoc simp: tls_step_def refuse_def of_thread_def
        split: prod.splits waited.splits dest!: wait_extends intro!: lengthens_snoc)
next
  case (AtHandshakeDrain fd w r)
  then show ?thesis
    using assms by (auto simp: tls_step_def handshake_drain_def wait_drain_def refuse_def drain_wake_def lengthens_def of_thread_def split: if_splits)
next
  case (AtRead fd)
  then show ?thesis using assms by (auto simp: tls_step_def lengthens_def of_thread_def dest!: call_tls_D elim!: pump_read_cases)
next
  case (AtTake fd)
  then show ?thesis using assms by (auto simp: tls_step_def pump_take_def)
next
  case (AtWrite fd)
  then show ?thesis using assms by (auto simp: tls_step_def lengthens_def of_thread_def dest!: call_tls_D elim!: pump_write_cases)
next
  case (AtPoll fd w)
  then show ?thesis using assms by (auto simp: tls_step_def lengthens_def of_thread_def split: prod.splits dest!: call_tls_D)
next
  case (AtDrain fd)
  then show ?thesis using assms by (auto simp: tls_step_def pump_drain_def drain_wake_def split: if_splits)
qed (use assms in \<open>auto simp: tls_step_def lengthens_def of_thread_def split: if_splits\<close>)

lemma demands_ok_step:
  assumes "tls_step lib p s = (p', s')" and "demands_ok lib p s" and "talk_ok p (tc_calls s)"
  shows "demands_ok lib p' s'"
proof -
  note e = step_demands [OF assms(1)]
  have o: "tc_options s' = tc_options s"
    using assms(1) by (elim tls_step_cases) (auto simp: kept_def core_def drain_wake_def pump_take_def tell_def dest!: call_tls_D)
  have c: "context_demands (tc_options s) (tc_trace s')" using e assms(2) lengthens_demands(1) by (auto simp: demands_ok_def)
  have n: "past_name p' \<Longrightarrow> name_demanded lib (tc_options s) (tc_trace s')"
    using e assms(2) lengthens_demands(2) by (auto simp: demands_ok_def)
  have v: "server_verified lib (tc_options s) (tc_trace s) \<Longrightarrow> server_verified lib (tc_options s) (tc_trace s')"
    using lengthens_demands [OF conjunct1 [OF e]] e unfolding server_verified_def by (auto simp: lengthens_def)
  show ?thesis
    using assms(1)
  proof (cases rule: tls_step_cases)
    case kept
    then show ?thesis using c n o v assms(2) by (auto simp: demands_ok_def kept_def core_def)
  next
    case drained
    then show ?thesis using c n o v assms(2) by (auto simp: demands_ok_def drain_wake_def)
  next
    case (connected s1 fd r)
    then have "server_verified lib (tc_options s) (tc_trace s')" using c n by (auto simp: server_verified_def dest!: call_tls_D)
    then show ?thesis using c n o connected by (auto simp: demands_ok_def)
  next
    case (data s1 fd bytes r)
    then show ?thesis using c n o v assms(2) by (auto simp: demands_ok_def core_def tell_def dest!: call_tls_D)
  next
    case (took fd)
    then show ?thesis using c n o v assms(2) by (auto simp: demands_ok_def pump_take_def)
  next
    case (wrote s1 fd n r)
    then show ?thesis using c n o v assms(2,3) by (auto simp: demands_ok_def talk_ok_def dest!: call_tls_D)
  next
    case (reported e)
    then show ?thesis using c n o v assms(2) by (auto simp: demands_ok_def tell_def)
  qed
qed


section \<open>Sockets and sessions\<close>

definition open_sockets :: "tls_trace \<Rightarrow> int set" where
  "open_sockets tr = fold (\<lambda>c S. case c of StreamSocket f fd \<Rightarrow> if fd \<ge> 0 then insert fd S else S | StreamClose fd \<Rightarrow> S - {fd} | _ \<Rightarrow> S) tr {}"

definition live_sessions :: "tls_trace \<Rightarrow> int" where
  "live_sessions tr = sum_list (map (\<lambda>c. case c of SslNew ok \<Rightarrow> if ok then 1 else 0 | SslFree \<Rightarrow> - 1 | _ \<Rightarrow> 0) tr)"

definition balance :: "tls_trace \<Rightarrow> int set \<times> int" where
  "balance tr = (open_sockets tr, live_sessions tr)"

lemma balance_snoc [simp]:
  "balance (tr @ [c]) =
     (case c of
        StreamSocket f fd \<Rightarrow> (if fd \<ge> 0 then insert fd (open_sockets tr) else open_sockets tr, live_sessions tr)
      | StreamClose fd \<Rightarrow> (open_sockets tr - {fd}, live_sessions tr)
      | SslNew ok \<Rightarrow> (open_sockets tr, live_sessions tr + (if ok then 1 else 0))
      | SslFree \<Rightarrow> (open_sockets tr, live_sessions tr - 1)
      | _ \<Rightarrow> balance tr)"
  by (cases c) (simp_all add: balance_def open_sockets_def live_sessions_def)

lemma balance_eqD: "balance tr = (S, n) \<Longrightarrow> open_sockets tr = S \<and> live_sessions tr = n"
  by (simp add: balance_def)

text \<open>What the thread owns at each place: the socket, and the session on it.\<close>

fun owns :: "place \<Rightarrow> int set \<times> int" where
  "owns (AtConnecting fd es) = ({fd}, 0)" | "owns (AtConnectingDrain fd es r) = ({fd}, 0)"
| "owns (AtHandshake fd) = ({fd}, 1)" | "owns (AtHandshakeWait fd w) = ({fd}, 1)" | "owns (AtHandshakeDrain fd w r) = ({fd}, 1)"
| "owns (AtRead fd) = ({fd}, 1)" | "owns (AtTake fd) = ({fd}, 1)" | "owns (AtWrite fd) = ({fd}, 1)" | "owns (AtPoll fd w) = ({fd}, 1)"
| "owns (AtDrain fd) = ({fd}, 1)" | "owns (AtShutdown fd) = ({fd}, 1)" | "owns _ = ({}, 0)"

lemma balance_call: "call_tls c a s = (r, s') \<Longrightarrow> balance (tc_trace s') = balance (tc_trace s @ [c r])"
  by (auto dest!: call_tls_D)

lemma balance_wait: "wait_top lib fd w s = (r, s') \<Longrightarrow> balance (tc_trace s') = balance (tc_trace s)"
  by (auto simp: wait_top_def Let_def split: if_splits prod.splits dest!: balance_call)

lemma balance_expect: "expect_name lib name s = (ok, s') \<Longrightarrow> balance (tc_trace s') = balance (tc_trace s)"
  by (auto simp: expect_name_def split: if_splits prod.splits bool.splits dest!: balance_call)

lemma balance_refuse: "refuse fd e s = (p, s') \<Longrightarrow> balance (tc_trace s) = ({fd}, 1) \<Longrightarrow> balance (tc_trace s') = owns p"
proof -
  assume "refuse fd e s = (p, s')" "balance (tc_trace s) = ({fd}, 1)"
  then have "balance ((tc_trace s @ [SslFree]) @ [StreamClose fd]) = ({}, 0)"
    using balance_snoc [of "tc_trace s" SslFree] by (subst balance_snoc) (simp add: balance_def del: append_assoc)
  then show ?thesis using \<open>refuse fd e s = (p, s')\<close> by (auto simp: refuse_def)
qed

lemma balance_start:
  assumes "start_ssl lib fd s = (p, s')" and "balance (tc_trace s) = ({fd}, 0)"
  shows "balance (tc_trace s') = owns p"
proof -
  obtain ok s1 where c1: "call_tls SslNew (l_ssl_new lib) s = (ok, s1)" by fastforce
  obtain ok2 s2 where c2: "expect_name lib (expected_name (tc_options s1)) s1 = (ok2, s2)" by fastforce
  obtain ok3 s3 where c3: "call_tls (SetFd fd) (\<lambda>tr. l_set_fd lib tr fd) s2 = (ok3, s3)" by fastforce
  have b1: "balance (tc_trace s1) = ({fd}, if ok then 1 else 0)"
    using balance_call [OF c1] balance_eqD [OF assms(2)] by simp
  have b2: "balance (tc_trace s2) = ({fd}, if ok then 1 else 0)" "balance (tc_trace s3) = ({fd}, if ok then 1 else 0)"
    using b1 balance_expect [OF c2] balance_call [OF c3] by simp_all
  show ?thesis
    using assms(1) b1 b2 balance_refuse [of fd HandshakeFailed s2 p s'] balance_refuse [of fd HandshakeFailed s3 p s'] balance_eqD [OF b1]
    by (cases ok; cases ok2; cases ok3) (auto simp: start_ssl_def c1 c2 c3)
qed

lemma balance_next: "next_candidate fd es s = (p, s') \<Longrightarrow> balance (tc_trace s) = ({fd}, 0) \<Longrightarrow> balance (tc_trace s') = owns p"
  by (auto simp: next_candidate_def dest: balance_eqD)

lemma balance_try:
  assumes "try_candidate lib e es s = (p, s')" and "balance (tc_trace s) = ({}, 0)"
  shows "balance (tc_trace s') = owns p"
proof -
  obtain fd s1 where c1: "call_tls (StreamSocket (ep_family e)) (\<lambda>tr. l_socket lib tr (ep_family e)) s = (fd, s1)" by fastforce
  obtain r s2 where c2: "call_tls (StartConnect fd (to_sockaddr e) (sockaddr_length e)) (\<lambda>tr. l_connect lib tr fd (to_sockaddr e))
      (note_call (StreamFlags fd) s1) = (r, s2)" by fastforce
  have b: "balance (tc_trace s1) = (if fd \<ge> 0 then {fd} else {}, 0)" "balance (tc_trace s2) = (if fd \<ge> 0 then {fd} else {}, 0)"
    using balance_call [OF c1] balance_call [OF c2] balance_eqD [OF assms(2)] by (auto simp: balance_snoc simp del: append_assoc)
  have "fd < 0 \<and> p = AtCandidates es \<and> s' = s1 \<or> fd \<ge> 0 \<and> (start_ssl lib fd s2 = (p, s') \<or> p = AtConnecting fd es \<and> s' = s2 \<or>
      next_candidate fd es s2 = (p, s'))"
    using assms(1) by (cases r) (auto simp: try_candidate_def c1 c2 split: if_splits)
  then show ?thesis using b balance_start [of lib fd s2 p s'] balance_next [of fd es s2 p s'] by auto
qed

lemma balance_connecting:
  assumes "connecting_drain lib fd es r s = (p, s')" and "balance (tc_trace s) = ({fd}, 0)"
  shows "balance (tc_trace s') = owns p"
proof -
  obtain e s1 where c: "call_tls (SocketError fd) (\<lambda>tr. l_socket_error lib tr fd) s = (e, s1)" by fastforce
  have b: "balance (tc_trace s1) = ({fd}, 0)" using balance_call [OF c] assms(2) by simp
  show ?thesis
    using assms b balance_start [of lib fd s1 p s'] balance_next [of fd es s1 p s'] balance_next [of fd es s p s']
    by (auto simp: connecting_drain_def wait_drain_def c drain_wake_def split: if_splits bool.splits)
qed


lemma balance_step:
  assumes "tls_step lib p s = (p', s')" and "balance (tc_trace s) = owns p"
  shows "balance (tc_trace s') = owns p'"
proof (cases p)
  case AtBegin
  then show ?thesis
    using assms by (auto simp: tls_step_def begin_connection_def Let_def split: prod.splits dest!: balance_call)
next
  case (AtCandidates es)
  then show ?thesis using assms balance_try [of lib _ _ s p' s'] by (cases es) (auto simp: tls_step_def)
next
  case (AtConnecting fd es)
  then show ?thesis
    using assms by (auto simp: tls_step_def split: prod.splits waited.splits dest: balance_next dest!: balance_wait)
next
  case (AtConnectingDrain fd es r)
  then show ?thesis using assms balance_connecting [of lib fd es r s p' s'] by (simp add: tls_step_def)
next
  case (AtHandshake fd)
  then show ?thesis
    using assms by (auto simp: tls_step_def handshake_def split: prod.splits if_splits ssl_reason.splits dest: balance_refuse dest!: balance_call)
next
  case (AtHandshakeWait fd w)
  then show ?thesis
    using assms by (auto simp: tls_step_def split: prod.splits waited.splits dest: balance_refuse dest!: balance_wait)
next
  case (AtHandshakeDrain fd w r)
  then show ?thesis
    using assms by (auto simp: tls_step_def handshake_drain_def wait_drain_def drain_wake_def split: if_splits dest: balance_refuse)
next
  case (AtRead fd)
  then show ?thesis using assms by (auto simp: tls_step_def dest!: balance_call elim!: pump_read_cases)
next
  case (AtTake fd)
  then show ?thesis using assms by (auto simp: tls_step_def pump_take_def)
next
  case (AtWrite fd)
  then show ?thesis using assms by (auto simp: tls_step_def dest!: balance_call elim!: pump_write_cases)
next
  case (AtPoll fd w)
  then show ?thesis using assms by (auto simp: tls_step_def split: prod.splits dest!: balance_call)
next
  case (AtDrain fd)
  then show ?thesis using assms by (auto simp: tls_step_def pump_drain_def drain_wake_def split: if_splits)
next
  case (AtShutdown fd)
  let ?tr = "tc_trace s @ [SslShutdown]"
  have "balance ?tr = ({fd}, 1)" using assms(2) AtShutdown by simp
  then have "balance ((?tr @ [SslFree]) @ [StreamClose fd]) = ({}, 0)"
    using balance_snoc [of ?tr SslFree] by (subst balance_snoc) (simp add: balance_def del: append_assoc)
  then show ?thesis using assms(1) AtShutdown by (auto simp: tls_step_def)
qed (use assms in \<open>auto simp: tls_step_def split: if_splits\<close>)

section \<open>Every run\<close>

definition tls_ok :: "tls_library \<Rightarrow> tls_options \<Rightarrow> tls_world \<Rightarrow> bool" where
  "tls_ok lib options w \<longleftrightarrow> (let s = tw_conn w; p = tw_place w
     in tc_options s = options \<and> bytes_ok s \<and> roused p (tw_wakes w) s \<and> talk_ok p (tc_calls s) \<and> demands_ok lib p s \<and>
        balance (tc_trace s) = owns p)"

lemma add_certificates_adds:
  "add_certificates lib ders trusted tr = (ok, tr') \<Longrightarrow> lengthens tr tr' \<and> balance tr' = balance tr \<and>
     (ok \<longrightarrow> trusted \<and> (\<forall>der \<in> set ders. AddCert der True \<in> set tr'))"
proof (induction ders arbitrary: trusted tr)
  case (Cons der ders)
  then show ?case
    by (cases trusted; cases "l_add_cert lib tr der")
      (fastforce simp: tls_ask_def lengthens_def of_thread_def)+
qed simp

lemma created_demands:
  assumes "connect_tls lib options = (Some s, tr)"
  shows "s = new_connection options tr \<and> context_demands options tr \<and> balance tr = ({}, 0)"
proof -
  let ?tr = "[CtxNew True, MinProto12, VerifyPeer, PartialWrites]"
  have zero: "balance ?tr = ({}, 0)" by (simp add: balance_def open_sockets_def live_sessions_def)
  obtain ok tr1 where r: "trust lib options ?tr = (ok, tr1)" by fastforce
  have t: "trust lib options ?tr = (True, tr1)" and s: "s = new_connection options tr" "tr = tr1 @ [MakePipe True]"
    using assms r by (cases "l_ctx_new lib []"; cases ok; cases "l_pipe lib tr1";
        simp add: connect_tls_def create_connection_def tls_ask_def split: if_splits)+
  have "context_demands options tr1 \<and> balance tr1 = ({}, 0)"
  proof (cases "tls_trust_anchors_pem options = []")
    case True
    then have "tr1 = ?tr @ [DefaultPaths True]" using t by (auto simp: trust_def tls_ask_def)
    then show ?thesis using True zero balance_snoc [of ?tr "DefaultPaths True"] by (simp add: context_demands_def)
  next
    case False
    then obtain ders where d: "pem_certificates (tls_trust_anchors_pem options) = Some ders" "add_certificates lib ders True ?tr = (True, tr1)"
      using t by (auto simp: trust_def split: option.splits)
    then show ?thesis
      using False add_certificates_adds [OF d(2)] zero by (auto simp: context_demands_def lengthens_def of_thread_def list_all_iff)
  qed
  then show ?thesis using s by (auto simp: context_demands_def split: if_splits)
qed

lemma roused_more: "roused p n s \<Longrightarrow> tc_pending s' = tc_pending s \<Longrightarrow> 0 < tc_wake s' + m \<Longrightarrow> roused p m s'"
  by (simp add: roused_def split: place.splits)

lemma tls_moves_ok:
  assumes "tls_ok lib options w" and "tls_moves lib w w'"
  shows "tls_ok lib options w'"
  using assms(2)
proof cases
  note ok = assms(1) [unfolded tls_ok_def Let_def]
  {
    case (thread p s)
    then show ?thesis
      using ok bytes_ok_step [OF thread(2)] roused_step [OF thread(2)] talk_ok_step [OF thread(2)] demands_ok_step [OF thread(2)]
        balance_step [OF thread(2)]
      by (simp add: tls_ok_def)
  next
    case (send bytes)
    then show ?thesis
      using ok roused_more [of "tw_place w" "tw_wakes w" "tw_conn w" "tls_send_bytes bytes (tw_conn w)" "tw_wakes w + 1"]
      by (auto simp: tls_ok_def tls_send_bytes_def bytes_ok_def demands_ok_def)
  next
    case destroy
    then show ?thesis
      using ok roused_more [of "tw_place w" "tw_wakes w" "tw_conn w" "(tw_conn w)\<lparr>tc_stopping := True\<rparr>" "tw_wakes w + 1"]
      by (auto simp: tls_ok_def bytes_ok_def demands_ok_def)
  next
    case waken
    let ?s = "(tw_conn w)\<lparr>tc_wake := min 65536 (tc_wake (tw_conn w) + 1)\<rparr>"
    have "roused (tw_place w) (tw_wakes w - 1) ?s" by (rule roused_more [of _ "tw_wakes w" "tw_conn w"]) (use ok in simp_all)
    then show ?thesis using waken ok by (auto simp: tls_ok_def bytes_ok_def demands_ok_def)
  }
qed

lemma tls_start_ok: "connect_tls lib options = (Some s, tr) \<Longrightarrow> tls_ok lib options \<lparr>tw_place = AtBegin, tw_conn = s, tw_wakes = 0\<rparr>"
  using created_demands [of lib options s tr]
  by (auto simp: tls_ok_def new_connection_def bytes_ok_def roused_def talk_ok_def in_order_def demands_ok_def)

lemma tls_runs_ok: "tls_runs lib options w \<Longrightarrow> tls_ok lib options w"
  by (induction rule: tls_runs.induct) (blast intro: tls_start_ok tls_moves_ok)+

section \<open>The contract with the listener\<close>

definition tls_begun :: "tls_library \<Rightarrow> tls_options \<Rightarrow> tls_world \<Rightarrow> bool" where
  "tls_begun lib options w \<longleftrightarrow>
     (\<exists>s tr. connect_tls lib options = (Some s, tr) \<and> w = \<lparr>tw_place = AtBegin, tw_conn = s, tw_wakes = 0\<rparr>)"

lemma tls_runs_begun: "tls_runs lib options w \<Longrightarrow> \<exists>v. tls_begun lib options v \<and> (tls_moves lib)\<^sup>*\<^sup>* v w"
  by (induction rule: tls_runs.induct) (auto simp: tls_begun_def intro: rtranclp.rtrancl_into_rtrancl)

lemma in_order_in_turn: "in_order cs \<Longrightarrow> in_turn cs"
  by (auto simp: in_order_def in_turn_def list_all_iff)

lemma tls_step_tells:
  assumes "tls_step lib p s = (p', s')"
  shows "tc_calls s' = tc_calls s \<or> (\<exists>c. tc_calls s' = tc_calls s @ [c])"
proof -
  consider "phase p = 0" | "phase p = 1" | e where "p = AtReport e" | "p = AtOver" by (cases p) auto
  then show ?thesis
  proof cases
    case 1
    then show ?thesis using connect_places [OF assms] by blast
  next
    case 2
    then show ?thesis using pump_places [OF assms] by blast
  qed (use assms in \<open>auto simp: tls_step_def tell_def split: if_splits\<close>)
qed

interpretation openssl: stream_connection "tls_begun lib options" "tls_moves lib" "\<lambda>w. tc_calls (tw_conn w)" "tls_ok lib options"
  "\<lambda>w. tw_place w = AtOver" for lib options
proof unfold_locales
  fix w w'
  assume ok: "tls_ok lib options w" and m: "tls_moves lib w w'"
  have "in_turn (tc_calls (tw_conn w'))"
    using tls_moves_ok [OF ok m] by (auto simp: tls_ok_def Let_def talk_ok_def intro: in_order_in_turn)
  moreover have "tc_calls (tw_conn w') = tc_calls (tw_conn w) \<or> (\<exists>c. tc_calls (tw_conn w') = tc_calls (tw_conn w) @ [c])"
    using m by cases (auto simp: tls_send_bytes_def dest: tls_step_tells)
  ultimately show "tc_calls (tw_conn w') = tc_calls (tw_conn w) \<or>
      (\<exists>c. tc_calls (tw_conn w') = tc_calls (tw_conn w) @ [c] \<and> may_follow c (tc_calls (tw_conn w)))"
    by (auto dest: in_turn_snocD)
  show "tls_ok lib options w'" by (rule tls_moves_ok [OF ok m])
  show "tw_place w' = AtOver \<and> tc_calls (tw_conn w') = tc_calls (tw_conn w)" if "tw_place w = AtOver"
    using m that by cases (auto simp: tls_step_def tls_send_bytes_def)
qed (auto simp: tls_begun_def dest: tls_start_ok created_demands simp: new_connection_def)


end
