(* ===== verification/Tls_Apple.thy ===== *)
theory Tls_Apple
  imports Tls_Stream Pem Udp_Socket
begin

text \<open>
  \<^verbatim>\<open>src/net/tls_apple.cpp\<close>: a TLS connection through Network.framework. The framework runs the blocks of
  the connection one at a time on a serial queue; between any two steps of a block the owner may send
  or destroy the connection. The frameworks are a parameter: they say whether an object can be made, and
  which event may come next, depending on those before. The calls into them are recorded.

  Objects that cannot be made for want of memory where the code does not look, as the array of the
  anchors, are not modelled.
\<close>

section \<open>The frameworks\<close>

datatype cf_object = NameObject | ArrayObject | DataObject | CertificateObject | PolicyObject | TrustObject

datatype apple_call =
    MakeString string bool | MakeArray | MakeData "byte list" bool | MakeCertificate "byte list" bool | AppendValue "byte list"
  | CopyTrust nat bool | MakePolicy string bool | SetPolicies bool | SetAnchors "byte list list" bool | SetAnchorsOnly bool
  | EvaluateTrust bool | CFRelease cf_object
  | MakeEndpoint string string bool | MakeQueue | CopySecOptions | MinVersion12 | SetServerName string | SetVerifyBlock
  | SecRelease | NoDelay | ConnectionTimeout nat | MakeConnection bool | ReleaseParameters | ReleaseEndpoint | ReleaseQueue
  | SetQueue | SetStateHandler | StartConnection | NwRetain | NwRelease | NwReceive nat nat | NwCancel | NwSend string

type_synonym apple_trace = "apple_call list"

datatype nw_state = NwInvalid | NwWaiting | NwPreparing | NwReady | NwFailed | NwCancelled

datatype nw_error = TlsDomain | OtherDomain

text \<open>What the framework brings: a new state, the end of a receive, a certificate to verify.\<close>

datatype nw_event =
    StateChanged nw_state "nw_error option"
  | Received "byte list list option" bool "nw_error option"
  | Verified nat bool

record nw_library =
  n_string :: "apple_trace \<Rightarrow> string \<Rightarrow> bool"
  n_data :: "apple_trace \<Rightarrow> byte list \<Rightarrow> bool"
  n_certificate :: "apple_trace \<Rightarrow> byte list \<Rightarrow> bool"
  n_endpoint :: "apple_trace \<Rightarrow> string \<Rightarrow> string \<Rightarrow> bool"
  n_connection :: "apple_trace \<Rightarrow> bool"
  n_copy_trust :: "apple_trace \<Rightarrow> nat \<Rightarrow> bool"
  n_policy :: "apple_trace \<Rightarrow> string \<Rightarrow> bool"
  n_set_policies :: "apple_trace \<Rightarrow> bool"
  n_set_anchors :: "apple_trace \<Rightarrow> byte list list \<Rightarrow> bool"
  n_anchors_only :: "apple_trace \<Rightarrow> bool"
  n_evaluate :: "apple_trace \<Rightarrow> bool"
  n_may :: "nw_event list \<Rightarrow> nw_event \<Rightarrow> bool"

definition nw_ask :: "('r \<Rightarrow> apple_call) \<Rightarrow> (apple_trace \<Rightarrow> 'r) \<Rightarrow> apple_trace \<Rightarrow> 'r \<times> apple_trace" where
  "nw_ask call answer tr = (answer tr, tr @ [call (answer tr)])"

section \<open>Trust anchors\<close>

record trust_anchors =
  ta_anchors :: "byte list list option"
  ta_name :: string

definition destroy_trust :: "trust_anchors \<Rightarrow> apple_trace \<Rightarrow> apple_trace" where
  "destroy_trust t tr = tr @ (if ta_anchors t \<noteq> None then [CFRelease ArrayObject] else []) @ [CFRelease NameObject]"

definition server_name_of :: "tls_options \<Rightarrow> string" where
  "server_name_of options = c_str (if tls_server_name options = [] then tls_host options else tls_server_name options)"

text \<open>The array of the anchors; a certificate that cannot be read ends it.\<close>

fun append_anchors :: "nw_library \<Rightarrow> byte list list \<Rightarrow> byte list list \<Rightarrow> apple_trace \<Rightarrow> byte list list option \<times> apple_trace" where
  "append_anchors lib [] anchors tr = (Some anchors, tr)"
| "append_anchors lib (der # ders) anchors tr =
     (case nw_ask (MakeData der) (\<lambda>tr. n_data lib tr der) tr of
        (False, tr) \<Rightarrow> (None, tr)
      | (True, tr) \<Rightarrow>
          (case nw_ask (MakeCertificate der) (\<lambda>tr. n_certificate lib tr der) tr of
             (False, tr) \<Rightarrow> (None, tr @ [CFRelease DataObject])
           | (True, tr) \<Rightarrow>
               append_anchors lib ders (anchors @ [der]) (tr @ [CFRelease DataObject, AppendValue der, CFRelease CertificateObject])))"

text \<open>Where nothing is returned, the object made so far is destroyed.\<close>

definition trust_for :: "nw_library \<Rightarrow> tls_options \<Rightarrow> apple_trace \<Rightarrow> trust_anchors option \<times> apple_trace" where
  "trust_for lib options tr =
     (let name = server_name_of options;
          t = \<lparr>ta_anchors = None, ta_name = name\<rparr>
      in case nw_ask (MakeString name) (\<lambda>tr. n_string lib tr name) tr of
           (False, tr) \<Rightarrow> (None, tr)
         | (True, tr) \<Rightarrow>
             if tls_trust_anchors_pem options = [] then (Some t, tr)
             else (case pem_certificates (tls_trust_anchors_pem options) of
                     None \<Rightarrow> (None, destroy_trust t tr)
                   | Some certificates \<Rightarrow>
                       (case append_anchors lib certificates [] (tr @ [MakeArray]) of
                          (None, tr) \<Rightarrow> (None, destroy_trust (t\<lparr>ta_anchors := Some []\<rparr>) tr)
                        | (Some anchors, tr) \<Rightarrow> (Some (t\<lparr>ta_anchors := Some anchors\<rparr>), tr))))"

text \<open>A call that is made only if those before it succeeded.\<close>

definition nw_also :: "(bool \<Rightarrow> apple_call) \<Rightarrow> (apple_trace \<Rightarrow> bool) \<Rightarrow> bool \<times> apple_trace \<Rightarrow> bool \<times> apple_trace" where
  "nw_also call answer x = (if fst x then nw_ask call answer (snd x) else x)"

definition evaluate :: "nw_library \<Rightarrow> nat \<Rightarrow> trust_anchors \<Rightarrow> apple_trace \<Rightarrow> bool \<times> apple_trace" where
  "evaluate lib trust_ref t tr =
     (case nw_ask (CopyTrust trust_ref) (\<lambda>tr. n_copy_trust lib tr trust_ref) tr of
        (False, tr) \<Rightarrow> (False, tr)
      | (True, tr) \<Rightarrow>
          (case nw_ask (MakePolicy (ta_name t)) (\<lambda>tr. n_policy lib tr (ta_name t)) tr of (policy, tr) \<Rightarrow>
             let anchors = (case ta_anchors t of None \<Rightarrow> [] | Some a \<Rightarrow> a);
                 x = nw_also SetPolicies (n_set_policies lib) (policy, tr);
                 x = nw_also (SetAnchors anchors) (\<lambda>tr. n_set_anchors lib tr anchors) x;
                 x = nw_also SetAnchorsOnly (n_anchors_only lib) x;
                 x = nw_also EvaluateTrust (n_evaluate lib) x
             in (fst x, snd x @ (if policy then [CFRelease PolicyObject] else []) @ [CFRelease TrustObject])))"

section \<open>The state\<close>

text \<open>\<^verbatim>\<open>Shared\<close>, whose listener is there or not, and what a block on the queue has to do.\<close>

record shared_state =
  sh_listener :: bool
  sh_connected :: bool

datatype work = NotifyConnected | NotifyData "byte list" | CloseWith "nw_error option" | Receive | Cancel | Release

text \<open>How far the owner is: it has the connection, or is in the destructor, or through it.\<close>

datatype owner = Owning | Detached | Cancelling | Gone

record apple_tls =
  at_shared :: shared_state
  at_trust :: trust_anchors
  at_block :: "work list"
  at_receives :: nat
  at_owner :: owner
  at_trace :: apple_trace
  at_events :: "nw_event list"
  at_calls :: "callback list"

definition apple_tell :: "callback \<Rightarrow> apple_tls \<Rightarrow> apple_tls" where
  "apple_tell c s = s\<lparr>at_calls := at_calls s @ [c]\<rparr>"

definition apple_note :: "apple_trace \<Rightarrow> apple_tls \<Rightarrow> apple_tls" where
  "apple_note cs s = s\<lparr>at_trace := at_trace s @ cs\<rparr>"

definition notify_connected :: "apple_tls \<Rightarrow> apple_tls" where
  "notify_connected s =
     (if \<not> sh_listener (at_shared s) then s
      else apple_tell OnConnected (s\<lparr>at_shared := (at_shared s)\<lparr>sh_connected := True\<rparr>\<rparr>))"

definition notify_data :: "byte list \<Rightarrow> apple_tls \<Rightarrow> apple_tls" where
  "notify_data bytes s = (if sh_listener (at_shared s) then apple_tell (OnData bytes) s else s)"

definition close_shared :: "nw_error option \<Rightarrow> apple_tls \<Rightarrow> apple_tls" where
  "close_shared error s =
     (if \<not> sh_listener (at_shared s) then s
      else let reason = (if sh_connected (at_shared s) then StreamClosed else ConnectFailed);
               reason = (if error = Some TlsDomain then HandshakeFailed else reason)
           in apple_tell (OnClosed reason) (s\<lparr>at_shared := (at_shared s)\<lparr>sh_listener := False\<rparr>\<rparr>))"

definition receive :: "apple_tls \<Rightarrow> apple_tls" where
  "receive s = apple_note [NwRetain, NwReceive 1 65536] (s\<lparr>at_receives := at_receives s + 1\<rparr>)"

section \<open>Creation\<close>

text \<open>The two blocks that set the options of TLS and TCP.\<close>

definition configure_tls :: "tls_options \<Rightarrow> trust_anchors \<Rightarrow> apple_trace" where
  "configure_tls options t =
     [CopySecOptions, MinVersion12, SetServerName (server_name_of options)] @
     (if ta_anchors t \<noteq> None then [SetVerifyBlock] else []) @ [SecRelease, NoDelay, ConnectionTimeout 10]"

definition new_apple :: "trust_anchors \<Rightarrow> apple_trace \<Rightarrow> apple_tls" where
  "new_apple t tr =
     \<lparr>at_shared = \<lparr>sh_listener = True, sh_connected = False\<rparr>, at_trust = t, at_block = [], at_receives = 0, at_owner = Owning,
      at_trace = tr, at_events = [], at_calls = []\<rparr>"

definition create_apple :: "nw_library \<Rightarrow> tls_options \<Rightarrow> apple_tls option \<times> apple_trace" where
  "create_apple lib options =
     (case trust_for lib options [] of
        (None, tr) \<Rightarrow> (None, tr)
      | (Some t, tr) \<Rightarrow>
          let host = c_str (tls_host options);
              service = to_string (unat (tls_port options))
          in case nw_ask (MakeEndpoint host service) (\<lambda>tr. n_endpoint lib tr host service) tr of
               (False, tr) \<Rightarrow> (None, destroy_trust t tr)
             | (True, tr) \<Rightarrow>
                 (case nw_ask MakeConnection (n_connection lib) (tr @ [MakeQueue] @ configure_tls options t) of
                    (False, tr) \<Rightarrow> (None, destroy_trust t (tr @ [ReleaseParameters, ReleaseEndpoint, ReleaseQueue]))
                  | (True, tr) \<Rightarrow>
                      let tr = tr @ [ReleaseParameters, ReleaseEndpoint, SetQueue, SetStateHandler, StartConnection]
                      in (Some (new_apple t tr), tr)))"

definition connect_apple :: "nw_library \<Rightarrow> tls_options \<Rightarrow> apple_tls option \<times> apple_trace" where
  "connect_apple lib options =
     (if tls_host options = [] \<or> tls_port options = 0 then (None, []) else create_apple lib options)"

section \<open>Blocks and steps\<close>

definition on_state :: "nw_state \<Rightarrow> nw_error option \<Rightarrow> work list" where
  "on_state state error =
     (case state of
        NwReady \<Rightarrow> [NotifyConnected, Receive]
      | NwWaiting \<Rightarrow> [CloseWith error, Cancel]
      | NwFailed \<Rightarrow> [CloseWith error, Cancel]
      | _ \<Rightarrow> [])"

text \<open>The regions of the content, each given to the listener on its own.\<close>

definition on_receive :: "byte list list option \<Rightarrow> bool \<Rightarrow> nw_error option \<Rightarrow> work list" where
  "on_receive content is_complete error =
     (case content of None \<Rightarrow> [] | Some regions \<Rightarrow> map NotifyData regions) @
     (if error \<noteq> None \<or> is_complete then [CloseWith error, Cancel] else [Receive]) @ [Release]"

definition do_work :: "work \<Rightarrow> apple_tls \<Rightarrow> apple_tls" where
  "do_work x s =
     (case x of
        NotifyConnected \<Rightarrow> notify_connected s
      | NotifyData bytes \<Rightarrow> notify_data bytes s
      | CloseWith error \<Rightarrow> close_shared error s
      | Receive \<Rightarrow> receive s
      | Cancel \<Rightarrow> apple_note [NwCancel] s
      | Release \<Rightarrow> apple_note [NwRelease] s)"

definition apple_send :: "string \<Rightarrow> apple_tls \<Rightarrow> apple_tls" where
  "apple_send bytes s = (if bytes = [] then s else apple_note [NwSend bytes] s)"

text \<open>The destructor, in its three steps: it takes the listener away, cancels and releases.\<close>

definition destroy_step :: "apple_tls \<Rightarrow> apple_tls" where
  "destroy_step s =
     (case at_owner s of
        Owning \<Rightarrow> s\<lparr>at_shared := (at_shared s)\<lparr>sh_listener := False\<rparr>, at_owner := Detached\<rparr>
      | Detached \<Rightarrow> apple_note [NwCancel] (s\<lparr>at_owner := Cancelling\<rparr>)
      | Cancelling \<Rightarrow> apple_note [NwRelease, ReleaseQueue] (s\<lparr>at_owner := Gone\<rparr>)
      | Gone \<Rightarrow> s)"

text \<open>
  The moves. What \<^verbatim>\<open>evaluate\<close> calls concerns only its own copy of the certificates, so it counts as one step.
\<close>

inductive apple_moves :: "nw_library \<Rightarrow> apple_tls \<Rightarrow> apple_tls \<Rightarrow> bool" for lib where
  state: "at_block s = [] \<Longrightarrow> n_may lib (at_events s) (StateChanged st e) \<Longrightarrow>
    apple_moves lib s (s\<lparr>at_block := on_state st e, at_events := at_events s @ [StateChanged st e]\<rparr>)"
| received: "at_block s = [] \<Longrightarrow> 0 < at_receives s \<Longrightarrow> n_may lib (at_events s) (Received content fin e) \<Longrightarrow>
    apple_moves lib s (s\<lparr>at_block := on_receive content fin e, at_receives := at_receives s - 1,
      at_events := at_events s @ [Received content fin e]\<rparr>)"
| verify: "at_block s = [] \<Longrightarrow> SetVerifyBlock \<in> set (at_trace s) \<Longrightarrow> evaluate lib t (at_trust s) (at_trace s) = (ok, tr) \<Longrightarrow>
    n_may lib (at_events s) (Verified t ok) \<Longrightarrow>
    apple_moves lib s (s\<lparr>at_trace := tr, at_events := at_events s @ [Verified t ok]\<rparr>)"
| work: "at_block s = x # xs \<Longrightarrow> apple_moves lib s (do_work x (s\<lparr>at_block := xs\<rparr>))"
| send: "at_owner s = Owning \<Longrightarrow> apple_moves lib s (apple_send bytes s)"
| destroy: "apple_moves lib s (destroy_step s)"

inductive apple_runs :: "nw_library \<Rightarrow> tls_options \<Rightarrow> apple_tls \<Rightarrow> bool" for lib options where
  start: "connect_apple lib options = (Some s, tr) \<Longrightarrow> apple_runs lib options s"
| move: "apple_runs lib options s \<Longrightarrow> apple_moves lib s s' \<Longrightarrow> apple_runs lib options s'"

end
