(* ===== verification/Tls_Apple_Guarantees.thy ===== *)
theory Tls_Apple_Guarantees
  imports Tls_Apple
begin

text \<open>
  What a connection through Network.framework guarantees: the callbacks keep the contract of the
  listener, the connection is not used without a reference and not leaked, a creation that fails
  keeps nothing, and a server is held to the given anchors and name.
\<close>

section \<open>The contract with the listener\<close>

text \<open>The framework says at most once that a connection is ready.\<close>

definition is_ready :: "nw_event \<Rightarrow> bool" where
  "is_ready e \<longleftrightarrow> (case e of StateChanged NwReady err \<Rightarrow> True | _ \<Rightarrow> False)"

definition ready_once :: "nw_library \<Rightarrow> bool" where
  "ready_once lib \<longleftrightarrow> (\<forall>h e. n_may lib h e \<and> is_ready e \<longrightarrow> \<not> list_ex is_ready h)"

text \<open>
  While there is a listener, it has been told that the connection is up exactly if the flag is set; and
  data can come only then. The block that sets it is the only one that is running then.
\<close>

definition brings_data :: "apple_tls \<Rightarrow> bool" where
  "brings_data s \<longleftrightarrow> 0 < at_receives s \<or> (\<exists>d. NotifyData d \<in> set (at_block s)) \<or>
     (Receive \<in> set (at_block s) \<and> NotifyConnected \<notin> set (at_block s))"

definition talk_fits :: "apple_tls \<Rightarrow> bool" where
  "talk_fits s \<longleftrightarrow>
     (sh_listener (at_shared s) \<longrightarrow> (if sh_connected (at_shared s) then is_up (at_calls s) else at_calls s = [])) \<and>
     (sh_listener (at_shared s) \<and> brings_data s \<longrightarrow> sh_connected (at_shared s)) \<and>
     (NotifyConnected \<in> set (at_block s) \<longrightarrow> at_block s = [NotifyConnected, Receive] \<and> \<not> sh_connected (at_shared s) \<and>
        at_receives s = 0 \<and> list_ex is_ready (at_events s)) \<and>
     (sh_connected (at_shared s) \<or> brings_data s \<longrightarrow> list_ex is_ready (at_events s)) \<and>
     (at_owner s \<noteq> Owning \<longrightarrow> \<not> sh_listener (at_shared s))"

lemma do_work_simps [simp]:
  "at_block (do_work x s) = at_block s" "at_events (do_work x s) = at_events s" "at_owner (do_work x s) = at_owner s"
  "at_trust (do_work x s) = at_trust s" "at_receives (do_work x s) = at_receives s + (if x = Receive then 1 else 0)"
  by (cases x; simp add: do_work_def notify_connected_def notify_data_def close_shared_def receive_def apple_tell_def apple_note_def Let_def)+

lemma talk_fits_work:
  assumes "talk_fits s" and "at_block s = x # xs"
  shows "talk_fits (do_work x (s\<lparr>at_block := xs\<rparr>))"
  using assms
  by (cases x; auto simp: talk_fits_def brings_data_def do_work_def notify_connected_def notify_data_def close_shared_def receive_def
      apple_tell_def apple_note_def Let_def)

lemma talk_fits_moves:
  assumes "talk_fits s" and "ready_once lib" and "apple_moves lib s s'"
  shows "talk_fits s'"
  using assms(3)
proof cases
  case (state st e)
  have "\<not> list_ex is_ready (at_events s)" if "st = NwReady"
    using assms(2) state(3) that by (fastforce simp: ready_once_def is_ready_def)
  then show ?thesis
    using assms(1) state by (cases st) (auto simp: talk_fits_def brings_data_def on_state_def is_ready_def)
next
  case (received content fin e)
  then show ?thesis using assms(1) by (auto simp: talk_fits_def brings_data_def on_receive_def split: option.splits)
next
  case (work x xs)
  then show ?thesis using talk_fits_work [OF assms(1)] by simp
next
  case destroy
  then show ?thesis
    using assms(1) by (auto simp: destroy_step_def talk_fits_def brings_data_def apple_note_def split: owner.splits)
qed (use assms(1) in \<open>auto simp: talk_fits_def brings_data_def apple_send_def apple_note_def\<close>)

definition apple_begun :: "nw_library \<Rightarrow> tls_options \<Rightarrow> apple_tls \<Rightarrow> bool" where
  "apple_begun lib options s \<longleftrightarrow> ready_once lib \<and> (\<exists>tr. connect_apple lib options = (Some s, tr))"

lemma apple_runs_begun:
  "apple_runs lib options s \<Longrightarrow> ready_once lib \<Longrightarrow> \<exists>v. apple_begun lib options v \<and> (apple_moves lib)\<^sup>*\<^sup>* v s"
  by (induction rule: apple_runs.induct) (auto simp: apple_begun_def intro: rtranclp.rtrancl_into_rtrancl)

lemma created_is_new:
  assumes "connect_apple lib options = (Some s, tr)"
  shows "\<exists>t. s = new_apple t tr"
  using assms by (auto simp: connect_apple_def create_apple_def Let_def split: if_splits prod.splits option.splits bool.splits)

lemma new_talk_fits: "talk_fits (new_apple t tr) \<and> at_calls (new_apple t tr) = []"
  by (simp add: talk_fits_def brings_data_def new_apple_def)

lemma work_tells:
  assumes "talk_fits s" and "at_block s = x # xs" and "s' = do_work x (s\<lparr>at_block := xs\<rparr>)"
  shows "at_calls s' = at_calls s \<or> sh_listener (at_shared s) \<and> (\<exists>c. at_calls s' = at_calls s @ [c] \<and> may_follow c (at_calls s))"
  using assms
  by (cases x; auto simp: do_work_def notify_connected_def notify_data_def close_shared_def receive_def apple_tell_def apple_note_def
      Let_def talk_fits_def brings_data_def split: if_splits)

lemma moves_tell:
  assumes "talk_fits s" and "apple_moves lib s s'"
  shows "at_calls s' = at_calls s \<or> sh_listener (at_shared s) \<and> (\<exists>c. at_calls s' = at_calls s @ [c] \<and> may_follow c (at_calls s))"
  using assms(2)
  by cases (use work_tells [OF assms(1)] in \<open>auto simp: apple_send_def apple_note_def destroy_step_def split: owner.splits\<close>)

interpretation apple: stream_connection "apple_begun lib options" "apple_moves lib" at_calls "\<lambda>s. ready_once lib \<and> talk_fits s"
  "\<lambda>s. at_owner s \<noteq> Owning" for lib options
proof unfold_locales
  show "at_owner s' \<noteq> Owning \<and> at_calls s' = at_calls s"
    if "ready_once lib \<and> talk_fits s" and "at_owner s \<noteq> Owning" and "apple_moves lib s s'" for s s'
  proof
    show "at_calls s' = at_calls s" using that moves_tell [of s lib s'] by (auto simp: talk_fits_def)
    show "at_owner s' \<noteq> Owning"
      using that(3,2) by cases (auto simp: apple_note_def destroy_step_def split: owner.splits)
  qed
qed (auto simp: apple_begun_def new_talk_fits dest!: created_is_new dest: moves_tell intro: talk_fits_moves)


section \<open>References\<close>

text \<open>How many of our references to the connection, and how many objects of a kind, the calls leave.\<close>

definition references :: "apple_trace \<Rightarrow> int" where
  "references tr = sum_list (map (\<lambda>c. case c of MakeConnection ok \<Rightarrow> if ok then 1 else 0 | NwRetain \<Rightarrow> 1 | NwRelease \<Rightarrow> - 1 | _ \<Rightarrow> 0) tr)"

fun makes :: "apple_call \<Rightarrow> cf_object option" where
  "makes (MakeString name ok) = (if ok then Some NameObject else None)"
| "makes MakeArray = Some ArrayObject"
| "makes (MakeData der ok) = (if ok then Some DataObject else None)"
| "makes (MakeCertificate der ok) = (if ok then Some CertificateObject else None)"
| "makes (MakePolicy name ok) = (if ok then Some PolicyObject else None)"
| "makes (CopyTrust t ok) = (if ok then Some TrustObject else None)"
| "makes _ = None"

definition objects :: "cf_object \<Rightarrow> apple_trace \<Rightarrow> int" where
  "objects k tr = sum_list (map (\<lambda>c. (if makes c = Some k then 1 else 0) - (if c = CFRelease k then 1 else 0)) tr)"

definition queues :: "apple_trace \<Rightarrow> int" where
  "queues tr = sum_list (map (\<lambda>c. case c of MakeQueue \<Rightarrow> 1 | ReleaseQueue \<Rightarrow> - 1 | _ \<Rightarrow> 0) tr)"

definition endpoints :: "apple_trace \<Rightarrow> int" where
  "endpoints tr = sum_list (map (\<lambda>c. case c of MakeEndpoint h p ok \<Rightarrow> if ok then 1 else 0 | ReleaseEndpoint \<Rightarrow> - 1 | _ \<Rightarrow> 0) tr)"

definition nothing_left :: "apple_trace \<Rightarrow> bool" where
  "nothing_left tr \<longleftrightarrow> (\<forall>k. objects k tr = 0) \<and> queues tr = 0 \<and> endpoints tr = 0 \<and> references tr = 0"

lemmas balance_simps = references_def objects_def queues_def endpoints_def

lemma counts_append [simp]:
  "references (a @ b) = references a + references b" "objects k (a @ b) = objects k a + objects k b"
  "queues (a @ b) = queues a + queues b" "endpoints (a @ b) = endpoints a + endpoints b"
  by (simp_all add: balance_simps)

lemma counts_nil [simp]: "references [] = 0" "objects k [] = 0" "queues [] = 0" "endpoints [] = 0"
  by (simp_all add: balance_simps)

lemma counts_cons [simp]:
  "references (c # cs) = (case c of MakeConnection ok \<Rightarrow> if ok then 1 else 0 | NwRetain \<Rightarrow> 1 | NwRelease \<Rightarrow> - 1 | _ \<Rightarrow> 0) + references cs"
  "objects k (c # cs) = (if makes c = Some k then 1 else 0) - (if c = CFRelease k then 1 else 0) + objects k cs"
  "queues (c # cs) = (case c of MakeQueue \<Rightarrow> 1 | ReleaseQueue \<Rightarrow> - 1 | _ \<Rightarrow> 0) + queues cs"
  "endpoints (c # cs) = (case c of MakeEndpoint h p ok \<Rightarrow> if ok then 1 else 0 | ReleaseEndpoint \<Rightarrow> - 1 | _ \<Rightarrow> 0) + endpoints cs"
  by (simp_all add: balance_simps)

text \<open>A run of a list of calls changes nothing but the objects it says.\<close>

definition adds :: "(cf_object \<Rightarrow> int) \<Rightarrow> apple_trace \<Rightarrow> apple_trace \<Rightarrow> bool" where
  "adds f tr tr' \<longleftrightarrow> (\<exists>new. tr' = tr @ new \<and> (\<forall>k. objects k new = f k) \<and> queues new = 0 \<and> endpoints new = 0 \<and> references new = 0)"

lemma addsD: "adds f tr tr' \<Longrightarrow> (\<forall>k. objects k tr' = objects k tr + f k) \<and> queues tr' = queues tr \<and> endpoints tr' = endpoints tr \<and>
    references tr' = references tr \<and> set tr \<subseteq> set tr'"
  by (auto simp: adds_def)

lemma adds_refl: "(\<And>k. f k = 0) \<Longrightarrow> adds f tr tr"
  by (auto simp: adds_def)

lemma adds_trans: "adds f a b \<Longrightarrow> adds g b c \<Longrightarrow> (\<And>k. h k = f k + g k) \<Longrightarrow> adds h a c"
  by (fastforce simp: adds_def)

lemma append_anchors_adds:
  "append_anchors lib ders anchors tr = (r, tr') \<Longrightarrow> adds (\<lambda>k. 0) tr tr' \<and> (case r of None \<Rightarrow> True | Some a \<Rightarrow> a = anchors @ ders)"
proof (induction ders arbitrary: anchors tr)
  case Nil
  then show ?case by (auto intro: adds_refl)
next
  case (Cons der ders)
  let ?a = "tr @ [MakeData der True]" and ?mid = "tr @ [MakeData der True, MakeCertificate der True, CFRelease DataObject, AppendValue der, CFRelease CertificateObject]"
  have fail: "adds (\<lambda>k. 0) tr (tr @ [MakeData der False])" "adds (\<lambda>k. 0) tr (tr @ [MakeData der True, MakeCertificate der False, CFRelease DataObject])"
    and mid: "adds (\<lambda>k. 0) tr ?mid"
    by (auto simp: adds_def)
  show ?case
  proof (cases "n_data lib tr der \<and> n_certificate lib ?a der")
    case True
    then have "append_anchors lib ders (anchors @ [der]) ?mid = (r, tr')" using Cons.prems by (simp add: nw_ask_def)
    from Cons.IH [OF this] show ?thesis using mid by (auto intro: adds_trans split: option.splits)
  next
    case False
    then show ?thesis using Cons.prems fail by (cases "n_data lib tr der") (auto simp: nw_ask_def)
  qed
qed

text \<open>What a \<^verbatim>\<open>Trust\<close> holds, and that it is the one of the options.\<close>

definition of_trust :: "trust_anchors \<Rightarrow> cf_object \<Rightarrow> int" where
  "of_trust t k = (if k = NameObject \<or> k = ArrayObject \<and> ta_anchors t \<noteq> None then 1 else 0)"

definition trust_right :: "tls_options \<Rightarrow> trust_anchors \<Rightarrow> bool" where
  "trust_right options t \<longleftrightarrow> ta_name t = server_name_of options \<and>
     (if tls_trust_anchors_pem options = [] then ta_anchors t = None
      else ta_anchors t \<noteq> None \<and> pem_certificates (tls_trust_anchors_pem options) = ta_anchors t)"

lemma destroy_trust_adds: "adds (\<lambda>k. - of_trust t k) tr (destroy_trust t tr)"
  by (auto simp: adds_def destroy_trust_def of_trust_def)

lemma trust_for_spec:
  assumes "trust_for lib options tr = (r, tr')"
  shows "case r of None \<Rightarrow> adds (\<lambda>k. 0) tr tr' | Some t \<Rightarrow> adds (of_trust t) tr tr' \<and> trust_right options t"
proof -
  let ?name = "server_name_of options" and ?t = "\<lparr>ta_anchors = None, ta_name = server_name_of options\<rparr>"
  have named: "adds (of_trust ?t) tr (tr @ [MakeString ?name True])" and unnamed: "adds (\<lambda>k. 0) tr (tr @ [MakeString ?name False])"
    by (auto simp: adds_def of_trust_def)
  consider "\<not> n_string lib tr ?name" | "n_string lib tr ?name" "tls_trust_anchors_pem options = []"
    | "n_string lib tr ?name" "tls_trust_anchors_pem options \<noteq> []" "pem_certificates (tls_trust_anchors_pem options) = None"
    | ders where "n_string lib tr ?name" "tls_trust_anchors_pem options \<noteq> []" "pem_certificates (tls_trust_anchors_pem options) = Some ders"
    by (cases "pem_certificates (tls_trust_anchors_pem options)") auto
  then show ?thesis
  proof cases
    case 3
    have "adds (\<lambda>k. 0) tr (destroy_trust ?t (tr @ [MakeString ?name True]))" by (rule adds_trans [OF named destroy_trust_adds]) simp
    then show ?thesis using assms 3 by (auto simp: trust_for_def nw_ask_def Let_def)
  next
    case (4 ders)
    let ?u = "\<lambda>a. ?t\<lparr>ta_anchors := Some a\<rparr>"
    obtain q tr1 where q: "append_anchors lib ders [] (tr @ [MakeString ?name True, MakeArray]) = (q, tr1)" by fastforce
    have "adds (of_trust (?u a)) tr (tr @ [MakeString ?name True, MakeArray])" for a by (auto simp: adds_def of_trust_def)
    then have made: "adds (of_trust (?u a)) tr tr1" for a using conjunct1 [OF append_anchors_adds [OF q]] by (rule adds_trans) simp
    have "adds (\<lambda>k. 0) tr (destroy_trust (?u []) tr1)" by (rule adds_trans [OF made destroy_trust_adds]) simp
    then show ?thesis
      using assms 4 q made append_anchors_adds [OF q] by (cases q) (auto simp: trust_for_def nw_ask_def Let_def trust_right_def)
  qed (use assms named unnamed in \<open>auto simp: trust_for_def nw_ask_def Let_def trust_right_def\<close>)
qed

text \<open>The connection was made to demand TLS 1.2 and the name, and to ask for a verification if there are anchors.\<close>

definition apple_demands :: "tls_options \<Rightarrow> apple_trace \<Rightarrow> bool" where
  "apple_demands options tr \<longleftrightarrow> MinVersion12 \<in> set tr \<and> SetServerName (server_name_of options) \<in> set tr \<and>
     (tls_trust_anchors_pem options \<noteq> [] \<longrightarrow> SetVerifyBlock \<in> set tr)"

lemma create_apple_spec:
  assumes "connect_apple lib options = (r, tr)"
  shows "case r of None \<Rightarrow> nothing_left tr
    | Some s \<Rightarrow> s = new_apple (at_trust s) tr \<and> trust_right options (at_trust s) \<and> apple_demands options tr \<and>
        references tr = 1 \<and> queues tr = 1 \<and> endpoints tr = 0 \<and> (\<forall>k. objects k tr = of_trust (at_trust s) k)"
proof -
  let ?host = "c_str (tls_host options)" and ?service = "to_string (unat (tls_port options))"
  obtain q tr1 where q: "trust_for lib options [] = (q, tr1)" by fastforce
  show ?thesis
  proof (cases "tls_host options = [] \<or> tls_port options = 0")
    case True
    then show ?thesis using assms by (auto simp: connect_apple_def nothing_left_def)
  next
    case False
    show ?thesis
    proof (cases q)
      case None
      then show ?thesis using assms False q trust_for_spec [OF q] by (auto simp: connect_apple_def create_apple_def nothing_left_def dest!: addsD)
    next
      case (Some t)
      let ?c = "tr1 @ [MakeEndpoint ?host ?service True] @ [MakeQueue] @ configure_tls options t"
      note t = trust_for_spec [OF q, unfolded Some, simplified] addsD [OF conjunct1 [OF trust_for_spec [OF q, unfolded Some, simplified]]]
      have d: "references (destroy_trust t tr') = references tr'" "queues (destroy_trust t tr') = queues tr'"
        "endpoints (destroy_trust t tr') = endpoints tr'" "objects k (destroy_trust t tr') = objects k tr' - of_trust t k" for tr' k
        using addsD [OF destroy_trust_adds [of t tr']] by auto
      show ?thesis
        using assms False q Some t
        by (cases "n_endpoint lib tr1 ?host ?service"; cases "n_connection lib ?c")
          (auto simp: connect_apple_def create_apple_def nw_ask_def Let_def nothing_left_def d configure_tls_def new_apple_def
            apple_demands_def trust_right_def)
    qed
  qed
qed

section \<open>Every run\<close>

definition evaluation :: "trust_anchors \<Rightarrow> nat \<Rightarrow> apple_trace" where
  "evaluation u t =
     [CopyTrust t True, MakePolicy (ta_name u) True, SetPolicies True,
      SetAnchors (case ta_anchors u of None \<Rightarrow> [] | Some a \<Rightarrow> a) True, SetAnchorsOnly True, EvaluateTrust True]"

lemma evaluate_spec:
  assumes "evaluate lib t u tr = (ok, tr')"
  shows "adds (\<lambda>k. 0) tr tr' \<and> (ok \<longrightarrow> tr' = tr @ evaluation u t @ [CFRelease PolicyObject, CFRelease TrustObject])"
  using assms by (auto simp: evaluate_def nw_also_def nw_ask_def Let_def adds_def evaluation_def split: if_splits prod.splits bool.splits)


text \<open>
  Our references are those of the owner, of the receives that are outstanding and of the block of one that
  ended; a block releases its reference last.
\<close>

definition refs_fit :: "apple_tls \<Rightarrow> bool" where
  "refs_fit s \<longleftrightarrow>
     references (at_trace s) = (if at_owner s = Gone then 0 else 1) + int (at_receives s) + (if Release \<in> set (at_block s) then 1 else 0) \<and>
     Release \<notin> set (butlast (at_block s)) \<and> queues (at_trace s) = (if at_owner s = Gone then 0 else 1) \<and>
     (\<forall>k. objects k (at_trace s) = of_trust (at_trust s) k)"

text \<open>What the listener was told comes from the framework, and a verification that succeeded was a full one.\<close>

definition verdicts_fit :: "tls_options \<Rightarrow> apple_tls \<Rightarrow> bool" where
  "verdicts_fit options s \<longleftrightarrow> trust_right options (at_trust s) \<and> apple_demands options (at_trace s) \<and>
     (OnConnected \<in> set (at_calls s) \<or> NotifyConnected \<in> set (at_block s) \<longrightarrow> list_ex is_ready (at_events s)) \<and>
     (\<forall>t. Verified t True \<in> set (at_events s) \<longrightarrow> sublist (evaluation (at_trust s) t) (at_trace s))"

lemma apple_demands_mono: "apple_demands options tr \<Longrightarrow> apple_demands options (tr @ new)"
  by (auto simp: apple_demands_def)

lemma do_work_trace:
  "at_trace (do_work x s) =
     at_trace s @ (case x of Receive \<Rightarrow> [NwRetain, NwReceive 1 65536] | Cancel \<Rightarrow> [NwCancel] | Release \<Rightarrow> [NwRelease] | _ \<Rightarrow> [])"
  by (cases x) (simp_all add: do_work_def notify_connected_def notify_data_def close_shared_def receive_def apple_tell_def apple_note_def Let_def)

lemma do_work_connected:
  "OnConnected \<in> set (at_calls (do_work x s)) \<Longrightarrow> OnConnected \<in> set (at_calls s) \<or> x = NotifyConnected"
  by (cases x) (auto simp: do_work_def notify_connected_def notify_data_def close_shared_def receive_def apple_tell_def apple_note_def
      Let_def split: if_splits)

lemma on_receive_releases [simp]:
  "Release \<in> set (on_receive content fin e)" "Release \<notin> set (butlast (on_receive content fin e))"
  "NotifyConnected \<notin> set (on_receive content fin e)"
  by (auto simp: on_receive_def butlast_append split: option.splits)

lemma on_state_keeps [simp]: "Release \<notin> set (on_state st e)" "Release \<notin> set (butlast (on_state st e))"
  by (cases st; simp add: on_state_def)+

lemma refs_fit_moves:
  assumes "refs_fit s" and "apple_moves lib s s'"
  shows "refs_fit s'"
  using assms(2)
proof cases
  case (verify t ok tr)
  then show ?thesis using assms(1) addsD [OF conjunct1 [OF evaluate_spec [OF verify(4)]]] by (auto simp: refs_fit_def)
next
  case (work x xs)
  have "Release \<notin> set (butlast (x # xs))" using assms(1) work(2) by (simp add: refs_fit_def)
  then have "Release \<notin> set (butlast xs)" "x = Release \<longrightarrow> xs = []" by (cases xs; auto)+
  then show ?thesis using assms(1) work by (cases x) (simp_all add: refs_fit_def do_work_trace)
next
  case destroy
  then show ?thesis using assms(1) by (auto simp: refs_fit_def destroy_step_def apple_note_def split: owner.splits)
qed (use assms(1) in \<open>auto simp: refs_fit_def apple_send_def apple_note_def\<close>)

lemma verdicts_fit_moves:
  assumes "verdicts_fit options s" and "apple_moves lib s s'"
  shows "verdicts_fit options s'"
  using assms(2)
proof cases
  case (state st e)
  then show ?thesis using assms(1) by (cases st) (auto simp: verdicts_fit_def on_state_def is_ready_def)
next
  case (verify t ok tr)
  obtain new where new: "tr = at_trace s @ new" using evaluate_spec [OF verify(4)] by (auto simp: adds_def)
  have "ok \<Longrightarrow> sublist (evaluation (at_trust s) t) tr" using evaluate_spec [OF verify(4)] by (auto simp: sublist_def)
  then show ?thesis
    using assms(1) verify new by (auto simp: verdicts_fit_def is_ready_def apple_demands_mono intro: sublist_order.order.trans)
next
  case (work x xs)
  then show ?thesis
    using assms(1) do_work_connected [of x "s\<lparr>at_block := xs\<rparr>"]
    by (auto simp: verdicts_fit_def do_work_trace apple_demands_mono sublist_append)
next
  case destroy
  then show ?thesis
    using assms(1)
    by (auto simp: verdicts_fit_def destroy_step_def apple_note_def apple_demands_mono sublist_append split: owner.splits)
qed (use assms(1) in \<open>auto simp: verdicts_fit_def apple_send_def apple_note_def apple_demands_mono sublist_append is_ready_def\<close>)

lemma apple_runs_ok: "apple_runs lib options s \<Longrightarrow> refs_fit s \<and> verdicts_fit options s"
proof (induction rule: apple_runs.induct)
  case (start s tr)
  then obtain t where "s = new_apple t tr" using created_is_new by blast
  then show ?case using create_apple_spec [OF start] by (auto simp: refs_fit_def verdicts_fit_def new_apple_def)
qed (blast intro: refs_fit_moves verdicts_fit_moves)

text \<open>A framework that reports a connection as ready only after the verify block has found the certificate good.\<close>

definition waits_for_verdict :: "nw_library \<Rightarrow> bool" where
  "waits_for_verdict lib \<longleftrightarrow> (\<forall>h e. n_may lib h e \<and> is_ready e \<longrightarrow> (\<exists>t. Verified t True \<in> set h))"

lemma verdict_before_ready:
  assumes "apple_runs lib options s" and "waits_for_verdict lib"
  shows "list_ex is_ready (at_events s) \<Longrightarrow> \<exists>t. Verified t True \<in> set (at_events s)"
  using assms(1)
proof (induction rule: apple_runs.induct)
  case (start s tr)
  then show ?case using created_is_new [of lib options s tr] by (auto simp: new_apple_def)
next
  case (move s s')
  from move.hyps(2) show ?case
  proof cases
    case (state st e)
    then have "is_ready (StateChanged st e) \<longrightarrow> (\<exists>t. Verified t True \<in> set (at_events s))"
      using assms(2) unfolding waits_for_verdict_def by blast
    then show ?thesis using move state by auto
  qed (use move in \<open>auto simp: is_ready_def apple_send_def apple_note_def destroy_step_def split: owner.splits if_splits\<close>)
qed

section \<open>Guarantees\<close>

text \<open>A framework that makes everything and reports a connection as ready once a certificate is verified.\<close>

definition demo_framework :: nw_library where
  "demo_framework =
     \<lparr>n_string = (\<lambda>tr name. True), n_data = (\<lambda>tr der. True), n_certificate = (\<lambda>tr der. True), n_endpoint = (\<lambda>tr host service. True),
      n_connection = (\<lambda>tr. True), n_copy_trust = (\<lambda>tr t. True), n_policy = (\<lambda>tr name. True), n_set_policies = (\<lambda>tr. True),
      n_set_anchors = (\<lambda>tr anchors. True), n_anchors_only = (\<lambda>tr. True), n_evaluate = (\<lambda>tr. True),
      n_may = (\<lambda>h e. \<not> is_ready e \<or> Verified 1 True \<in> set h \<and> \<not> list_ex is_ready h)\<rparr>"

definition anchored_options :: tls_options where
  "anchored_options =
     \<lparr>tls_host = ''pbx'', tls_port = 5061, tls_server_name = [],
      tls_trust_anchors_pem = ''-----BEGIN CERTIFICATE-----MAH/-----END CERTIFICATE-----''\<rparr>"

lemma demo_pem: "pem_certificates (tls_trust_anchors_pem anchored_options) = Some [[48, 1, 255]]"
  by code_simp

text \<open>The connection as it is made; the certificate is verified, the connection is ready, and the listener is told.\<close>

definition demo_trust :: trust_anchors where
  "demo_trust = \<lparr>ta_anchors = Some [[48, 1, 255]], ta_name = ''pbx''\<rparr>"

definition demo_trace :: apple_trace where
  "demo_trace =
     [MakeString ''pbx'' True, MakeArray, MakeData [48, 1, 255] True, MakeCertificate [48, 1, 255] True, CFRelease DataObject,
      AppendValue [48, 1, 255], CFRelease CertificateObject, MakeEndpoint ''pbx'' (to_string 5061) True, MakeQueue] @
     configure_tls anchored_options demo_trust @
     [MakeConnection True, ReleaseParameters, ReleaseEndpoint, SetQueue, SetStateHandler, StartConnection]"

definition demo_up :: apple_tls where
  "demo_up = (new_apple demo_trust (demo_trace @ evaluation demo_trust 1 @ [CFRelease PolicyObject, CFRelease TrustObject]))
     \<lparr>at_shared := \<lparr>sh_listener = True, sh_connected = True\<rparr>, at_block := [Receive],
      at_events := [Verified 1 True, StateChanged NwReady None], at_calls := [OnConnected]\<rparr>"

lemma demo_connect: "connect_apple demo_framework anchored_options = (Some (new_apple demo_trust demo_trace), demo_trace)"
  using demo_pem
  by (simp add: connect_apple_def create_apple_def trust_for_def nw_ask_def demo_framework_def demo_trust_def demo_trace_def
      anchored_options_def server_name_of_def c_str_def Let_def)

lemma demo_up_runs: "apple_runs demo_framework anchored_options demo_up"
proof -
  let ?a = "new_apple demo_trust demo_trace"
  let ?tr = "demo_trace @ evaluation demo_trust 1 @ [CFRelease PolicyObject, CFRelease TrustObject]"
  let ?v = "?a\<lparr>at_trace := ?tr, at_events := [Verified 1 True]\<rparr>"
  let ?r = "?v\<lparr>at_block := [NotifyConnected, Receive], at_events := [Verified 1 True, StateChanged NwReady None]\<rparr>"
  have "evaluate demo_framework 1 demo_trust demo_trace = (True, ?tr)"
    by (simp add: evaluate_def nw_also_def nw_ask_def demo_framework_def evaluation_def)
  moreover have "SetVerifyBlock \<in> set demo_trace" by (simp add: demo_trace_def configure_tls_def demo_trust_def)
  ultimately have "apple_moves demo_framework ?a ?v"
    using apple_moves.verify [of ?a demo_framework 1 True ?tr] by (simp add: new_apple_def demo_framework_def is_ready_def)
  then have v: "apple_runs demo_framework anchored_options ?v" by (rule apple_runs.move [OF apple_runs.start [OF demo_connect]])
  have "apple_moves demo_framework ?v ?r"
    using apple_moves.state [of ?v demo_framework NwReady None] by (simp add: demo_framework_def is_ready_def on_state_def new_apple_def)
  then have r: "apple_runs demo_framework anchored_options ?r" by (rule apple_runs.move [OF v])
  have "apple_moves demo_framework ?r demo_up"
    using apple_moves.work [of ?r NotifyConnected "[Receive]" demo_framework]
    by (simp add: demo_up_def do_work_def notify_connected_def apple_tell_def new_apple_def)
  then show ?thesis by (rule apple_runs.move [OF r])
qed

lemma demo_ready_once: "ready_once demo_framework"
  by (auto simp: ready_once_def demo_framework_def)

text \<open>
  C39: The callbacks come in order also here: nothing at all, or only the news that there is no connection,
  or the connection is up, then data, and then at most once that it is closed. Nothing follows that, and
  nothing comes any more once the destructor has taken the listener away, though blocks may still run.
  The framework is taken to report at most once that a connection is ready.
\<close>

theorem apple_callbacks_in_order:
  assumes "apple_runs lib options s" and "ready_once lib" and "(apple_moves lib)\<^sup>*\<^sup>* s s'"
  shows "in_turn (at_calls s) \<and>
    ((\<exists>e. OnClosed e \<in> set (at_calls s)) \<or> at_owner s \<noteq> Owning \<longrightarrow> at_calls s' = at_calls s)"
proof -
  obtain v where v: "apple_begun lib options v" "(apple_moves lib)\<^sup>*\<^sup>* v s" using apple_runs_begun [OF assms(1,2)] by blast
  have "ready_once lib \<and> talk_fits s" by (rule apple.good_run [OF v(2) apple.begun_good [OF v(1)]])
  then show ?thesis
    using apple.told_in_turn [OF v] apple.closed_is_last [OF v assms(3)] apple.gone_is_silent [OF assms(3)] by blast
qed

theorem apple_callbacks_in_order_witness:
  "let s = destroy_step demo_up; s' = do_work Receive (s\<lparr>at_block := []\<rparr>)
   in apple_runs demo_framework anchored_options s \<and> apple_moves demo_framework s s' \<and> at_calls s' = [OnConnected] \<and> in_turn (at_calls s)"
proof -
  let ?s = "destroy_step demo_up"
  have s: "apple_runs demo_framework anchored_options ?s" by (rule apple_runs.move [OF demo_up_runs apple_moves.destroy])
  have e: "at_block ?s = [Receive]" "at_owner ?s \<noteq> Owning" "at_calls ?s = [OnConnected]"
    by (simp_all add: demo_up_def destroy_step_def new_apple_def)
  have m: "apple_moves demo_framework ?s (do_work Receive (?s\<lparr>at_block := []\<rparr>))" by (rule apple_moves.work [OF e(1)])
  then show ?thesis
    using apple_callbacks_in_order [OF s demo_ready_once r_into_rtranclp [of "apple_moves demo_framework", OF m]] s e by (simp add: Let_def)
qed

text \<open>
  C16: Where the options bring certificates, a server is held to them. If the framework waits for the
  verdict of the verify block, then before the listener hears that the connection is up, a certificate
  chain was evaluated for the name of the options with these certificates as the only anchors, and
  found good; TLS 1.2 and the name were demanded of the framework in any case.
\<close>

theorem apple_server_is_verified:
  assumes "apple_runs lib options s" and "OnConnected \<in> set (at_calls s)" and "waits_for_verdict lib"
    and "tls_trust_anchors_pem options \<noteq> []"
  shows "\<exists>ders t. pem_certificates (tls_trust_anchors_pem options) = Some ders \<and>
    sublist [CopyTrust t True, MakePolicy (server_name_of options) True, SetPolicies True, SetAnchors ders True, SetAnchorsOnly True,
      EvaluateTrust True] (at_trace s) \<and>
    {MinVersion12, SetServerName (server_name_of options), SetVerifyBlock} \<subseteq> set (at_trace s)"
proof -
  have v: "verdicts_fit options s" using apple_runs_ok [OF assms(1)] by simp
  then obtain t where "sublist (evaluation (at_trust s) t) (at_trace s)"
    using verdict_before_ready [OF assms(1,3)] assms(2) by (auto simp: verdicts_fit_def)
  then show ?thesis using v assms(4) by (auto simp: verdicts_fit_def trust_right_def apple_demands_def evaluation_def split: if_splits)
qed

theorem apple_server_is_verified_witness:
  "apple_runs demo_framework anchored_options demo_up \<and>
   (\<exists>t. sublist [CopyTrust t True, MakePolicy ''pbx'' True, SetPolicies True, SetAnchors [[48, 1, 255]] True, SetAnchorsOnly True,
      EvaluateTrust True] (at_trace demo_up))"
proof -
  have "waits_for_verdict demo_framework" by (auto simp: waits_for_verdict_def demo_framework_def)
  moreover have "server_name_of anchored_options = ''pbx''" by (simp add: server_name_of_def anchored_options_def c_str_def)
  moreover have "tls_trust_anchors_pem anchored_options \<noteq> []" by (simp add: anchored_options_def)
  ultimately show ?thesis
    using apple_server_is_verified [OF demo_up_runs] demo_up_runs demo_pem by (auto simp: demo_up_def)
qed

text \<open>
  Every object is released. If a connection cannot be made, nothing is kept of what was made for it.
  Afterwards a block that runs at the end of a receive always has a reference of its own to the
  connection; and when the destructor is through, no receive is outstanding and no block runs, there
  is no reference left, and no queue.
\<close>

theorem apple_objects_are_released:
  "(connect_apple lib options = (None, tr) \<longrightarrow> nothing_left tr) \<and>
   (apple_runs lib options s \<longrightarrow> (Release \<in> set (at_block s) \<longrightarrow> 0 < references (at_trace s)) \<and>
      (at_owner s = Gone \<and> at_receives s = 0 \<and> at_block s = [] \<longrightarrow> references (at_trace s) = 0 \<and> queues (at_trace s) = 0))"
  using create_apple_spec [of lib options None tr] apple_runs_ok [of lib options s] by (auto simp: refs_fit_def)

text \<open>A certificate that the framework does not read, after the name, the array and its data were made.\<close>

theorem apple_objects_are_released_witness:
  "let lib = demo_framework\<lparr>n_certificate := (\<lambda>tr der. False)\<rparr>;
       tr = [MakeString ''pbx'' True, MakeArray, MakeData [48, 1, 255] True, MakeCertificate [48, 1, 255] False, CFRelease DataObject,
             CFRelease ArrayObject, CFRelease NameObject]
   in connect_apple lib anchored_options = (None, tr) \<and> nothing_left tr"
proof -
  let ?lib = "demo_framework\<lparr>n_certificate := (\<lambda>tr der. False)\<rparr>"
  let ?tr = "[MakeString ''pbx'' True, MakeArray, MakeData [48, 1, 255] True, MakeCertificate [48, 1, 255] False, CFRelease DataObject,
    CFRelease ArrayObject, CFRelease NameObject]"
  have "connect_apple ?lib anchored_options = (None, ?tr)"
    using demo_pem
    by (simp add: connect_apple_def create_apple_def trust_for_def nw_ask_def demo_framework_def destroy_trust_def
        anchored_options_def server_name_of_def c_str_def Let_def)
  then show ?thesis using apple_objects_are_released [of ?lib anchored_options ?tr] by (simp add: Let_def)
qed

end
