(* ===== verification/Spec2Isabelle.thy ===== *)
theory Spec2Isabelle
  imports Stream_Framer User_Agent_Liveness User_Agent_Dialogs Swift_Engine Poc_Calls Tls_Guarantees Tls_Apple_Guarantees
begin

text \<open>
  A verification development for ketphone, a SIP softphone library: a C interface over an engine in
  C++, with TLS and audio for the platforms it runs on. File names below are relative to the root of
  the repository.

  \<^bold>\<open>The program.\<close> An application makes an engine (\<^verbatim>\<open>include/ketphone/ketphone.h\<close>, \<^verbatim>\<open>src/core/engine.cpp\<close>). The
  engine has a network thread, which owns a user agent (\<^verbatim>\<open>src/core/user_agent.cpp\<close>), a media session
  (\<^verbatim>\<open>src/media\<close>) and the sockets or the TLS connection (\<^verbatim>\<open>src/net\<close>). The threads of the application queue
  commands and wait for their results; audio threads push and pop samples through two rings; the
  connection posts what it received; events go to a callback of the application. The user agent reads
  and writes SIP messages and session descriptions and answers digest challenges (\<^verbatim>\<open>src/sip\<close>). On
  Apple platforms a class in Swift and an audio unit sit on top (\<^verbatim>\<open>platform/apple\<close>); a command line
  tool measures the way there and back (\<^verbatim>\<open>tools/ketphone-poc\<close>).

  \<^bold>\<open>Conventions.\<close> Strings are \<^typ>\<open>string\<close>, bytes \<^typ>\<open>8 word\<close>, fixed-width integers words where they can wrap and
  \<^typ>\<open>int\<close> or \<^typ>\<open>nat\<close> with explicit arithmetic elsewhere; times are integers in nanoseconds (microseconds in the
  jitter buffer); \<^verbatim>\<open>double\<close> is \<^typ>\<open>real\<close>. Errors are values. Undefined behaviour is a value too: an outer
  \<^term>\<open>None\<close> in the RTP parser, the media session and the options of the tool, the field \<^verbatim>\<open>h_fault\<close> in the
  engine. Everything outside the repository, that is the operating system, libsrtp, OpenSSL,
  Network.framework, Core Audio and the application, is a parameter that answers each call as a function
  of all the calls before it; the calls are recorded in a trace, and theorems about all parameters are
  theorems about all that can happen. Threads are step functions with a program counter, interleaved by
  a step relation.

  \<^bold>\<open>Theories, by the source they model.\<close>

  \<^item> \<^verbatim>\<open>Prelude\<close>, \<^verbatim>\<open>Ordered_Map\<close> (\<^verbatim>\<open>std::map\<close>, with the locale \<^verbatim>\<open>ordered_map\<close>), \<^verbatim>\<open>System_Interface\<close>
    (sockets, clock, libsrtp, TLS as seen from the engine; what it means for resources to be used in
    good order): shared vocabulary.

  \<^item> \<^verbatim>\<open>src/sip\<close>: \<^verbatim>\<open>Sip_Text\<close>, \<^verbatim>\<open>Sip_Message\<close>, \<^verbatim>\<open>Stream_Framer\<close>, \<^verbatim>\<open>Base64\<close>, \<^verbatim>\<open>Sdp\<close>, \<^verbatim>\<open>Md5\<close>, \<^verbatim>\<open>Random_Hex\<close>, \<^verbatim>\<open>Digest\<close>.
    Round trips of builders and parsers, what parsers accept, independence of the framer from how the
    stream is cut, equality of MD5 with RFC 1321, and that an answer to a challenge is the right one.

  \<^item> \<^verbatim>\<open>src/media\<close>: \<^verbatim>\<open>G711\<close>, \<^verbatim>\<open>Rtp\<close>, \<^verbatim>\<open>Spsc_Ring\<close> (operations, the locale \<^verbatim>\<open>bounded_fifo\<close>, and the two threads step by
    step), \<^verbatim>\<open>Jitter_Buffer\<close>, \<^verbatim>\<open>Media_Session\<close>, \<^verbatim>\<open>Srtp\<close>. Error of the codec, where the RTP parser reads, a
    ring without races or loss, playout that only goes forward, numbering of packets.

  \<^item> \<^verbatim>\<open>src/core/user_agent.cpp\<close>: \<^verbatim>\<open>User_Agent_Types\<close> (state), \<^verbatim>\<open>User_Agent_Messages\<close> (texts), \<^verbatim>\<open>User_Agent\<close> (the state
    machine, one definition per method), \<^verbatim>\<open>User_Agent_Contract\<close> (the locale \<^verbatim>\<open>ua_contract\<close> between the user
    agent and its host, and the invariant of both), \<^verbatim>\<open>User_Agent_Runs\<close> (any sequence of inputs; bracketing of
    media, calls reported once), \<^verbatim>\<open>User_Agent_Dialogs\<close> (offers and answers agree, requests are answered,
    final responses acknowledged), \<^verbatim>\<open>User_Agent_Liveness\<close> (shutdown, timers).

  \<^item> \<^verbatim>\<open>src/net\<close>: \<^verbatim>\<open>Udp_Socket\<close>, \<^verbatim>\<open>Pem\<close>; \<^verbatim>\<open>Tls_Stream\<close> is the interface of \<^verbatim>\<open>tls_transport.hpp\<close> with its contract as the
    locale \<^verbatim>\<open>stream_connection\<close>, which both implementations are shown to keep: \<^verbatim>\<open>Tls_Openssl\<close> with
    \<^verbatim>\<open>Tls_Invariant\<close> and \<^verbatim>\<open>Tls_Guarantees\<close>, and \<^verbatim>\<open>Tls_Apple\<close> with \<^verbatim>\<open>Tls_Apple_Guarantees\<close>. Bytes go out once and in
    order, a server is verified before anything passes, callbacks come in order and not after
    destruction, everything is released, destruction ends.

  \<^item> \<^verbatim>\<open>src/core/engine.cpp\<close>: \<^verbatim>\<open>Engine_Host\<close> (the engine as host of the user agent), \<^verbatim>\<open>Engine_Contract\<close> (it keeps
    \<^verbatim>\<open>ua_contract\<close>: an interpretation), \<^verbatim>\<open>Engine\<close> (the network thread as a step function), \<^verbatim>\<open>Engine_Trace\<close>,
    \<^verbatim>\<open>Engine_Invariant\<close>, \<^verbatim>\<open>Engine_Create\<close> (creation and destruction), \<^verbatim>\<open>Engine_Loop\<close>, \<^verbatim>\<open>Engine_Threads\<close> (the threads
    around it as a step relation), \<^verbatim>\<open>Engine_Shutdown\<close>, \<^verbatim>\<open>Engine_Guarantees\<close> (what follows for every run) and
    \<^verbatim>\<open>C_Interface\<close>. Over TLS no packet is sent in the clear and none is accepted unauthenticated; every
    descriptor, SRTP session and connection is used in good order and released; every caller is
    answered once; no wake-up is lost; frames never run away; destruction ends.

  \<^item> \<^verbatim>\<open>platform/apple\<close>: \<^verbatim>\<open>Apple_Audio\<close> and \<^verbatim>\<open>Swift_Engine\<close>. The audio unit is used by its protocol, and a muted
    microphone is silent.

  \<^item> \<^verbatim>\<open>tools/ketphone-poc\<close>: \<^verbatim>\<open>Poc\<close> (its options, and that its device measures the delay of an echo) and
    \<^verbatim>\<open>Poc_Calls\<close> (the course of a run: no call stays behind, success is honest, the engine is destroyed).

  \<^bold>\<open>Loops.\<close> Loops over data are structural or have a termination proof. The delivery of events, whose
  callback may add events, is a partial function, and \<^term>\<open>None\<close> means that it does not return; so are the
  loops of the tool that wait for events. Other loops of threads are steps, and that they end is a
  theorem about the number of steps. There is no fuel.

  \<^bold>\<open>Hypotheses.\<close> Theorems about the engine take for granted that the system gives out descriptors, sessions
  and ports that are not in use (\<^verbatim>\<open>fresh_resources\<close>, \<^verbatim>\<open>ports_given\<close>) and fills the buffer it is asked to
  fill with entropy (\<^verbatim>\<open>full_entropy\<close>); the one about its end, that the callback returns, that input ends
  and that time passes. The end of a TLS connection needs an end of the data that comes in. About
  Network.framework it is assumed, where stated, that a connection becomes ready at most once and only
  after the verdict of the verify block. Each of them is met by a concrete instance in a witness.

  \<^bold>\<open>Not modelled.\<close> Running out of memory, which the C interface turns into an error. The memory model below
  sequential consistency, except that the ring is taken apart into its loads and stores. The
  cryptography of libsrtp and TLS, and the Mersenne Twister (any sequence of values stands for it). In
  \<^verbatim>\<open>udp_socket.cpp\<close> the lines for Apple platforms; in \<^verbatim>\<open>pem.cpp\<close> the stubs of a build without TLS. What the
  command line tool prints, and its signal handlers, which only set the flag that the model reads.
  Rounding of \<^verbatim>\<open>double\<close>. The tests, the build files and scripts, and the vendored library.
\<close>

end
